(* ===== verification/Prelude.thy ===== *)
theory Prelude
  imports Complex_Main "HOL-Library.Multiset"
begin

text \<open>
  Shared vocabulary of the Nightshift development: instants and durations, Python
  dictionaries whose order matters, substring search, ASCII case folding, and the
  collections of rewrite rules the component theories extend.

  Time. A timezone-aware \<^verbatim>\<open>datetime\<close> is an instant, and Python resolves it to the
  microsecond; it is modelled by the integer number of microseconds since the epoch, a
  \<^verbatim>\<open>timedelta\<close> by an integer number of microseconds.  \<^verbatim>\<open>UUID\<close>s are natural
  numbers; a fresh \<^verbatim>\<open>uuid4()\<close> is an argument of the operation that draws it.

  Text. A \<^verbatim>\<open>str\<close> is a list of characters; text outside ASCII is spelled by its
  UTF-8 bytes, so a length and a slice of it count the bytes that start a character.
\<close>

named_theorems flow_simps \<open>characteristic equations of the alarm flow's stages\<close>
named_theorems inv_intros \<open>preservation of the component invariants\<close>

section \<open>Instants, durations, identifiers\<close>

type_synonym instant = int
type_synonym duration = int
type_synonym uuid = nat

abbreviation second :: duration where "second \<equiv> 1000000"
abbreviation minute :: duration where "minute \<equiv> 60000000"
abbreviation hour :: duration where "hour \<equiv> 3600000000"
abbreviation day :: duration where "day \<equiv> 86400000000"

definition seconds :: "int \<Rightarrow> duration" where
  "seconds n = n * second"

lemma seconds_le_iff [simp]: "seconds a \<le> seconds b \<longleftrightarrow> a \<le> b"
  by (simp add: seconds_def)

lemma seconds_less_iff [simp]: "seconds a < seconds b \<longleftrightarrow> a < b"
  by (simp add: seconds_def)

lemma seconds_0 [simp]: "seconds 0 = 0"
  by (simp add: seconds_def)

lemma seconds_pos [simp]: "0 < seconds n \<longleftrightarrow> 0 < n"
  by (simp add: seconds_def)

section \<open>Insertion-ordered dictionaries\<close>

text \<open>
  Where the code iterates over a \<^verbatim>\<open>dict\<close> the order of first insertion is visible; such
  a dictionary is an association list.  Assigning an existing key keeps its position.
\<close>

type_synonym ('k, 'v) dict = "('k \<times> 'v) list"

fun dict_set :: "'k \<Rightarrow> 'v \<Rightarrow> ('k, 'v) dict \<Rightarrow> ('k, 'v) dict" where
  "dict_set k v [] = [(k, v)]"
| "dict_set k v ((k', v') # d) = (if k = k' then (k, v) # d else (k', v') # dict_set k v d)"

definition dict_del :: "'k \<Rightarrow> ('k, 'v) dict \<Rightarrow> ('k, 'v) dict" where
  "dict_del k d = filter (\<lambda>(k', _). k' \<noteq> k) d"

lemma map_of_dict_set [simp]: "map_of (dict_set k v d) = (map_of d)(k \<mapsto> v)"
  by (induction d) (auto simp: fun_eq_iff)

lemma keys_dict_set: "map fst (dict_set k v d) =
    (if k \<in> fst ` set d then map fst d else map fst d @ [k])"
  by (induction d) force+

lemma set_keys_dict_set [simp]: "fst ` set (dict_set k v d) = insert k (fst ` set d)"
proof -
  have "set (map fst (dict_set k v d)) = insert k (set (map fst d))"
    by (simp add: keys_dict_set insert_absorb del: set_map) (simp add: insert_absorb)
  then show ?thesis by simp
qed

lemma distinct_dict_set [inv_intros]:
  "distinct (map fst d) \<Longrightarrow> distinct (map fst (dict_set k v d))"
  by (auto simp: keys_dict_set)

lemma map_of_dict_del [simp]: "map_of (dict_del k d) = (map_of d)(k := None)"
  by (induction d) (auto simp: dict_del_def fun_eq_iff)

lemma distinct_dict_del [inv_intros]:
  "distinct (map fst d) \<Longrightarrow> distinct (map fst (dict_del k d))"
  by (simp add: dict_del_def distinct_map_filter)

section \<open>Searching in lists and text\<close>

fun first_some :: "('a \<Rightarrow> 'b option) \<Rightarrow> 'a list \<Rightarrow> 'b option" where
  "first_some f [] = None"
| "first_some f (x # xs) = (case f x of None \<Rightarrow> first_some f xs | Some y \<Rightarrow> Some y)"

lemma first_some_None_iff: "first_some f xs = None \<longleftrightarrow> (\<forall>x \<in> set xs. f x = None)"
  by (induction xs) (auto split: option.splits)

lemma first_some_SomeD: "first_some f xs = Some y \<Longrightarrow> \<exists>x \<in> set xs. f x = Some y"
  by (induction xs) (auto split: option.splits)

lemma first_some_least:
  "first_some f xs = Some y \<Longrightarrow> \<exists>k < length xs. f (xs ! k) = Some y \<and> (\<forall>j < k. f (xs ! j) = None)"
proof (induction xs)
  case Nil
  then show ?case by simp
next
  case (Cons x xs)
  show ?case
  proof (cases "f x")
    case None
    with Cons obtain k where "k < length xs" "f (xs ! k) = Some y" "\<forall>j < k. f (xs ! j) = None"
      by auto
    with None show ?thesis by (intro exI [of _ "Suc k"]) (auto simp: less_Suc_eq_0_disj)
  next
    case (Some z)
    with Cons.prems show ?thesis by (intro exI [of _ 0]) simp
  qed
qed

lemma first_some_cong:
  "(\<And>x. x \<in> set xs \<Longrightarrow> f x = g x) \<Longrightarrow> first_some f xs = first_some g xs"
  by (induction xs) (auto split: option.splits)

text \<open>\<^verbatim>\<open>str.find\<close> and \<^verbatim>\<open>bytes.find\<close>: the leftmost occurrence.\<close>

fun find_sub :: "'a list \<Rightarrow> 'a list \<Rightarrow> nat option" where
  "find_sub pat [] = (if pat = [] then Some 0 else None)"
| "find_sub pat (x # xs) =
     (if take (length pat) (x # xs) = pat then Some 0 else map_option Suc (find_sub pat xs))"

definition contains_sub :: "'a list \<Rightarrow> 'a list \<Rightarrow> bool" where
  "contains_sub pat xs \<longleftrightarrow> find_sub pat xs \<noteq> None"

lemma find_sub_Some_take:
  "find_sub pat xs = Some i \<Longrightarrow> take (length pat) (drop i xs) = pat \<and> i + length pat \<le> length xs"
proof (induction pat xs arbitrary: i rule: find_sub.induct)
  case (1 pat)
  then show ?case by (simp split: if_splits)
next
  case (2 pat x xs)
  show ?case
  proof (cases "take (length pat) (x # xs) = pat")
    case True
    then have "length pat = min (length (x # xs)) (length pat)"
      by (metis length_take)
    with True "2.prems" show ?thesis by (auto simp: min_def split: if_splits)
  next
    case False
    with "2.prems" obtain j where "find_sub pat xs = Some j" and i: "i = Suc j"
      by auto
    with "2.IH" [OF False] show ?thesis by auto
  qed
qed

lemma find_sub_append:
  "find_sub pat xs = Some i \<Longrightarrow> find_sub pat (xs @ ys) = Some i"
proof (induction pat xs arbitrary: i rule: find_sub.induct)
  case (1 pat)
  then show ?case by (cases ys) (auto split: if_splits)
next
  case (2 pat x xs)
  show ?case
  proof (cases "take (length pat) (x # xs) = pat")
    case True
    then have "length pat \<le> length (x # xs)"
      by (metis length_take min.cobounded1)
    then have "take (length pat) ((x # xs) @ ys) = take (length pat) (x # xs)"
      by (simp only: take_append) simp
    with True "2.prems" show ?thesis by simp
  next
    case False
    with "2.prems" obtain j where j: "find_sub pat xs = Some j" and i: "i = Suc j"
      by auto
    have longer: "length pat \<le> length (x # xs)"
      using find_sub_Some_take [OF j] by simp
    then have "take (length pat) ((x # xs) @ ys) = take (length pat) (x # xs)"
      by (simp only: take_append) simp
    with False have "take (length pat) ((x # xs) @ ys) \<noteq> pat"
      by simp
    with "2.IH" [OF False j] i show ?thesis by simp
  qed
qed

section \<open>Characters of text\<close>

text \<open>
  \<^verbatim>\<open>len(text)\<close> and \<^verbatim>\<open>text[:n]\<close> count characters: a byte that continues a
  character belongs to the one before it.
\<close>

definition continues :: "char \<Rightarrow> bool" where
  "continues c = (let n = of_char c :: nat in 128 \<le> n \<and> n < 192)"

definition py_len :: "string \<Rightarrow> nat" where
  "py_len s = length (filter (\<lambda>c. \<not> continues c) s)"

fun py_take :: "nat \<Rightarrow> string \<Rightarrow> string" where
  "py_take n [] = []"
| "py_take n (c # cs) =
     (if continues c then c # py_take n cs
      else case n of 0 \<Rightarrow> [] | Suc m \<Rightarrow> c # py_take m cs)"

lemma py_take_prefix: "\<exists>k. py_take n s = take k s"
proof (induction n s rule: py_take.induct)
  case (2 n c cs)
  show ?case
  proof (cases "continues c")
    case True
    with 2 obtain k where "py_take n cs = take k cs" by blast
    with True show ?thesis by (intro exI [of _ "Suc k"]) simp
  next
    case False
    show ?thesis
    proof (cases n)
      case 0
      with False show ?thesis by (intro exI [of _ 0]) simp
    next
      case (Suc m)
      with 2 False obtain k where "py_take m cs = take k cs" by blast
      with False Suc show ?thesis by (intro exI [of _ "Suc k"]) simp
    qed
  qed
qed simp

lemma py_len_take: "py_len (py_take n s) = min n (py_len s)"
  by (induction n s rule: py_take.induct) (auto simp: py_len_def split: nat.split)

lemma py_take_short: "py_len s \<le> n \<Longrightarrow> py_take n s = s"
  by (induction n s rule: py_take.induct) (auto simp: py_len_def split: nat.split if_splits)

lemma py_len_ascii: "(\<And>c. c \<in> set s \<Longrightarrow> \<not> continues c) \<Longrightarrow> py_len s = length s"
  by (simp add: py_len_def filter_id_conv)

section \<open>ASCII case folding\<close>

definition lower_char :: "char \<Rightarrow> char" where
  "lower_char c = (let n = of_char c :: nat
                   in if 65 \<le> n \<and> n \<le> 90 then char_of (n + 32) else c)"

definition lower :: "string \<Rightarrow> string" where
  "lower s = map lower_char s"

lemma lower_char_idem [simp]: "lower_char (lower_char c) = lower_char c"
  by (simp add: lower_char_def Let_def)

lemma lower_idem [simp]: "lower (lower s) = lower s"
  by (simp add: lower_def)

lemma length_lower [simp]: "length (lower s) = length s"
  by (simp add: lower_def)

section \<open>Decimal rendering\<close>

definition digit_char :: "nat \<Rightarrow> char" where
  "digit_char d = char_of (48 + d)"

fun show_nat :: "nat \<Rightarrow> string" where
  "show_nat n = (if n < 10 then [digit_char n] else show_nat (n div 10) @ [digit_char (n mod 10)])"

declare show_nat.simps [simp del]

definition show_int :: "int \<Rightarrow> string" where
  "show_int i = (if i < 0 then CHR ''-'' # show_nat (nat (- i)) else show_nat (nat i))"

definition digit_val :: "char \<Rightarrow> nat" where
  "digit_val c = of_char c - 48"

lemma digit_val_char [simp]: "d < 10 \<Longrightarrow> digit_val (digit_char d) = d"
  by (simp add: digit_val_def digit_char_def)

definition read_digits :: "string \<Rightarrow> nat" where
  "read_digits s = foldl (\<lambda>acc c. acc * 10 + digit_val c) 0 s"

lemma read_show_nat [simp]: "read_digits (show_nat n) = n"
proof (induction n rule: show_nat.induct)
  case (1 n)
  show ?case
  proof (cases "n < 10")
    case True
    then show ?thesis by (simp add: show_nat.simps [of n] read_digits_def)
  next
    case False
    with 1 show ?thesis
      by (simp add: show_nat.simps [of n]) (simp add: read_digits_def)
  qed
qed

lemma show_nat_inject [simp]: "show_nat m = show_nat n \<longleftrightarrow> m = n"
  by (metis read_show_nat)

definition is_digit :: "char \<Rightarrow> bool" where
  "is_digit c \<longleftrightarrow> (let n = of_char c :: nat in 48 \<le> n \<and> n \<le> 57)"

lemma is_digit_digit_char: "d < 10 \<Longrightarrow> is_digit (digit_char d)"
  by (simp add: is_digit_def digit_char_def)

lemma show_nat_digits: "c \<in> set (show_nat n) \<Longrightarrow> is_digit c"
proof (induction n rule: show_nat.induct)
  case (1 n)
  show ?case
  proof (cases "n < 10")
    case True
    with "1.prems" show ?thesis by (simp add: show_nat.simps [of n] is_digit_digit_char)
  next
    case False
    with 1 show ?thesis by (auto simp: show_nat.simps [of n] is_digit_digit_char)
  qed
qed

lemma show_nat_Nil [simp]: "show_nat n \<noteq> []"
  by (simp add: show_nat.simps [of n])

section \<open>Letters outside ASCII, by their UTF-8 bytes\<close>

abbreviation u_dotI :: string where "u_dotI \<equiv> [CHR 0xC4, CHR 0xB0]"
abbreviation u_i :: string where "u_i \<equiv> [CHR 0xC4, CHR 0xB1]"
abbreviation u_c :: string where "u_c \<equiv> [CHR 0xC3, CHR 0xA7]"
abbreviation u_C :: string where "u_C \<equiv> [CHR 0xC3, CHR 0x87]"
abbreviation u_s :: string where "u_s \<equiv> [CHR 0xC5, CHR 0x9F]"
abbreviation u_S :: string where "u_S \<equiv> [CHR 0xC5, CHR 0x9E]"
abbreviation u_g :: string where "u_g \<equiv> [CHR 0xC4, CHR 0x9F]"
abbreviation u_u :: string where "u_u \<equiv> [CHR 0xC3, CHR 0xBC]"
abbreviation u_o :: string where "u_o \<equiv> [CHR 0xC3, CHR 0xB6]"
abbreviation u_dot :: string where "u_dot \<equiv> [CHR 0xC2, CHR 0xB7]"
abbreviation u_dash :: string where "u_dash \<equiv> [CHR 0xE2, CHR 0x80, CHR 0x94]"

section \<open>Joining text\<close>

text \<open>\<^verbatim>\<open>sep.join(parts)\<close>.\<close>

fun join_with :: "string \<Rightarrow> string list \<Rightarrow> string" where
  "join_with sep [] = []"
| "join_with sep [p] = p"
| "join_with sep (p # q # ps) = p @ sep @ join_with sep (q # ps)"

section \<open>Computations that may raise\<close>

text \<open>
  A computation that may raise returns \<^typ>\<open>'e + 'a\<close>, the exception on the left.
  \<open>bind_err\<close> is sequencing, \<open>map_err\<close> a comprehension whose body may raise
  (the first exception in list order escapes), \<open>filter_err\<close> one whose condition may.
\<close>

fun bind_err :: "'e + 'a \<Rightarrow> ('a \<Rightarrow> 'e + 'b) \<Rightarrow> 'e + 'b" where
  "bind_err (Inl e) f = Inl e"
| "bind_err (Inr x) f = f x"

fun map_err :: "('a \<Rightarrow> 'e + 'b) \<Rightarrow> 'a list \<Rightarrow> 'e + 'b list" where
  "map_err f [] = Inr []"
| "map_err f (x # xs) = bind_err (f x) (\<lambda>y. bind_err (map_err f xs) (\<lambda>ys. Inr (y # ys)))"

fun filter_err :: "('a \<Rightarrow> 'e + bool) \<Rightarrow> 'a list \<Rightarrow> 'e + 'a list" where
  "filter_err f [] = Inr []"
| "filter_err f (x # xs) = bind_err (f x) (\<lambda>b. bind_err (filter_err f xs)
     (\<lambda>ys. Inr (if b then x # ys else ys)))"

fun map_raised :: "('e \<Rightarrow> 'f) \<Rightarrow> 'e + 'a \<Rightarrow> 'f + 'a" where
  "map_raised g (Inl e) = Inl (g e)"
| "map_raised g (Inr x) = Inr x"

lemma bind_err_Inr_iff: "bind_err m f = Inr y \<longleftrightarrow> (\<exists>x. m = Inr x \<and> f x = Inr y)"
  by (cases m) auto

lemma bind_err_Inl_iff: "bind_err m f = Inl e \<longleftrightarrow> m = Inl e \<or> (\<exists>x. m = Inr x \<and> f x = Inl e)"
  by (cases m) auto

lemma map_raised_Inr_iff [simp]: "map_raised g m = Inr y \<longleftrightarrow> m = Inr y"
  by (cases m) auto

lemma map_err_Inr: "(\<And>x. x \<in> set xs \<Longrightarrow> f x = Inr (g x)) \<Longrightarrow> map_err f xs = Inr (map g xs)"
  by (induction xs) auto

lemma filter_err_Inr: "(\<And>x. x \<in> set xs \<Longrightarrow> f x = Inr (P x)) \<Longrightarrow> filter_err f xs = Inr (filter P xs)"
  by (induction xs) auto

lemma map_err_InrD: "map_err f xs = Inr ys \<Longrightarrow> list_all2 (\<lambda>x y. f x = Inr y) xs ys"
  by (induction xs arbitrary: ys) (auto simp: bind_err_Inr_iff)

section \<open>Rounding\<close>

text \<open>\<^verbatim>\<open>round(x, n)\<close>, ties to even.\<close>

definition round_even :: "rat \<Rightarrow> int" where
  "round_even x = (let f = \<lfloor>x\<rfloor>; d = x - of_int f
     in if d < 1/2 then f else if 1/2 < d then f + 1 else if even f then f else f + 1)"

definition round_to :: "nat \<Rightarrow> rat \<Rightarrow> rat" where
  "round_to n x = of_int (round_even (x * 10 ^ n)) / 10 ^ n"

lemma round_even_between: "of_int a \<le> x \<Longrightarrow> x \<le> of_int b \<Longrightarrow> a \<le> round_even x \<and> round_even x \<le> b"
proof -
  assume a: "of_int a \<le> x" and b: "x \<le> of_int b"
  have f: "a \<le> \<lfloor>x\<rfloor>" "\<lfloor>x\<rfloor> \<le> b" using a b by (simp_all add: le_floor_iff floor_le_iff)
  have "\<lfloor>x\<rfloor> + 1 \<le> b" if "x \<noteq> of_int \<lfloor>x\<rfloor>"
  proof -
    have "of_int \<lfloor>x\<rfloor> < x" using that of_int_floor_le [of x] by linarith
    with b have "of_int \<lfloor>x\<rfloor> < (of_int b :: rat)" by linarith
    then show ?thesis by linarith
  qed
  then show ?thesis using f by (cases "x = of_int \<lfloor>x\<rfloor>") (auto simp: round_even_def Let_def)
qed

end
