(* ===== verification/Identifiers.thy ===== *)
theory Identifiers
  imports Prelude
begin

text \<open>
  How identifiers and text appear in what the program renders: \<^verbatim>\<open>str(uuid)\<close> and
  \<^verbatim>\<open>UUID(text)\<close>, \<^verbatim>\<open>repr(text)\<close>, and the character classes of the
  regular expressions the program writes itself.
\<close>

section \<open>Hexadecimal\<close>

definition hex_char :: "nat \<Rightarrow> char" where
  "hex_char d = (if d < 10 then char_of (48 + d) else char_of (87 + d))"

definition hex_val :: "char \<Rightarrow> nat option" where
  "hex_val c = (let n = of_char c :: nat in
     if 48 \<le> n \<and> n \<le> 57 then Some (n - 48)
     else if 97 \<le> n \<and> n \<le> 102 then Some (n - 87)
     else if 65 \<le> n \<and> n \<le> 70 then Some (n - 55) else None)"

lemma hex_val_char [simp]: "d < 16 \<Longrightarrow> hex_val (hex_char d) = Some d"
  by (simp add: hex_val_def hex_char_def Let_def)

fun hex_fixed :: "nat \<Rightarrow> nat \<Rightarrow> string" where
  "hex_fixed 0 n = []"
| "hex_fixed (Suc k) n = hex_fixed k (n div 16) @ [hex_char (n mod 16)]"

lemma hex_fixed_numeral:
  "hex_fixed (numeral k) n = hex_fixed (pred_numeral k) (n div 16) @ [hex_char (n mod 16)]"
  by (simp only: numeral_eq_Suc hex_fixed.simps)

lemma hex_char_eval:
  "hex_char 0 = CHR ''0''" "hex_char 1 = CHR ''1''" "hex_char 2 = CHR ''2''" "hex_char 3 = CHR ''3''"
  "hex_char 4 = CHR ''4''" "hex_char 5 = CHR ''5''" "hex_char 6 = CHR ''6''" "hex_char 7 = CHR ''7''"
  "hex_char 8 = CHR ''8''" "hex_char 9 = CHR ''9''"
  by code_simp+

lemma digit_char_eval:
  "digit_char 0 = CHR ''0''" "digit_char 1 = CHR ''1''" "digit_char 2 = CHR ''2''"
  "digit_char 3 = CHR ''3''" "digit_char 4 = CHR ''4''" "digit_char 5 = CHR ''5''"
  "digit_char 6 = CHR ''6''" "digit_char 7 = CHR ''7''" "digit_char 8 = CHR ''8''"
  "digit_char 9 = CHR ''9''"
  by code_simp+

fun read_hex :: "nat \<Rightarrow> string \<Rightarrow> nat option" where
  "read_hex acc [] = Some acc"
| "read_hex acc (c # cs) = (case hex_val c of Some d \<Rightarrow> read_hex (acc * 16 + d) cs | None \<Rightarrow> None)"

lemma length_hex_fixed [simp]: "length (hex_fixed k n) = k"
  by (induction k arbitrary: n) simp_all

lemma read_hex_append:
  "read_hex a (xs @ ys) = (case read_hex a xs of Some b \<Rightarrow> read_hex b ys | None \<Rightarrow> None)"
  by (induction xs arbitrary: a) (simp_all split: option.splits)

lemma read_hex_fixed: "n < 16 ^ k \<Longrightarrow> read_hex 0 (hex_fixed k n) = Some n"
  by (induction k arbitrary: n) (simp_all add: read_hex_append less_mult_imp_div_less)

lemma hex_fixed_no_dash: "CHR ''-'' \<notin> set (hex_fixed k n)"
proof (induction k arbitrary: n)
  case (Suc k)
  have "hex_char (n mod 16) \<noteq> CHR ''-''"
    using hex_val_char [of "n mod 16"] by (auto simp: hex_val_def)
  with Suc show ?case by auto
qed simp

section \<open>Numbers as text\<close>

text \<open>
  \<^verbatim>\<open>\s\<close> and what \<^verbatim>\<open>strip\<close> removes.  The blanks and the digits outside ASCII
  that Python also knows are not recognised.
\<close>

definition is_blank :: "char \<Rightarrow> bool" where
  "is_blank c = (let n = of_char c :: nat in (9 \<le> n \<and> n \<le> 13) \<or> (28 \<le> n \<and> n \<le> 32))"

definition py_strip :: "string \<Rightarrow> string" where
  "py_strip s = rev (dropWhile is_blank (rev (dropWhile is_blank s)))"

text \<open>
  \<^verbatim>\<open>int(text)\<close> and \<^verbatim>\<open>int(text, 16)\<close>: between blanks, an optional sign, in base 16 an
  optional \<^verbatim>\<open>0x\<close>, and digits in groups that single underscores separate.
\<close>

fun digit_groups :: "(char \<Rightarrow> bool) \<Rightarrow> string \<Rightarrow> bool" where
  "digit_groups p [] \<longleftrightarrow> False"
| "digit_groups p [c] \<longleftrightarrow> p c"
| "digit_groups p (c # d # cs) \<longleftrightarrow> p c \<and> (digit_groups p (d # cs) \<or> d = CHR ''_'' \<and> digit_groups p cs)"

definition ungrouped :: "string \<Rightarrow> string" where
  "ungrouped s = filter (\<lambda>c. c \<noteq> CHR ''_'') s"

definition split_sign :: "string \<Rightarrow> int \<times> string" where
  "split_sign s = (case s of [] \<Rightarrow> (1, [])
     | c # cs \<Rightarrow> if c = CHR ''-'' then (- 1, cs) else if c = CHR ''+'' then (1, cs) else (1, s))"

definition py_int :: "string \<Rightarrow> int option" where
  "py_int s = (case split_sign (py_strip s) of (sign, ds) \<Rightarrow>
     if digit_groups is_digit ds then Some (sign * int (read_digits (ungrouped ds))) else None)"

definition is_hex :: "char \<Rightarrow> bool" where
  "is_hex c \<longleftrightarrow> hex_val c \<noteq> None"

definition hex_digits :: "string \<Rightarrow> string" where
  "hex_digits s =
     (if take 2 s = ''0x'' \<or> take 2 s = ''0X''
      then (case drop 2 s of [] \<Rightarrow> [] | c # cs \<Rightarrow> if c = CHR ''_'' then cs else c # cs)
      else s)"

definition py_hex_int :: "string \<Rightarrow> int option" where
  "py_hex_int s = (case split_sign (py_strip s) of (sign, ds) \<Rightarrow>
     if digit_groups is_hex (hex_digits ds)
     then map_option (\<lambda>n. sign * int n) (read_hex 0 (ungrouped (hex_digits ds))) else None)"

lemma digit_groups_all: "s \<noteq> [] \<Longrightarrow> (\<And>c. c \<in> set s \<Longrightarrow> p c) \<Longrightarrow> digit_groups p s"
  by (induction p s rule: digit_groups.induct) auto

lemma py_strip_unblank: "(\<And>c. c \<in> set s \<Longrightarrow> \<not> is_blank c) \<Longrightarrow> py_strip s = s"
proof -
  assume none: "\<And>c. c \<in> set s \<Longrightarrow> \<not> is_blank c"
  have "dropWhile is_blank t = t" if "set t = set s" for t
    using that none by (cases t) auto
  then show ?thesis by (simp add: py_strip_def)
qed

lemma hex_fixed_digits: "c \<in> set (hex_fixed k n) \<Longrightarrow> is_hex c"
proof (induction k arbitrary: n)
  case (Suc k)
  have "is_hex (hex_char (n mod 16))" by (simp add: is_hex_def)
  with Suc show ?case by auto
qed simp

lemma hex_digit_facts: "is_hex c \<Longrightarrow>
    \<not> is_blank c \<and> c \<notin> {CHR ''-'', CHR ''+'', CHR ''_'', CHR ''x'', CHR ''X'', CHR '':'', CHR ''{'', CHR ''}''}"
  by (auto simp: is_hex_def hex_val_def is_blank_def Let_def)

lemma py_hex_int_fixed:
  assumes "n < 16 ^ k" and "0 < k"
  shows "py_hex_int (hex_fixed k n) = Some (int n)"
proof -
  let ?h = "hex_fixed k n"
  have hex: "is_hex c" if "c \<in> set ?h" for c using that by (rule hex_fixed_digits)
  obtain c cs where h: "?h = c # cs" using assms(2) by (cases ?h) (auto dest: arg_cong [of _ _ length])
  have "py_strip ?h = ?h" using hex hex_digit_facts by (intro py_strip_unblank) blast
  moreover have "split_sign ?h = (1, ?h)" using hex [of c] hex_digit_facts [of c] by (simp add: split_sign_def h)
  moreover have "hex_digits ?h = ?h"
  proof -
    have "take 2 ?h \<noteq> [CHR ''0'', x]" if "x = CHR ''x'' \<or> x = CHR ''X''" for x
    proof
      assume "take 2 ?h = [CHR ''0'', x]"
      then have "x \<in> set ?h" by (metis in_set_takeD list.set_intros(1,2))
      from hex_digit_facts [OF hex [OF this]] that show False by auto
    qed
    then show ?thesis by (simp add: hex_digits_def)
  qed
  moreover have "ungrouped ?h = ?h"
    using hex hex_digit_facts by (auto simp: ungrouped_def filter_id_conv)
  moreover have "digit_groups is_hex ?h" using hex h by (intro digit_groups_all) auto
  ultimately show ?thesis using read_hex_fixed [OF assms(1)] by (simp add: py_hex_int_def)
qed

section \<open>UUIDs as text\<close>

text \<open>
  \<^verbatim>\<open>str(uuid)\<close> is the 8-4-4-4-12 grouping of 32 hexadecimal digits;
  \<^verbatim>\<open>UUID(text)\<close> removes \<^verbatim>\<open>urn:\<close> and \<^verbatim>\<open>uuid:\<close>, the outer braces and the hyphens
  and reads the 32 characters left as a hexadecimal number, raising \<^verbatim>\<open>ValueError\<close> (here
  \<^const>\<open>None\<close>) where they are not one.
\<close>

definition uuid_text :: "uuid \<Rightarrow> string" where
  "uuid_text u = (let h = hex_fixed 32 u in
     take 8 h @ ''-'' @ take 4 (drop 8 h) @ ''-'' @ take 4 (drop 12 h) @ ''-'' @
     take 4 (drop 16 h) @ ''-'' @ drop 20 h)"

definition strip_chars :: "char set \<Rightarrow> string \<Rightarrow> string" where
  "strip_chars cs s = rev (dropWhile (\<lambda>c. c \<in> cs) (rev (dropWhile (\<lambda>c. c \<in> cs) s)))"

text \<open>\<^verbatim>\<open>text.replace(old, "")\<close>.\<close>

fun remove_sub :: "string \<Rightarrow> string \<Rightarrow> string" where
  "remove_sub old [] = []"
| "remove_sub old (c # cs) =
     (if old \<noteq> [] \<and> take (length old) (c # cs) = old then remove_sub old (drop (length old - 1) cs)
      else c # remove_sub old cs)"

definition parse_uuid :: "string \<Rightarrow> uuid option" where
  "parse_uuid s =
    (let h = filter (\<lambda>c. c \<noteq> CHR ''-'')
           (strip_chars {CHR ''{'', CHR ''}''} (remove_sub ''uuid:'' (remove_sub ''urn:'' s)))
     in if length h \<noteq> 32 then None
        else (case py_hex_int h of None \<Rightarrow> None
              | Some n \<Rightarrow> if 0 \<le> n \<and> n < 2 ^ 128 then Some (nat n) else None))"

lemma remove_sub_absent: "x \<in> set old \<Longrightarrow> x \<notin> set s \<Longrightarrow> remove_sub old s = s"
proof (induction old s rule: remove_sub.induct)
  case (2 old c cs)
  have "take (length old) (c # cs) \<noteq> old"
    using 2(3,4) by (metis in_set_takeD)
  with 2 show ?case by simp
qed simp

lemma strip_chars_id:
  assumes "\<And>c. c \<in> set s \<Longrightarrow> c \<notin> cs"
  shows "strip_chars cs s = s"
proof -
  have "dropWhile (\<lambda>c. c \<in> cs) t = t" if "set t = set s" for t
    using that assms by (cases t) auto
  then show ?thesis by (simp add: strip_chars_def)
qed

lemma filter_dashes: "CHR ''-'' \<notin> set s \<Longrightarrow> filter (\<lambda>c. c \<noteq> CHR ''-'') s = s"
  by (induction s) auto

lemma undash:
  assumes "CHR ''-'' \<notin> set h"
  shows "filter (\<lambda>c. c \<noteq> CHR ''-'') (take 8 h @ ''-'' @ take 4 (drop 8 h) @ ''-'' @
     take 4 (drop 12 h) @ ''-'' @ take 4 (drop 16 h) @ ''-'' @ drop 20 h) = h"
proof -
  have keep: "filter (\<lambda>c. c \<noteq> CHR ''-'') (take k (drop j h)) = take k (drop j h)" for j k
    using assms by (intro filter_dashes) (meson in_set_dropD in_set_takeD)
  have keep_drop: "filter (\<lambda>c. c \<noteq> CHR ''-'') (drop j h) = drop j h" for j
    using assms by (intro filter_dashes) (meson in_set_dropD)
  have step: "take k (drop j h) @ drop (k + j) h = drop j h" for j k
    by (metis append_take_drop_id drop_drop)
  have "take 8 h @ take 4 (drop 8 h) @ take 4 (drop 12 h) @ take 4 (drop 16 h) @ drop 20 h = h"
    using step [of 4 16] step [of 4 12] step [of 4 8] by simp
  then show ?thesis using keep [of 8 0] keep keep_drop by simp
qed

lemma parse_uuid_text:
  assumes "u < 2 ^ 128"
  shows "parse_uuid (uuid_text u) = Some u"
proof -
  let ?h = "hex_fixed 32 u"
  have plain: "is_hex c \<or> c = CHR ''-''" if "c \<in> set (uuid_text u)" for c
  proof -
    from that have "c \<in> set ?h \<or> c = CHR ''-''"
      unfolding uuid_text_def Let_def set_append by (auto dest: in_set_takeD in_set_dropD)
    then show ?thesis using hex_fixed_digits by blast
  qed
  have "CHR '':'' \<notin> set (uuid_text u)" using plain [of "CHR '':''"] hex_digit_facts [of "CHR '':''"] by auto
  then have "remove_sub ''uuid:'' (remove_sub ''urn:'' (uuid_text u)) = uuid_text u"
    using remove_sub_absent [of "CHR '':''"] by simp
  moreover have "strip_chars {CHR ''{'', CHR ''}''} (uuid_text u) = uuid_text u"
    by (rule strip_chars_id) (use plain hex_digit_facts in fastforce)
  moreover have "filter (\<lambda>c. c \<noteq> CHR ''-'') (uuid_text u) = ?h"
    unfolding uuid_text_def Let_def by (rule undash [OF hex_fixed_no_dash])
  moreover have "py_hex_int ?h = Some (int u)"
    using assms by (intro py_hex_int_fixed) simp_all
  ultimately show ?thesis using assms unfolding parse_uuid_def
    by (simp only: Let_def length_hex_fixed) simp
qed

section \<open>Python's repr of text\<close>

text \<open>
  The quote is an apostrophe unless the text has apostrophes and no double quotes; the
  quote and the backslash are escaped, as are the control characters.  Bytes of
  characters outside ASCII stand for themselves.
\<close>

definition repr_quote :: "string \<Rightarrow> char" where
  "repr_quote s = (if CHR 0x27 \<in> set s \<and> CHR 0x22 \<notin> set s then CHR 0x22 else CHR 0x27)"

definition repr_char :: "char \<Rightarrow> char \<Rightarrow> string" where
  "repr_char q c =
    (let n = of_char c :: nat in
     if c = q \<or> c = CHR 0x5C then [CHR 0x5C, c]
     else if n = 10 then [CHR 0x5C, CHR ''n'']
     else if n = 13 then [CHR 0x5C, CHR ''r'']
     else if n = 9 then [CHR 0x5C, CHR ''t'']
     else if n < 32 \<or> n = 127 then [CHR 0x5C, CHR ''x''] @ hex_fixed 2 n
     else [c])"

definition py_repr :: "string \<Rightarrow> string" where
  "py_repr s = [repr_quote s] @ concat (map (repr_char (repr_quote s)) s) @ [repr_quote s]"

section \<open>Character classes\<close>

text \<open>
  \<^verbatim>\<open>\w\<close>.  A byte of a character outside ASCII counts as a letter, as the Turkish
  letters the program handles are.
\<close>

definition is_word :: "char \<Rightarrow> bool" where
  "is_word c = (let n = of_char c :: nat in
     (48 \<le> n \<and> n \<le> 57) \<or> (65 \<le> n \<and> n \<le> 90) \<or> (97 \<le> n \<and> n \<le> 122) \<or> n = 95 \<or> 128 \<le> n)"

text \<open>A word of a case-insensitive pattern at a position, with its \<^verbatim>\<open>\b\<close> on both sides.\<close>

definition starts_ci :: "string \<Rightarrow> string \<Rightarrow> bool" where
  "starts_ci pat s \<longleftrightarrow> lower (take (length pat) s) = pat"

definition starts_word :: "char option \<Rightarrow> string \<Rightarrow> bool" where
  "starts_word prev s \<longleftrightarrow> (case prev of None \<Rightarrow> True | Some c \<Rightarrow> \<not> is_word c)"

definition ends_word :: "string \<Rightarrow> bool" where
  "ends_word s \<longleftrightarrow> (case s of [] \<Rightarrow> True | c # _ \<Rightarrow> \<not> is_word c)"

definition whole_word :: "string \<Rightarrow> char option \<Rightarrow> string \<Rightarrow> bool" where
  "whole_word w prev s \<longleftrightarrow> starts_ci w s \<and> starts_word prev s \<and> ends_word (drop (length w) s)"

fun search_word :: "string \<Rightarrow> char option \<Rightarrow> string \<Rightarrow> bool" where
  "search_word w prev [] \<longleftrightarrow> False"
| "search_word w prev (c # cs) \<longleftrightarrow> whole_word w prev (c # cs) \<or> search_word w (Some c) cs"

section \<open>JSON-like values\<close>

text \<open>The Python values the program renders or sends, and their \<^verbatim>\<open>repr\<close>.\<close>

datatype pyval = PNone | PBool bool | PInt int | PStr string | PList "pyval list"
  | PDict "(string \<times> pyval) list"

fun py_text :: "pyval \<Rightarrow> string" where
  "py_text PNone = ''None''"
| "py_text (PBool b) = (if b then ''True'' else ''False'')"
| "py_text (PInt i) = show_int i"
| "py_text (PStr s) = py_repr s"
| "py_text (PList xs) = ''['' @ join_with '', '' (map py_text xs) @ '']''"
| "py_text (PDict kvs) =
     ''{'' @ join_with '', '' (map (\<lambda>(k, v). py_repr k @ '': '' @ py_text v) kvs) @ ''}''"

text \<open>\<^verbatim>\<open>bool(value)\<close> and \<^verbatim>\<open>str(value)\<close>.\<close>

fun truth :: "pyval \<Rightarrow> bool" where
  "truth PNone = False"
| "truth (PBool b) = b"
| "truth (PInt i) = (i \<noteq> 0)"
| "truth (PStr s) = (s \<noteq> [])"
| "truth (PList xs) = (xs \<noteq> [])"
| "truth (PDict kvs) = (kvs \<noteq> [])"

definition py_str :: "pyval \<Rightarrow> string" where
  "py_str v = (case v of PStr s \<Rightarrow> s | _ \<Rightarrow> py_text v)"

fun texts_in :: "pyval \<Rightarrow> string list" where
  "texts_in (PStr s) = [s]"
| "texts_in (PList xs) = concat (map texts_in xs)"
| "texts_in (PDict kvs) = concat (map (\<lambda>(k, v). k # texts_in v) kvs)"
| "texts_in _ = []"

lemma join_with_infix: "x \<in> set xs \<Longrightarrow> \<exists>a b. join_with sep xs = a @ x @ b"
proof (induction sep xs rule: join_with.induct)
  case (3 sep p q ps)
  show ?case
  proof (cases "x = p")
    case True
    then show ?thesis by (metis append_Nil join_with.simps(3))
  next
    case False
    with 3 obtain a b where "join_with sep (q # ps) = a @ x @ b" by auto
    then have "join_with sep (p # q # ps) = (p @ sep @ a) @ x @ b" by simp
    then show ?thesis by blast
  qed
qed (auto intro: exI [of _ "[]"])

lemma infix_trans:
  "\<exists>a b. z = a @ y @ b \<Longrightarrow> \<exists>a b. y = a @ x @ b \<Longrightarrow> \<exists>a b. z = a @ x @ (b :: 'a list)"
  by (metis append.assoc)

text \<open>Every text inside a value appears, escaped, in the value's rendering.\<close>

lemma infix_surround: "y = a @ x @ b \<Longrightarrow> \<exists>a b. p @ y @ q = a @ x @ b"
  by (metis append.assoc)

lemma infix_left: "\<exists>a b. x @ y = a @ x @ (b :: 'a list)"
  by (rule exI [of _ "[]"]) simp

lemma repr_in_text: "t \<in> set (texts_in v) \<Longrightarrow> \<exists>a b. py_text v = a @ py_repr t @ b"
proof (induction v rule: texts_in.induct)
  case (1 s)
  then have "t = s" by simp
  then show ?case using infix_left [of "py_repr t" "[]"] by simp
next
  case (2 xs)
  then obtain x where x: "x \<in> set xs" "t \<in> set (texts_in x)" by auto
  have "\<exists>a b. join_with '', '' (map py_text xs) = a @ py_text x @ b"
    using x(1) by (intro join_with_infix) simp
  from infix_trans [OF this "2.IH" [OF x]] obtain a b where
    "join_with '', '' (map py_text xs) = a @ py_repr t @ b" by blast
  from infix_surround [OF this] show ?case unfolding py_text.simps .
next
  case (3 kvs)
  let ?f = "\<lambda>(k, v). py_repr k @ '': '' @ py_text v"
  from "3.prems" obtain k v where x: "(k, v) \<in> set kvs" "t = k \<or> t \<in> set (texts_in v)" by auto
  have one: "\<exists>a b. join_with '', '' (map ?f kvs) = a @ (py_repr k @ '': '' @ py_text v) @ b"
    using x(1) by (intro join_with_infix) force
  have two: "\<exists>a b. py_repr k @ '': '' @ py_text v = a @ py_repr t @ b"
  proof (cases "t = k")
    case True
    then show ?thesis by (simp only: infix_left)
  next
    case False
    with x have "t \<in> set (texts_in v)" by simp
    with "3.IH" x(1) obtain a b where "py_text v = a @ py_repr t @ b" by blast
    then have "py_repr k @ '': '' @ py_text v = (py_repr k @ '': '' @ a) @ py_repr t @ b"
      by (simp only: append_assoc)
    then show ?thesis by blast
  qed
  from infix_trans [OF one two] obtain a b where
    "join_with '', '' (map ?f kvs) = a @ py_repr t @ b" by blast
  from infix_surround [OF this] show ?case unfolding py_text.simps .
qed simp_all

end
