(* ===== verification/Mime.thy ===== *)
theory Mime
  imports Identifiers
begin

text \<open>
  Reading one alarm mail, \<^verbatim>\<open>backend/app/modules/ingest/mime.py\<close>.  The standard
  library's parser is the input: what its message object answers for a header, and what each
  part \<^verbatim>\<open>walk()\<close> yields answers when asked for its text or its bytes, failures
  included.  Bytes are characters; SHA-256 and the HTML tag stripper are parameters.
\<close>

section \<open>Parsed messages\<close>

definition jpeg_magic :: string where
  "jpeg_magic = [CHR 0xFF, CHR 0xD8, CHR 0xFF]"

definition min_image_bytes :: nat where
  "min_image_bytes = 1024"

definition max_attachment_bytes :: nat where
  "max_attachment_bytes = 16 * 1024 * 1024"

record attachment =
  att_filename :: "string option"
  att_type :: string
  att_content :: string

definition is_jpeg :: "attachment \<Rightarrow> bool" where
  "is_jpeg a \<longleftrightarrow> min_image_bytes \<le> length (att_content a) \<and> take 3 (att_content a) = jpeg_magic"

record parsed_message =
  msg_id :: string
  msg_subject :: string
  msg_sender :: string
  msg_recipients :: "string list"
  msg_date :: "instant option"
  msg_body :: string
  msg_attachments :: "attachment list"
  msg_size :: nat
  msg_warnings :: "string list"

definition images :: "parsed_message \<Rightarrow> attachment list" where
  "images m = filter is_jpeg (msg_attachments m)"

definition warn :: "string \<Rightarrow> parsed_message \<Rightarrow> parsed_message" where
  "warn w m = (if w \<in> set (msg_warnings m) then m else m\<lparr>msg_warnings := msg_warnings m @ [w]\<rparr>)"

section \<open>What the mail library answers\<close>

datatype text_answer = Decoded string | Not_text | Undecodable "string option"
datatype payload_answer = Payload string | No_payload | Broken_encoding

record mail_part =
  part_type :: string
  part_disposition :: "string option"
  part_text :: text_answer
  part_payload :: payload_answer
  part_filename :: "string option"

record mail_message =
  mail_header :: "string \<Rightarrow> string option"
  mail_date :: "instant option"
  mail_parts :: "mail_part list"
  mail_walk_broken :: bool

text \<open>\<open>digest\<close> is the hexadecimal SHA-256, \<open>strip_html\<close> the tag stripper.\<close>

record mail_env =
  digest :: "string \<Rightarrow> string"
  strip_html :: "string \<Rightarrow> string"
  mail_parser :: "string \<Rightarrow> mail_message option"

section \<open>Parsing\<close>

definition synthesize_message_id :: "mail_env \<Rightarrow> string \<Rightarrow> string" where
  "synthesize_message_id env raw = ''<sha256-'' @ take 32 (digest env raw) @ ''@ingest.local>''"

definition header :: "mail_message \<Rightarrow> string \<Rightarrow> string" where
  "header m name = (case mail_header m name of None \<Rightarrow> [] | Some v \<Rightarrow> py_strip v)"

definition parse_date :: "mail_message \<Rightarrow> instant option" where
  "parse_date m = (if header m ''Date'' = [] then None else mail_date m)"

definition decode_text :: "mail_env \<Rightarrow> mail_part \<Rightarrow> parsed_message \<Rightarrow> string \<times> parsed_message" where
  "decode_text env p m =
    (let finish = (\<lambda>s. (if part_type p = ''text/html'' then strip_html env s else s, m))
     in case part_text p of
          Decoded s \<Rightarrow> finish s
        | Not_text \<Rightarrow> ([], m)
        | Undecodable (Some s) \<Rightarrow>
            if s = [] then ([], warn ''a text part could not be decoded'' m) else finish s
        | Undecodable None \<Rightarrow> ([], warn ''a text part could not be decoded'' m))"

definition inline_text :: "mail_part \<Rightarrow> bool" where
  "inline_text p \<longleftrightarrow> take 5 (part_type p) = ''text/'' \<and>
     lower (case part_disposition p of None \<Rightarrow> [] | Some d \<Rightarrow> d) \<noteq> ''attachment''"

fun read_parts :: "mail_env \<Rightarrow> bool \<Rightarrow> mail_part list \<Rightarrow> string list \<Rightarrow> nat \<Rightarrow> parsed_message
    \<Rightarrow> string list \<times> parsed_message" where
  "read_parts env broken [] texts tot m =
     (texts, if broken then warn ''MIME tree could not be walked completely'' m else m)"
| "read_parts env broken (p # ps) texts tot m =
     (if inline_text p
      then (case decode_text env p m of (t, m') \<Rightarrow> read_parts env broken ps (texts @ [t]) tot m')
      else case part_payload p of
        Broken_encoding \<Rightarrow>
          read_parts env broken ps texts tot (warn ''an attachment could not be decoded'' m)
      | No_payload \<Rightarrow> read_parts env broken ps texts tot m
      | Payload b \<Rightarrow>
          if b = [] then read_parts env broken ps texts tot m
          else if max_attachment_bytes < tot + length b
          then (texts, warn ''attachments exceeded the size cap; remainder dropped'' m)
          else read_parts env broken ps texts (tot + length b)
                 (m\<lparr>msg_attachments := msg_attachments m @
                      [\<lparr>att_filename = part_filename p, att_type = part_type p, att_content = b\<rparr>]\<rparr>))"

definition unparseable :: "mail_env \<Rightarrow> string \<Rightarrow> parsed_message" where
  "unparseable env raw = \<lparr>msg_id = synthesize_message_id env raw, msg_subject = [], msg_sender = [],
     msg_recipients = [], msg_date = None, msg_body = [], msg_attachments = [],
     msg_size = length raw, msg_warnings = [''message could not be parsed as RFC 5322'']\<rparr>"

definition envelope_of :: "mail_env \<Rightarrow> string \<Rightarrow> mail_message \<Rightarrow> parsed_message" where
  "envelope_of env raw mail = \<lparr>
     msg_id = (if header mail ''Message-ID'' = [] then synthesize_message_id env raw
               else header mail ''Message-ID''),
     msg_subject = header mail ''Subject'', msg_sender = header mail ''From'',
     msg_recipients = filter (\<lambda>v. v \<noteq> []) (map (header mail) [''To'', ''Cc'']),
     msg_date = parse_date mail, msg_body = [], msg_attachments = [], msg_size = length raw,
     msg_warnings = []\<rparr>"

definition parse_message :: "mail_env \<Rightarrow> string \<Rightarrow> parsed_message" where
  "parse_message env raw =
    (case mail_parser env raw of
       None \<Rightarrow> unparseable env raw
     | Some mail \<Rightarrow>
         (case read_parts env (mail_walk_broken mail) (mail_parts mail) [] 0 (envelope_of env raw mail) of
            (texts, m) \<Rightarrow>
              let m1 = m\<lparr>msg_body := py_strip (join_with [CHR 0x0A] (filter (\<lambda>t. t \<noteq> []) texts))\<rparr>
              in if msg_body m1 = [] then warn ''message carried no readable text body'' m1 else m1))"

section \<open>What survives reading\<close>

lemma warn_fields [simp]:
  "msg_id (warn w m) = msg_id m" "msg_attachments (warn w m) = msg_attachments m"
  "msg_size (warn w m) = msg_size m" "msg_body (warn w m) = msg_body m"
  by (simp_all add: warn_def)

lemma decode_text_fields [simp]:
  "msg_id (snd (decode_text env p m)) = msg_id m"
  "msg_attachments (snd (decode_text env p m)) = msg_attachments m"
  by (simp_all add: decode_text_def Let_def split: text_answer.splits option.splits)

lemma read_parts_id: "msg_id (snd (read_parts env broken ps texts tot m)) = msg_id m"
  by (induction ps arbitrary: texts tot m)
    (simp_all add: case_prod_unfold split: payload_answer.splits)

lemma parse_message_id:
  "msg_id (parse_message env raw) \<noteq> []"
proof (cases "mail_parser env raw")
  case None
  then show ?thesis by (simp add: parse_message_def unparseable_def synthesize_message_id_def)
next
  case (Some mail)
  have "msg_id (parse_message env raw) = msg_id (envelope_of env raw mail)"
    using Some read_parts_id [of env "mail_walk_broken mail" "mail_parts mail" "[]" 0 "envelope_of env raw mail"]
    by (simp add: parse_message_def Let_def case_prod_unfold)
  then show ?thesis by (simp add: envelope_of_def synthesize_message_id_def)
qed

definition attachment_bytes :: "parsed_message \<Rightarrow> nat" where
  "attachment_bytes m = sum_list (map (length \<circ> att_content) (msg_attachments m))"

lemma read_parts_capped:
  assumes "attachment_bytes m \<le> tot" and "tot \<le> max_attachment_bytes"
  shows "attachment_bytes (snd (read_parts env broken ps texts tot m)) \<le> max_attachment_bytes"
  using assms
proof (induction ps arbitrary: texts tot m)
  case Nil
  then show ?case by (simp add: attachment_bytes_def)
next
  case (Cons p ps)
  have same: "attachment_bytes (snd (decode_text env p m)) = attachment_bytes m"
    "\<And>w. attachment_bytes (warn w m) = attachment_bytes m"
    by (simp_all add: attachment_bytes_def)
  show ?case
  proof (cases "inline_text p")
    case True
    with Cons.IH [of "snd (decode_text env p m)" tot] Cons.prems same show ?thesis
      by (simp split: prod.splits) (metis snd_conv)
  next
    case False
    with Cons.IH Cons.prems same show ?thesis
      by (auto simp: attachment_bytes_def split: payload_answer.splits)
  qed
qed

text \<open>
  Whatever a recorder sends, reading it ends in a message with a non-empty identifier
  and at most sixteen megabytes of attachments, and its images are attachments that begin
  with the JPEG marker and are no stubs.
\<close>

theorem parse_message_bounded:
  "msg_id (parse_message env raw) \<noteq> [] \<and>
   attachment_bytes (parse_message env raw) \<le> max_attachment_bytes \<and>
   (\<forall>a. a \<in> set (images (parse_message env raw)) \<longleftrightarrow>
      a \<in> set (msg_attachments (parse_message env raw)) \<and> 1024 \<le> length (att_content a) \<and>
      take 3 (att_content a) = jpeg_magic)"
proof (intro conjI allI)
  show "msg_id (parse_message env raw) \<noteq> []" by (rule parse_message_id)
  show "attachment_bytes (parse_message env raw) \<le> max_attachment_bytes"
  proof (cases "mail_parser env raw")
    case None
    then show ?thesis by (simp add: parse_message_def unparseable_def attachment_bytes_def)
  next
    case (Some mail)
    have "attachment_bytes (envelope_of env raw mail) \<le> 0"
      by (simp add: envelope_of_def attachment_bytes_def)
    from read_parts_capped [OF this, of env "mail_walk_broken mail" "mail_parts mail" "[]"] Some
    show ?thesis
      by (simp add: parse_message_def attachment_bytes_def Let_def case_prod_unfold)
  qed
qed (auto simp: images_def is_jpeg_def min_image_bytes_def)

end
