(* ===== verification/Ingest.thy ===== *)
theory Ingest
  imports Mime
begin

text \<open>
  From a mail to an event: firmware profiles,
  \<^verbatim>\<open>backend/app/modules/ingest/profiles.py\<close>, and the pipeline around them,
  \<^verbatim>\<open>backend/app/modules/ingest/pipeline.py\<close>.  A rule's regular expression is the
  function \<open>fr_match\<close> from the body to the group it captures; \<open>strptime\<close> parses a
  text in a format to a naive local instant.
\<close>

section \<open>Profiles\<close>

datatype event_field = F_EVENT | F_CHANNEL_NUMBER | F_CHANNEL_NAME | F_DEVICE_NAME | F_OCCURRED_AT
  | F_DEVICE_IP | F_SERIAL

fun field_value :: "event_field \<Rightarrow> string" where
  "field_value F_EVENT = ''event''"
| "field_value F_CHANNEL_NUMBER = ''channel_number''"
| "field_value F_CHANNEL_NAME = ''channel_name''"
| "field_value F_DEVICE_NAME = ''device_name''"
| "field_value F_OCCURRED_AT = ''occurred_at''"
| "field_value F_DEVICE_IP = ''device_ip''"
| "field_value F_SERIAL = ''serial''"

definition all_fields :: "event_field list" where
  "all_fields = [F_EVENT, F_CHANNEL_NUMBER, F_CHANNEL_NAME, F_DEVICE_NAME, F_OCCURRED_AT,
     F_DEVICE_IP, F_SERIAL]"

record field_rule =
  fr_field :: event_field
  fr_match :: "string \<Rightarrow> string option"

definition apply_rule :: "field_rule \<Rightarrow> string \<Rightarrow> string option" where
  "apply_rule r text = (case fr_match r text of
     None \<Rightarrow> None | Some v \<Rightarrow> if v = [] then None else Some (py_strip v))"

record email_profile =
  prof_name :: string
  prof_verified :: bool
  prof_rules :: "field_rule list"
  prof_labels :: "(string, string) dict"
  prof_formats :: "string list"

record parsed_body =
  pb_profile :: string
  pb_label :: "string option"
  pb_type :: string
  pb_channel :: "int option"
  pb_channel_name :: "string option"
  pb_device_name :: "string option"
  pb_device_ip :: "string option"
  pb_serial :: "string option"
  pb_occurred :: "instant option"
  pb_occurred_raw :: "string option"
  pb_blocked :: bool
  pb_missing :: "string list"

definition blank_body :: "string \<Rightarrow> parsed_body" where
  "blank_body name = \<lparr>pb_profile = name, pb_label = None, pb_type = ''unknown_alarm'',
     pb_channel = None, pb_channel_name = None, pb_device_name = None, pb_device_ip = None,
     pb_serial = None, pb_occurred = None, pb_occurred_raw = None, pb_blocked = False,
     pb_missing = []\<rparr>"

definition has_event_identity :: "parsed_body \<Rightarrow> bool" where
  "has_event_identity b \<longleftrightarrow> pb_type b \<noteq> ''unknown_alarm'' \<and> pb_channel b \<noteq> None"

definition is_complete :: "parsed_body \<Rightarrow> bool" where
  "is_complete b \<longleftrightarrow> pb_missing b = []"

definition dahua_event_labels :: "(string, string) dict" where
  "dahua_event_labels =
    [(''smart motion human'', ''person_detected''), (''smd human'', ''person_detected''),
     (''human detection'', ''person_detected''), (''smart motion vehicle'', ''vehicle_detected''),
     (''smd vehicle'', ''vehicle_detected''), (''vehicle detection'', ''vehicle_detected''),
     (''smart motion'', ''motion_detected''), (''tripwire'', ''line_crossing''),
     (''cross line'', ''line_crossing''), (''crossing line'', ''line_crossing''),
     (''intrusion'', ''zone_intrusion''), (''cross region'', ''zone_intrusion''),
     (''perimeter'', ''zone_intrusion''), (''motion detection'', ''motion_detected''),
     (''video loss'', ''video_loss''), (''video tampering'', ''video_tampering''),
     (''camera masking'', ''video_tampering''), (''tampering'', ''video_tampering''),
     (''no disk'', ''storage_not_exist''), (''disk error'', ''storage_failure''),
     (''hdd error'', ''storage_failure''), (''disk full'', ''storage_low_space''),
     (''low space'', ''storage_low_space''), (''offline'', ''device_offline'')]"

text \<open>\<^verbatim>\<open>sorted(mapping, key=len, reverse=True)\<close> keeps the order of equally long keys.\<close>

definition longest_first :: "string list \<Rightarrow> string list" where
  "longest_first ks = sort_key (\<lambda>k. - int (length k)) ks"

definition classify_event_label :: "string option \<Rightarrow> (string, string) dict \<Rightarrow> string" where
  "classify_event_label label mapping =
    (case label of
       None \<Rightarrow> ''unknown_alarm''
     | Some l \<Rightarrow>
         if l = [] then ''unknown_alarm''
         else case find (\<lambda>k. contains_sub k (lower l)) (longest_first (map fst mapping)) of
           None \<Rightarrow> ''unknown_alarm''
         | Some k \<Rightarrow> the (map_of mapping k))"

definition rule_values :: "email_profile \<Rightarrow> string \<Rightarrow> (event_field, string option) dict" where
  "rule_values prof text = fold (\<lambda>r d. dict_set (fr_field r) (apply_rule r text) d) (prof_rules prof) []"

definition field_of :: "(event_field, string option) dict \<Rightarrow> event_field \<Rightarrow> string option" where
  "field_of vs f = (case map_of vs f of Some (Some v) \<Rightarrow> Some v | _ \<Rightarrow> None)"

definition falsy :: "string option \<Rightarrow> bool" where
  "falsy v \<longleftrightarrow> v = None \<or> v = Some []"

text \<open>\<^verbatim>\<open>sorted(_missing_fields(values))\<close>: the three names in alphabetical order.\<close>

definition missing_fields :: "(event_field, string option) dict \<Rightarrow> string list" where
  "missing_fields vs = map field_value
     (filter (\<lambda>f. falsy (field_of vs f)) [F_CHANNEL_NUMBER, F_EVENT, F_OCCURRED_AT])"

type_synonym time_parser = "string \<Rightarrow> string \<Rightarrow> instant option"

definition parse_time :: "time_parser \<Rightarrow> string \<Rightarrow> string list \<Rightarrow> instant option" where
  "parse_time strptime raw formats =
    (let candidate = map (\<lambda>c. if c = CHR ''T'' then CHR '' '' else c) (py_strip raw)
     in first_some (strptime candidate) formats)"

definition channel_of :: "string option \<Rightarrow> int option" where
  "channel_of raw = (case raw of
     Some v \<Rightarrow> if v \<noteq> [] \<and> list_all is_digit v then Some (int (read_digits v)) else None
   | None \<Rightarrow> None)"

definition parse_body :: "time_parser \<Rightarrow> string \<Rightarrow> email_profile \<Rightarrow> parsed_body" where
  "parse_body strptime text prof =
    (let b = blank_body (prof_name prof) in
     if py_strip text = [] then b\<lparr>pb_missing := map field_value all_fields\<rparr>
     else
       let vs = rule_values prof text;
           label = field_of vs F_EVENT;
           raw_time = field_of vs F_OCCURRED_AT;
           b1 = b\<lparr>pb_label := label, pb_channel_name := field_of vs F_CHANNEL_NAME,
                  pb_device_name := field_of vs F_DEVICE_NAME, pb_device_ip := field_of vs F_DEVICE_IP,
                  pb_serial := field_of vs F_SERIAL, pb_occurred_raw := raw_time,
                  pb_channel := channel_of (field_of vs F_CHANNEL_NUMBER),
                  pb_occurred := (if falsy raw_time then None
                                  else parse_time strptime (the raw_time) (prof_formats prof))\<rparr>
       in if search_word ''face'' None (case label of None \<Rightarrow> [] | Some l \<Rightarrow> l) \<or>
             search_word ''face'' None text
          then b1\<lparr>pb_blocked := True, pb_type := ''blocked:face_event''\<rparr>
          else b1\<lparr>pb_type := classify_event_label label (prof_labels prof),
                  pb_missing := missing_fields vs\<rparr>)"

section \<open>The pipeline\<close>

datatype parse_status = PARSED | PARTIAL | UNPARSED | BLOCKED

fun parse_status_value :: "parse_status \<Rightarrow> string" where
  "parse_status_value PARSED = ''PARSED''"
| "parse_status_value PARTIAL = ''PARTIAL''"
| "parse_status_value UNPARSED = ''UNPARSED''"
| "parse_status_value BLOCKED = ''BLOCKED''"

record device_identity =
  id_device :: uuid
  id_tenant :: uuid
  id_site :: uuid
  id_username :: string
  id_profile :: email_profile
  id_capture :: bool

record ingested_media =
  media_filename :: "string option"
  media_type :: string
  media_content :: string
  media_digest :: string

record ingested_event =
  ie_tenant :: uuid
  ie_site :: uuid
  ie_device :: uuid
  ie_type :: string
  ie_channel :: "int option"
  ie_channel_name :: "string option"
  ie_occurred_local :: "instant option"
  ie_received :: instant
  ie_source :: string
  ie_message_id :: string
  ie_status :: parse_status
  ie_profile :: string
  ie_label :: "string option"
  ie_warnings :: "string list"

definition dedup_key :: "ingested_event \<Rightarrow> string" where
  "dedup_key e = join_with '':'' [uuid_text (ie_tenant e), uuid_text (ie_site e),
     uuid_text (ie_device e), (case ie_channel e of Some n \<Rightarrow> show_int n | None \<Rightarrow> ''?''), ie_type e]"

record ingest_result =
  ir_identity :: device_identity
  ir_message :: parsed_message
  ir_body :: parsed_body
  ir_event :: "ingested_event option"
  ir_media :: "ingested_media list"
  ir_sample :: "string option"
  ir_blocked :: bool

definition result_status :: "ingest_result \<Rightarrow> parse_status" where
  "result_status r = (if ir_blocked r then BLOCKED
     else case ir_event r of Some e \<Rightarrow> ie_status e | None \<Rightarrow> UNPARSED)"

definition classify :: "parsed_body \<Rightarrow> parse_status" where
  "classify b = (if has_event_identity b then PARSED
     else if pb_type b \<noteq> ''unknown_alarm'' \<or> pb_channel b \<noteq> None then PARTIAL else UNPARSED)"

definition should_capture :: "device_identity \<Rightarrow> parse_status \<Rightarrow> bool" where
  "should_capture i st = (if id_capture i \<or> \<not> prof_verified (id_profile i) then True else st \<noteq> PARSED)"

definition stripped :: "parsed_message \<Rightarrow> parsed_message" where
  "stripped m = \<lparr>msg_id = msg_id m, msg_subject = [], msg_sender = msg_sender m,
     msg_recipients = msg_recipients m, msg_date = msg_date m, msg_body = [], msg_attachments = [],
     msg_size = msg_size m, msg_warnings = [''content refused: face-related alarm (spec 19.3)'']\<rparr>"

definition from_attachment :: "mail_env \<Rightarrow> attachment \<Rightarrow> ingested_media" where
  "from_attachment env a = \<lparr>media_filename = att_filename a, media_type = att_type a,
     media_content = att_content a, media_digest = digest env (att_content a)\<rparr>"

definition event_warnings :: "device_identity \<Rightarrow> parsed_message \<Rightarrow> parsed_body \<Rightarrow> parse_status \<Rightarrow> string list" where
  "event_warnings i m b st = msg_warnings m @
    (if st \<noteq> PARSED
     then [''body parse '' @ lower (parse_status_value st) @ '' with profile '' @ pb_profile b @
           ''; missing: '' @ (if pb_missing b = [] then ''n/a'' else join_with '', '' (pb_missing b))]
     else []) @
    (if \<not> prof_verified (id_profile i)
     then [''profile '' @ pb_profile b @ '' is unverified - confirm against a real device''] else []) @
    (if images m = [] then [''no usable JPEG attachment on this alarm''] else [])"

definition ingest :: "mail_env \<Rightarrow> time_parser \<Rightarrow> string \<Rightarrow> device_identity \<Rightarrow> instant \<Rightarrow> ingest_result" where
  "ingest env strptime raw i now =
    (let m = parse_message env raw;
         b = parse_body strptime (msg_body m) (id_profile i)
     in if pb_blocked b
        then \<lparr>ir_identity = i, ir_message = stripped m, ir_body = b, ir_event = None, ir_media = [],
              ir_sample = None, ir_blocked = True\<rparr>
        else
          let st = classify b
          in \<lparr>ir_identity = i, ir_message = m, ir_body = b,
              ir_event = Some \<lparr>ie_tenant = id_tenant i, ie_site = id_site i, ie_device = id_device i,
                ie_type = pb_type b, ie_channel = pb_channel b, ie_channel_name = pb_channel_name b,
                ie_occurred_local = pb_occurred b, ie_received = now, ie_source = ''email'',
                ie_message_id = msg_id m, ie_status = st, ie_profile = pb_profile b,
                ie_label = pb_label b, ie_warnings = event_warnings i m b st\<rparr>,
              ir_media = map (from_attachment env) (images m),
              ir_sample = (if should_capture i st then Some raw else None),
              ir_blocked = False\<rparr>)"

section \<open>The most specific label wins\<close>

lemma find_sorted_least:
  "sorted (map f xs) \<Longrightarrow> find P xs = Some x \<Longrightarrow> y \<in> set xs \<Longrightarrow> P y \<Longrightarrow> f x \<le> f y"
  by (induction xs) (auto split: if_splits)

text \<open>
  A label is classified by a longest key of the map that occurs in it, ignoring the
  label's case, and stays unknown exactly when no key occurs; the order of the map matters
  only between keys of the same length.
\<close>

theorem longest_label_wins:
  assumes "l \<noteq> []"
  shows "(\<exists>k \<in> fst ` set mapping. contains_sub k (lower l) \<and>
      classify_event_label (Some l) mapping = the (map_of mapping k) \<and>
      (\<forall>k' \<in> fst ` set mapping. contains_sub k' (lower l) \<longrightarrow> length k' \<le> length k)) \<or>
    ((\<forall>k \<in> fst ` set mapping. \<not> contains_sub k (lower l)) \<and>
      classify_event_label (Some l) mapping = ''unknown_alarm'')"
proof -
  let ?P = "\<lambda>k. contains_sub k (lower l)"
  let ?ks = "longest_first (map fst mapping)"
  have ks: "set ?ks = fst ` set mapping" by (simp add: longest_first_def)
  have srt: "sorted (map (\<lambda>k. - int (length k)) ?ks)" by (simp add: longest_first_def)
  show ?thesis
  proof (cases "find ?P ?ks")
    case None
    then have "\<forall>k \<in> fst ` set mapping. \<not> ?P k" by (simp add: find_None_iff ks)
    with None assms show ?thesis by (simp add: classify_event_label_def)
  next
    case (Some k)
    then have "?P k" "k \<in> set ?ks" by (auto simp: find_Some_iff)
    moreover have "length k' \<le> length k" if "k' \<in> fst ` set mapping" "?P k'" for k'
      using find_sorted_least [OF srt Some, of k'] that by (simp add: ks)
    ultimately show ?thesis using Some assms by (auto simp: classify_event_label_def ks)
  qed
qed

theorem longest_label_wins_witness:
  "classify_event_label (Some ''smart motion human 2'')
     [(''smart motion'', ''motion_detected''), (''smart motion human'', ''person_detected'')] =
   ''person_detected''"
proof -
  let ?m = "[(''smart motion'', ''motion_detected''), (''smart motion human'', ''person_detected'')]"
  have c: "contains_sub ''smart motion human'' (lower ''smart motion human 2'')"
    by (simp add: contains_sub_def lower_def lower_char_def)
  from longest_label_wins [of "''smart motion human 2''" ?m] c show ?thesis by auto
qed

section \<open>No mail is lost, no face is kept\<close>

text \<open>
  C18. A mail is refused exactly when its text, or the label a rule lifts from it, has the
  word \<^verbatim>\<open>face\<close>; then no event, media, sample, body or attachment is left.  Any
  other mail, however unreadable, yields an event of the authenticated device with a
  message identifier, and its raw bytes are kept unless a verified profile parsed it fully.
\<close>

theorem ingest_keeps_or_refuses:
  fixes env strptime raw i now
  defines "m \<equiv> parse_message env raw" and "r \<equiv> ingest env strptime raw i now"
  shows "(ir_blocked r \<longleftrightarrow> py_strip (msg_body m) \<noteq> [] \<and>
      (search_word ''face'' None (msg_body m) \<or>
       (\<exists>l. field_of (rule_values (id_profile i) (msg_body m)) F_EVENT = Some l \<and>
          search_word ''face'' None l))) \<and>
    (ir_blocked r \<longrightarrow> ir_event r = None \<and> ir_media r = [] \<and> ir_sample r = None \<and>
      msg_body (ir_message r) = [] \<and> msg_attachments (ir_message r) = [] \<and> msg_subject (ir_message r) = []) \<and>
    (\<not> ir_blocked r \<longrightarrow> (\<exists>e. ir_event r = Some e \<and> ie_device e = id_device i \<and>
      ie_tenant e = id_tenant i \<and> ie_site e = id_site i \<and> ie_message_id e \<noteq> [] \<and>
      ie_status e = result_status r \<and>
      (ir_sample r = None \<longrightarrow> result_status r = PARSED \<and> prof_verified (id_profile i)) \<and>
      (ir_sample r \<noteq> None \<longrightarrow> ir_sample r = Some raw)))"
proof -
  have blocked: "pb_blocked (parse_body strptime (msg_body m) (id_profile i)) \<longleftrightarrow>
      py_strip (msg_body m) \<noteq> [] \<and> (search_word ''face'' None (msg_body m) \<or>
       (\<exists>l. field_of (rule_values (id_profile i) (msg_body m)) F_EVENT = Some l \<and>
          search_word ''face'' None l))"
    by (auto simp: parse_body_def blank_body_def Let_def split: option.splits)
  have id: "msg_id m \<noteq> []" unfolding m_def by (rule parse_message_id)
  show ?thesis
  proof (cases "pb_blocked (parse_body strptime (msg_body m) (id_profile i))")
    case True
    then have "ir_blocked r" and "ir_event r = None \<and> ir_media r = [] \<and> ir_sample r = None \<and>
        msg_body (ir_message r) = [] \<and> msg_attachments (ir_message r) = [] \<and> msg_subject (ir_message r) = []"
      by (simp_all add: r_def ingest_def m_def stripped_def Let_def)
    with True blocked show ?thesis by simp
  next
    case False
    then have "\<not> ir_blocked r" by (simp add: r_def ingest_def m_def Let_def)
    moreover have "\<exists>e. ir_event r = Some e \<and> ie_device e = id_device i \<and>
      ie_tenant e = id_tenant i \<and> ie_site e = id_site i \<and> ie_message_id e \<noteq> [] \<and>
      ie_status e = result_status r \<and>
      (ir_sample r = None \<longrightarrow> result_status r = PARSED \<and> prof_verified (id_profile i)) \<and>
      (ir_sample r \<noteq> None \<longrightarrow> ir_sample r = Some raw)"
      using False id by (simp add: r_def ingest_def m_def Let_def result_status_def should_capture_def)
    ultimately show ?thesis using False blocked by simp
  qed
qed

definition plain_profile :: email_profile where
  "plain_profile = \<lparr>prof_name = ''p'', prof_verified = False, prof_rules = [],
     prof_labels = dahua_event_labels, prof_formats = []\<rparr>"

definition plain_mail_env :: "string \<Rightarrow> mail_env" where
  "plain_mail_env text = \<lparr>digest = id, strip_html = id,
     mail_parser = (\<lambda>_. Some \<lparr>mail_header = (\<lambda>_. None), mail_date = None,
       mail_parts = [\<lparr>part_type = ''text/plain'', part_disposition = None, part_text = Decoded text,
         part_payload = No_payload, part_filename = None\<rparr>], mail_walk_broken = False\<rparr>)\<rparr>"

definition recorder_identity :: device_identity where
  "recorder_identity = \<lparr>id_device = 11, id_tenant = 1, id_site = 7, id_username = ''nvr'',
     id_profile = plain_profile, id_capture = True\<rparr>"

theorem ingest_keeps_or_refuses_witness:
  "ir_blocked (ingest (plain_mail_env ''face found'') (\<lambda>_ _. None) ''raw'' recorder_identity 0) \<and>
   ir_event (ingest (plain_mail_env ''face found'') (\<lambda>_ _. None) ''raw'' recorder_identity 0) = None"
proof -
  have body: "msg_body (parse_message (plain_mail_env ''face found'') ''raw'') = ''face found''"
    by (simp add: parse_message_def plain_mail_env_def inline_text_def lower_def decode_text_def
        envelope_of_def header_def parse_date_def py_strip_def is_blank_def)
  have "search_word ''face'' None ''face found''"
    by (simp add: whole_word_def starts_ci_def lower_def lower_char_def starts_word_def ends_word_def is_word_def)
  moreover have "py_strip ''face found'' \<noteq> []" by (simp add: py_strip_def is_blank_def)
  ultimately show ?thesis
    using ingest_keeps_or_refuses [of "plain_mail_env ''face found''" "\<lambda>_ _. None" "''raw''" recorder_identity 0]
    unfolding body by blast
qed

end
