(* ===== verification/Risk.thy ===== *)
theory Risk
  imports Prelude
begin

text \<open>
  Risk scoring and severity bands, \<^verbatim>\<open>backend/app/modules/rules/risk.py\<close>: the
  severities and their order, the factor weights with their overrides, the clamped sum
  that \<^verbatim>\<open>compute_risk\<close> returns and the labels shown to an operator.
\<close>

section \<open>Severities\<close>

datatype severity = INFO | LOW | MEDIUM | HIGH | CRITICAL

fun severity_rank :: "severity \<Rightarrow> nat" where
  "severity_rank INFO = 0"
| "severity_rank LOW = 1"
| "severity_rank MEDIUM = 2"
| "severity_rank HIGH = 3"
| "severity_rank CRITICAL = 4"

lemma severity_rank_inject [simp]: "severity_rank a = severity_rank b \<longleftrightarrow> a = b"
  by (cases a; cases b) simp_all

text \<open>The order is \<^verbatim>\<open>_SEVERITY_ORDER\<close> of \<^verbatim>\<open>engine.py\<close>.\<close>

instantiation severity :: linorder
begin

definition less_eq_severity :: "severity \<Rightarrow> severity \<Rightarrow> bool" where
  "less_eq_severity a b \<longleftrightarrow> severity_rank a \<le> severity_rank b"

definition less_severity :: "severity \<Rightarrow> severity \<Rightarrow> bool" where
  "less_severity a b \<longleftrightarrow> severity_rank a < severity_rank b"

instance
  by standard (auto simp: less_eq_severity_def less_severity_def)

end

fun severity_value :: "severity \<Rightarrow> string" where
  "severity_value INFO = ''INFO''"
| "severity_value LOW = ''LOW''"
| "severity_value MEDIUM = ''MEDIUM''"
| "severity_value HIGH = ''HIGH''"
| "severity_value CRITICAL = ''CRITICAL''"

text \<open>\<^verbatim>\<open>Severity(text)\<close>: \<^const>\<open>None\<close> is the \<^verbatim>\<open>ValueError\<close>.\<close>

definition severity_of_value :: "string \<Rightarrow> severity option" where
  "severity_of_value s = find (\<lambda>v. severity_value v = s) [INFO, LOW, MEDIUM, HIGH, CRITICAL]"

lemma severity_of_value_value [simp]: "severity_of_value (severity_value v) = Some v"
  by (cases v) (simp_all add: severity_of_value_def)

definition severity_bands :: "(int \<times> severity) list" where
  "severity_bands = [(85, CRITICAL), (70, HIGH), (50, MEDIUM), (30, LOW), (0, INFO)]"

definition severity_for :: "int \<Rightarrow> severity" where
  "severity_for score =
     (case first_some (\<lambda>(threshold, sev). if threshold \<le> score then Some sev else None) severity_bands of
        Some sev \<Rightarrow> sev
      | None \<Rightarrow> INFO)"

lemma severity_for_eq:
  "severity_for n = (if 85 \<le> n then CRITICAL else if 70 \<le> n then HIGH
     else if 50 \<le> n then MEDIUM else if 30 \<le> n then LOW else INFO)"
  by (simp add: severity_for_def severity_bands_def)

lemma severity_for_mono: "m \<le> n \<Longrightarrow> severity_for m \<le> severity_for n"
  by (simp add: severity_for_eq less_eq_severity_def)

section \<open>Factors and weights\<close>

datatype risk_factor =
    PERSON_DETECTED | VEHICLE_DETECTED | OUTSIDE_BUSINESS_HOURS | RESTRICTED_ZONE
  | PERIMETER_RULE_TRIGGERED | REPEATED_ENTRY | CAMERA_TAMPER_NEAR_EVENT
  | VEHICLE_IN_RESTRICTED_ZONE | LOW_AI_CONFIDENCE | AI_UNAVAILABLE | DEVICE_SILENT

fun factor_value :: "risk_factor \<Rightarrow> string" where
  "factor_value PERSON_DETECTED = ''person_detected''"
| "factor_value VEHICLE_DETECTED = ''vehicle_detected''"
| "factor_value OUTSIDE_BUSINESS_HOURS = ''outside_business_hours''"
| "factor_value RESTRICTED_ZONE = ''restricted_zone''"
| "factor_value PERIMETER_RULE_TRIGGERED = ''perimeter_rule_triggered''"
| "factor_value REPEATED_ENTRY = ''repeated_entry''"
| "factor_value CAMERA_TAMPER_NEAR_EVENT = ''camera_tamper_near_event''"
| "factor_value VEHICLE_IN_RESTRICTED_ZONE = ''vehicle_in_restricted_zone''"
| "factor_value LOW_AI_CONFIDENCE = ''low_ai_confidence''"
| "factor_value AI_UNAVAILABLE = ''ai_unavailable''"
| "factor_value DEVICE_SILENT = ''device_silent''"

definition all_factors :: "risk_factor list" where
  "all_factors = [PERSON_DETECTED, VEHICLE_DETECTED, OUTSIDE_BUSINESS_HOURS, RESTRICTED_ZONE,
     PERIMETER_RULE_TRIGGERED, REPEATED_ENTRY, CAMERA_TAMPER_NEAR_EVENT,
     VEHICLE_IN_RESTRICTED_ZONE, LOW_AI_CONFIDENCE, AI_UNAVAILABLE, DEVICE_SILENT]"

definition factor_of_value :: "string \<Rightarrow> risk_factor option" where
  "factor_of_value s = find (\<lambda>f. factor_value f = s) all_factors"

type_synonym weights = "risk_factor \<rightharpoonup> int"

fun default_weight :: "risk_factor \<Rightarrow> int" where
  "default_weight PERSON_DETECTED = 10"
| "default_weight VEHICLE_DETECTED = 5"
| "default_weight OUTSIDE_BUSINESS_HOURS = 25"
| "default_weight RESTRICTED_ZONE = 30"
| "default_weight PERIMETER_RULE_TRIGGERED = 15"
| "default_weight REPEATED_ENTRY = 10"
| "default_weight CAMERA_TAMPER_NEAR_EVENT = 20"
| "default_weight VEHICLE_IN_RESTRICTED_ZONE = 20"
| "default_weight LOW_AI_CONFIDENCE = -15"
| "default_weight AI_UNAVAILABLE = 0"
| "default_weight DEVICE_SILENT = 25"

text \<open>\<^verbatim>\<open>DEFAULT_WEIGHTS\<close> has an entry for every factor.\<close>

definition default_weights :: weights where
  "default_weights = (\<lambda>f. Some (default_weight f))"

fun human_readable :: "risk_factor \<Rightarrow> string" where
  "human_readable PERSON_DETECTED = u_dotI @ ''nsan alg'' @ u_i @ ''land'' @ u_i"
| "human_readable VEHICLE_DETECTED = ''Ara'' @ u_c @ '' alg'' @ u_i @ ''land'' @ u_i"
| "human_readable OUTSIDE_BUSINESS_HOURS = ''Mesai d'' @ u_i @ u_s @ u_i @ '' saat''"
| "human_readable RESTRICTED_ZONE = ''Yasak b'' @ u_o @ ''lge''"
| "human_readable PERIMETER_RULE_TRIGGERED = u_C @ ''evre kural'' @ u_i @ '' tetiklendi''"
| "human_readable REPEATED_ENTRY = ''Tekrarlanan giri'' @ u_s"
| "human_readable CAMERA_TAMPER_NEAR_EVENT =
     ''Yak'' @ u_i @ ''n zamanda kamera m'' @ u_u @ ''dahalesi''"
| "human_readable VEHICLE_IN_RESTRICTED_ZONE = ''Yasak b'' @ u_o @ ''lgede ara'' @ u_c"
| "human_readable LOW_AI_CONFIDENCE = ''AI g'' @ u_u @ ''veni d'' @ u_u @ u_s @ u_u @ ''k''"
| "human_readable AI_UNAVAILABLE =
     ''AI do'' @ u_g @ ''rulamas'' @ u_i @ '' yap'' @ u_i @ ''lamad'' @ u_i"
| "human_readable DEVICE_SILENT = ''Cihaz sessizle'' @ u_s @ ''ti''"

section \<open>Scores\<close>

record risk_reason =
  reason_factor :: risk_factor
  points :: int

definition reason_label :: "risk_reason \<Rightarrow> string" where
  "reason_label r = human_readable (reason_factor r)"

record risk_score =
  score :: int
  risk_reasons :: "risk_reason list"

definition risk_severity :: "risk_score \<Rightarrow> severity" where
  "risk_severity r = severity_for (score r)"

definition by_contribution :: "risk_reason list \<Rightarrow> risk_reason list" where
  "by_contribution rs = sort_key (\<lambda>r. - \<bar>points r\<bar>) rs"

definition risk_labels :: "risk_score \<Rightarrow> string list" where
  "risk_labels r = map reason_label (by_contribution (risk_reasons r))"

text \<open>The loop that keeps the first occurrence of each factor.\<close>

fun first_seen :: "risk_factor list \<Rightarrow> risk_factor list \<Rightarrow> risk_factor list" where
  "first_seen seen [] = seen"
| "first_seen seen (f # fs) = first_seen (if f \<in> set seen then seen else seen @ [f]) fs"

definition weight_table :: "weights \<Rightarrow> weights" where
  "weight_table w = default_weights ++ w"

definition reason_for :: "weights \<Rightarrow> risk_factor \<Rightarrow> risk_reason" where
  "reason_for table f =
     \<lparr>reason_factor = f, points = (case table f of Some p \<Rightarrow> p | None \<Rightarrow> 0)\<rparr>"

definition compute_risk :: "risk_factor list \<Rightarrow> weights \<Rightarrow> risk_score" where
  "compute_risk factors w =
     (let table = weight_table w;
          reasons = map (reason_for table) (first_seen [] factors);
          total = sum_list (map points reasons)
      in \<lparr>score = max 0 (min 100 total), risk_reasons = reasons\<rparr>)"

text \<open>The effective weight of a factor: the override where there is one.\<close>

definition weight_of :: "weights \<Rightarrow> risk_factor \<Rightarrow> int" where
  "weight_of w f = (case w f of Some p \<Rightarrow> p | None \<Rightarrow> default_weight f)"

lemma points_reason_for [simp]: "points (reason_for (weight_table w) f) = weight_of w f"
  by (simp add: reason_for_def weight_table_def weight_of_def default_weights_def map_add_def
      split: option.splits)

lemma set_first_seen [simp]: "set (first_seen seen fs) = set seen \<union> set fs"
  by (induction seen fs rule: first_seen.induct) auto

lemma distinct_first_seen: "distinct seen \<Longrightarrow> distinct (first_seen seen fs)"
  by (induction seen fs rule: first_seen.induct) auto

lemma total_as_sum:
  "sum_list (map (weight_of w) (first_seen [] fs)) = (\<Sum>f \<in> set fs. weight_of w f)"
  using distinct_first_seen [of "[]" fs]
  by (simp add: sum_list_distinct_conv_sum_set)

lemma score_compute_risk:
  "score (compute_risk fs w) = max 0 (min 100 (\<Sum>f \<in> set fs. weight_of w f))"
  by (simp add: compute_risk_def Let_def comp_def total_as_sum)

lemma factors_compute_risk:
  "map reason_factor (risk_reasons (compute_risk fs w)) = first_seen [] fs"
  by (simp add: compute_risk_def Let_def comp_def reason_for_def)

text \<open>
  The score is always within 0..100, and it is a function of the set of factors that
  fired: listing a factor twice, or in another order, changes neither the score nor the
  severity band.
\<close>

theorem compute_risk_set_based:
  assumes "set fs = set gs"
  shows "0 \<le> score (compute_risk fs w) \<and> score (compute_risk fs w) \<le> 100 \<and>
    score (compute_risk fs w) = score (compute_risk gs w) \<and>
    risk_severity (compute_risk fs w) = risk_severity (compute_risk gs w) \<and>
    distinct (map reason_factor (risk_reasons (compute_risk fs w)))"
  using assms by (simp add: risk_severity_def score_compute_risk factors_compute_risk
      distinct_first_seen)

theorem compute_risk_set_based_witness:
  "set [PERSON_DETECTED, RESTRICTED_ZONE, PERSON_DETECTED] = set [RESTRICTED_ZONE, PERSON_DETECTED] \<and>
   score (compute_risk [PERSON_DETECTED, RESTRICTED_ZONE, PERSON_DETECTED] Map.empty) = 40 \<and>
   score (compute_risk [RESTRICTED_ZONE, PERSON_DETECTED] Map.empty) = 40"
proof -
  have h: "set [PERSON_DETECTED, RESTRICTED_ZONE, PERSON_DETECTED] = set [RESTRICTED_ZONE, PERSON_DETECTED]"
    by auto
  have "score (compute_risk [RESTRICTED_ZONE, PERSON_DETECTED] Map.empty) = 40"
    by (simp add: score_compute_risk weight_of_def)
  with h compute_risk_set_based [OF h, of Map.empty] show ?thesis by simp
qed

lemma risk_severity_more:
  assumes "0 \<le> weight_of w f" and "set gs = insert f (set fs)"
  shows "risk_severity (compute_risk fs w) \<le> risk_severity (compute_risk gs w)"
proof -
  have "(\<Sum>g \<in> set fs. weight_of w g) \<le> (\<Sum>g \<in> insert f (set fs). weight_of w g)"
    using assms by (cases "f \<in> set fs") (simp_all add: insert_absorb)
  then have "score (compute_risk fs w) \<le> score (compute_risk gs w)"
    using assms(2) by (simp add: score_compute_risk)
  then show ?thesis
    by (simp add: risk_severity_def severity_for_mono)
qed

text \<open>
  Evidence never counts against an alarm: adding a factor whose effective weight is not
  negative cannot lower the severity band, whatever the configured weights are.
\<close>

theorem adding_evidence_raises_severity:
  assumes "0 \<le> weight_of w f"
  shows "risk_severity (compute_risk fs w) \<le> risk_severity (compute_risk (fs @ [f]) w)"
  using assms by (rule risk_severity_more) simp

theorem adding_evidence_raises_severity_witness:
  "(0::int) \<le> weight_of Map.empty RESTRICTED_ZONE \<and>
   risk_severity (compute_risk [PERSON_DETECTED, OUTSIDE_BUSINESS_HOURS] Map.empty)
     \<le> risk_severity (compute_risk ([PERSON_DETECTED, OUTSIDE_BUSINESS_HOURS] @ [RESTRICTED_ZONE]) Map.empty)"
proof -
  have h: "0 \<le> weight_of Map.empty RESTRICTED_ZONE" by (simp add: weight_of_def)
  show ?thesis
    using h adding_evidence_raises_severity [OF h, of "[PERSON_DETECTED, OUTSIDE_BUSINESS_HOURS]"]
    by simp
qed

text \<open>
  The labels on the alarm screen are the reasons' labels, none lost or invented, ordered
  so that a reason never precedes one that contributes more points in absolute value.
\<close>

theorem labels_ordered_by_contribution:
  "risk_labels r = map reason_label (by_contribution (risk_reasons r)) \<and>
   mset (by_contribution (risk_reasons r)) = mset (risk_reasons r) \<and>
   sorted_wrt (\<lambda>a b. \<bar>points b\<bar> \<le> \<bar>points a\<bar>) (by_contribution (risk_reasons r))"
proof (intro conjI)
  have "sorted (map (\<lambda>r. - \<bar>points r\<bar>) (by_contribution (risk_reasons r)))"
    by (simp add: by_contribution_def)
  then show "sorted_wrt (\<lambda>a b. \<bar>points b\<bar> \<le> \<bar>points a\<bar>) (by_contribution (risk_reasons r))"
    by (simp add: sorted_map)
  show "risk_labels r = map reason_label (by_contribution (risk_reasons r))"
    by (simp add: risk_labels_def)
  show "mset (by_contribution (risk_reasons r)) = mset (risk_reasons r)"
    by (simp add: by_contribution_def)
qed

end
