(* ===== verification/Schedule.thy ===== *)
theory Schedule
  imports Prelude
begin

text \<open>
  Armed windows in site-local time, \<^verbatim>\<open>backend/app/modules/rules/schedule.py\<close>.

  The IANA zone database is not part of the repository: it is the parameter
  \<open>zones :: zone_db\<close>, which gives for a zone name the UTC offset in force at an instant,
  or \<^const>\<open>None\<close> for a name it does not know.  Local wall-clock time is the instant
  plus that offset, as \<^verbatim>\<open>astimezone\<close> defines it, so daylight saving is whatever
  the database says.
\<close>

section \<open>Clocks\<close>

type_synonym zone_db = "string \<Rightarrow> (instant \<Rightarrow> duration) option"

datatype invalid_schedule = Unknown_timezone string | No_days | Bad_day

definition clock :: "int \<Rightarrow> int \<Rightarrow> duration" where
  "clock h m = h * hour + m * minute"

text \<open>1970-01-01 was a Thursday, and Monday is day 0.\<close>

definition weekday_of_date :: "int \<Rightarrow> int" where
  "weekday_of_date d = (d + 3) mod 7"

definition weekday :: "instant \<Rightarrow> int" where
  "weekday l = weekday_of_date (l div day)"

definition time_of_day :: "instant \<Rightarrow> duration" where
  "time_of_day l = l mod day"

lemma time_of_day_bounds: "0 \<le> time_of_day l" "time_of_day l < day"
  by (simp_all add: time_of_day_def)

lemma date_time: "l = l div day * day + time_of_day l"
  by (simp add: time_of_day_def)

lemma weekday_yesterday: "weekday (l - day) = weekday_of_date (l div day - 1)"
proof -
  have "l div day = (l - day + day) div day" by simp
  also have "\<dots> = (l - day) div day + 1" by (rule div_add_self2) simp
  finally have "(l - day) div day = l div day - 1" by simp
  then show ?thesis by (simp add: weekday_def)
qed

definition resolve_timezone :: "zone_db \<Rightarrow> string \<Rightarrow> invalid_schedule + (instant \<Rightarrow> duration)" where
  "resolve_timezone zones name =
     (case zones name of Some off \<Rightarrow> Inr off | None \<Rightarrow> Inl (Unknown_timezone name))"

section \<open>Schedules\<close>

definition all_days :: "int set" where
  "all_days = {0..<7}"

record schedule =
  sched_timezone :: string
  sched_start :: duration
  sched_end :: duration
  sched_days :: "int set"

definition make_schedule :: "zone_db \<Rightarrow> string \<Rightarrow> duration \<Rightarrow> duration \<Rightarrow> int set
    \<Rightarrow> invalid_schedule + schedule" where
  "make_schedule zones tz start end days =
     bind_err (resolve_timezone zones tz) (\<lambda>_.
       if days = {} then Inl No_days
       else if \<not> days \<subseteq> all_days then Inl Bad_day
       else Inr \<lparr>sched_timezone = tz, sched_start = start, sched_end = end, sched_days = days\<rparr>)"

definition is_always_on :: "schedule \<Rightarrow> bool" where
  "is_always_on s \<longleftrightarrow> sched_start s = sched_end s \<and> sched_days s = all_days"

definition crosses_midnight :: "schedule \<Rightarrow> bool" where
  "crosses_midnight s \<longleftrightarrow> sched_end s < sched_start s"

definition local_time :: "zone_db \<Rightarrow> schedule \<Rightarrow> instant \<Rightarrow> invalid_schedule + instant" where
  "local_time zones s moment =
     bind_err (resolve_timezone zones (sched_timezone s)) (\<lambda>off. Inr (moment + off moment))"

definition active_local :: "schedule \<Rightarrow> instant \<Rightarrow> bool" where
  "active_local s l =
     (if \<not> crosses_midnight s
      then (if weekday l \<notin> sched_days s then False
            else sched_start s \<le> time_of_day l \<and> time_of_day l < sched_end s)
      else if sched_start s \<le> time_of_day l \<and> weekday l \<in> sched_days s then True
      else if time_of_day l < sched_end s then weekday (l - day) \<in> sched_days s
      else False)"

definition is_active :: "zone_db \<Rightarrow> schedule \<Rightarrow> instant \<Rightarrow> invalid_schedule + bool" where
  "is_active zones s moment =
     (if is_always_on s then Inr True
      else bind_err (local_time zones s moment) (\<lambda>l. Inr (active_local s l)))"

definition istanbul :: string where
  "istanbul = ''Europe/Istanbul''"

definition after_hours :: schedule where
  "after_hours = \<lparr>sched_timezone = istanbul, sched_start = clock 19 0, sched_end = clock 6 0,
                  sched_days = all_days\<rparr>"

definition always :: schedule where
  "always = \<lparr>sched_timezone = istanbul, sched_start = clock 0 0, sched_end = clock 0 0,
             sched_days = all_days\<rparr>"

definition is_outside_business_hours :: "zone_db \<Rightarrow> instant \<Rightarrow> string \<Rightarrow> invalid_schedule + bool" where
  "is_outside_business_hours zones moment tz =
     bind_err (make_schedule zones tz (clock 0 0) (clock 0 0) all_days) (\<lambda>s.
     bind_err (local_time zones s moment) (\<lambda>l.
       Inr (if weekday l \<notin> {0, 1, 2, 3, 4, 5} then True
            else \<not> (clock 7 0 \<le> time_of_day l \<and> time_of_day l < clock 19 0))))"

section \<open>What the window means\<close>

text \<open>
  The documented reading: a window is opened on a date whose weekday is listed, at
  \<^verbatim>\<open>start\<close>, and stays open until the next time the clock shows
  \<^verbatim>\<open>end\<close>: later on that date, or on the next one when the window crosses
  midnight, and for 24 hours when the two are equal (\<^verbatim>\<open>start == end means 24
  hours\<close>, the docstring of \<^verbatim>\<open>is_always_on\<close>).
\<close>

definition window_closes :: "schedule \<Rightarrow> int \<Rightarrow> instant" where
  "window_closes s d =
     (if sched_start s < sched_end s then d * day else (d + 1) * day) + sched_end s"

definition window_open_on :: "schedule \<Rightarrow> int \<Rightarrow> instant \<Rightarrow> bool" where
  "window_open_on s d l \<longleftrightarrow> weekday_of_date d \<in> sched_days s \<and>
     d * day + sched_start s \<le> l \<and> l < window_closes s d"

definition clock_times :: "schedule \<Rightarrow> bool" where
  "clock_times s \<longleftrightarrow> 0 \<le> sched_start s \<and> sched_start s < day \<and> 0 \<le> sched_end s \<and> sched_end s < day"

lemma div_day_eqI: "d * day \<le> l \<Longrightarrow> l < (d + 1) * day \<Longrightarrow> l div day = (d::int)"
  by (auto intro: div_pos_geq simp: algebra_simps)

lemma active_local_opened:
  assumes "clock_times s" and "active_local s l"
  shows "\<exists>d. window_open_on s d l"
proof (cases "crosses_midnight s \<and> \<not> (sched_start s \<le> time_of_day l \<and> weekday l \<in> sched_days s)")
  case True
  with assms have "window_open_on s (l div day - 1) l"
    using date_time [of l] time_of_day_bounds [of l]
    by (auto simp: active_local_def window_open_on_def window_closes_def crosses_midnight_def
        weekday_yesterday clock_times_def algebra_simps split: if_splits)
  then show ?thesis ..
next
  case False
  with assms have "window_open_on s (l div day) l"
    using date_time [of l] time_of_day_bounds [of l]
    by (auto simp: active_local_def window_open_on_def window_closes_def crosses_midnight_def
        weekday_def clock_times_def algebra_simps split: if_splits)
  then show ?thesis ..
qed

lemma opened_active_local:
  assumes "clock_times s" and "sched_start s \<noteq> sched_end s" and "window_open_on s d l"
  shows "active_local s l"
proof (cases "l < (d + 1) * day")
  case True
  have d: "l div day = d"
    by (rule div_day_eqI [OF _ True]) (use assms in \<open>simp add: window_open_on_def clock_times_def\<close>)
  then show ?thesis
    using assms date_time [of l]
    by (auto simp: active_local_def window_open_on_def window_closes_def crosses_midnight_def
        weekday_def split: if_splits)
next
  case False
  then have cross: "crosses_midnight s"
    using assms by (auto simp: window_open_on_def window_closes_def crosses_midnight_def
        clock_times_def algebra_simps split: if_splits)
  have d: "l div day = d + 1"
    by (rule div_day_eqI) (use False assms cross in \<open>simp_all add: window_open_on_def
        window_closes_def crosses_midnight_def clock_times_def algebra_simps\<close>)
  then show ?thesis
    using assms cross date_time [of l]
    by (auto simp: active_local_def window_open_on_def window_closes_def crosses_midnight_def
        weekday_yesterday algebra_simps)
qed

lemma active_local_iff:
  "clock_times s \<Longrightarrow> sched_start s \<noteq> sched_end s \<Longrightarrow>
   active_local s l \<longleftrightarrow> (\<exists>d. window_open_on s d l)"
  using active_local_opened opened_active_local by blast

lemma weekday_of_date_all: "weekday_of_date d \<in> all_days"
  by (simp add: weekday_of_date_def all_days_def)

text \<open>With equal ends one listed day after another leaves no gap.\<close>

lemma round_the_clock_open:
  assumes "sched_start s = sched_end s" and "sched_days s = all_days"
  shows "\<exists>d. window_open_on s d l"
proof -
  define d where "d = (l - sched_end s) div day"
  have "l - sched_end s = d * day + time_of_day (l - sched_end s)"
    using date_time [of "l - sched_end s"] by (simp add: d_def)
  then have "window_open_on s d l"
    using assms weekday_of_date_all [of d] time_of_day_bounds [of "l - sched_end s"]
    by (simp add: window_open_on_def window_closes_def algebra_simps)
  then show ?thesis ..
qed

lemma equal_ends_never_active: "sched_start s = sched_end s \<Longrightarrow> \<not> active_local s l"
  by (simp add: active_local_def crosses_midnight_def)

lemma is_active_known:
  "zones (sched_timezone s) = Some off \<Longrightarrow>
   is_active zones s t = Inr (is_always_on s \<or> active_local s (t + off t))"
  by (simp add: is_active_def local_time_def resolve_timezone_def)

section \<open>Properties\<close>

text \<open>
  C36. The weekday that counts is the one the window opened on: a schedule is active at an
  instant exactly when some listed date opened a window that still contains the local time,
  windows that cross midnight and the round-the-clock schedule included, except in one case
  where the code departs from its documentation: when start equals end, which is documented
  as 24 hours, and some weekday is not listed, the schedule is active at no instant, even
  while the window that a listed date opened is open.
\<close>

theorem active_iff_window_open:
  assumes "zones (sched_timezone s) = Some off" and "clock_times s"
  shows "is_active zones s t = Inr ((\<exists>d. window_open_on s d (t + off t)) \<and>
           (sched_start s = sched_end s \<longrightarrow> sched_days s = all_days))"
proof (cases "sched_start s = sched_end s")
  case True
  then show ?thesis
    using assms(1) round_the_clock_open [OF True]
    by (auto simp: is_active_known is_always_on_def equal_ends_never_active)
next
  case False
  then show ?thesis
    using assms by (simp add: is_active_known is_always_on_def active_local_iff)
qed

definition monday_night :: schedule where
  "monday_night = \<lparr>sched_timezone = istanbul, sched_start = clock 19 0, sched_end = clock 6 0,
                   sched_days = {0}\<rparr>"

definition utc3 :: zone_db where
  "utc3 = (\<lambda>name. if name = istanbul then Some (\<lambda>_. 3 * hour) else None)"

definition weekend :: schedule where
  "weekend = always\<lparr>sched_days := {5, 6}\<rparr>"

lemma weekend_window_open: "window_open_on weekend 2 (2 * day + 5 * hour)"
  by (simp add: window_open_on_def window_closes_def weekend_def always_def clock_def
      weekday_of_date_def)

lemma weekend_not_all: "sched_days weekend \<noteq> all_days"
proof -
  have "0 \<notin> sched_days weekend" "0 \<in> all_days"
    by (simp_all add: weekend_def all_days_def)
  then show ?thesis by blast
qed

theorem active_iff_window_open_witness:
  "is_active utc3 monday_night (5 * day - hour) = Inr True \<and>
   window_open_on weekend 2 (2 * day + 5 * hour) \<and>
   is_active utc3 weekend (2 * day + 2 * hour) = Inr False"
proof (intro conjI)
  have "window_open_on monday_night 4 (5 * day - hour + 3 * hour)"
    by (simp add: window_open_on_def window_closes_def monday_night_def clock_def
        weekday_of_date_def)
  with active_iff_window_open [where zones = utc3 and s = monday_night and off = "\<lambda>_. 3 * hour"
      and t = "5 * day - hour"]
  show "is_active utc3 monday_night (5 * day - hour) = Inr True"
    by (auto simp: utc3_def monday_night_def clock_times_def clock_def)
  show "window_open_on weekend 2 (2 * day + 5 * hour)" by (rule weekend_window_open)
  from active_iff_window_open [where zones = utc3 and s = weekend and off = "\<lambda>_. 3 * hour"
      and t = "2 * day + 2 * hour"] weekend_not_all
  show "is_active utc3 weekend (2 * day + 2 * hour) = Inr False"
    by (simp add: utc3_def weekend_def always_def clock_times_def clock_def)
qed

text \<open>
  A schedule whose start equals its end is open around the clock only when every
  weekday is listed; with any day missing it is never active, at any instant.
\<close>

theorem all_day_on_some_days_never_active:
  assumes "zones (sched_timezone s) = Some off" and "sched_start s = sched_end s"
  shows "is_active zones s t = Inr (sched_days s = all_days)"
  using assms by (auto simp: is_active_known is_always_on_def active_local_def crosses_midnight_def)

theorem all_day_on_some_days_never_active_witness:
  "is_active utc3 (always\<lparr>sched_days := {5, 6}\<rparr>) (2 * day) = Inr False"
proof -
  have "(0::int) \<notin> {5, 6}" and "(0::int) \<in> all_days" by (simp_all add: all_days_def)
  then have "{5, 6} \<noteq> all_days" by metis
  with all_day_on_some_days_never_active
    [where zones = utc3 and s = "always\<lparr>sched_days := {5, 6}\<rparr>" and off = "\<lambda>_. 3 * hour"]
  show ?thesis by (simp add: always_def utc3_def)
qed

text \<open>
  The default posture AFTER_HOURS is armed exactly from 19:00 to 06:00 local time on
  every day, and it complements the business hours of working days: an instant the site is
  not armed is never outside business hours except between 06:00 and 07:00 or on a Sunday.
\<close>

theorem after_hours_armed:
  assumes "zones istanbul = Some off"
  shows "is_active zones after_hours t
       = Inr (clock 19 0 \<le> time_of_day (t + off t) \<or> time_of_day (t + off t) < clock 6 0) \<and>
    (is_active zones after_hours t = Inr False \<longrightarrow>
      is_outside_business_hours zones t istanbul = Inr (weekday (t + off t) = 6 \<or>
        time_of_day (t + off t) < clock 7 0))"
proof -
  have all: "weekday l \<in> all_days" for l
    by (simp add: weekday_def weekday_of_date_def all_days_def)
  have six: "weekday l \<notin> {0, 1, 2, 3, 4, 5} \<longleftrightarrow> weekday l = 6" for l
    using all [of l] by (auto simp: all_days_def)
  have "is_active zones after_hours t
       = Inr (clock 19 0 \<le> time_of_day (t + off t) \<or> time_of_day (t + off t) < clock 6 0)"
    using assms all by (simp add: is_active_known after_hours_def is_always_on_def clock_def
        active_local_def crosses_midnight_def)
  moreover have "is_outside_business_hours zones t istanbul =
      Inr (if weekday (t + off t) = 6 then True
           else \<not> (clock 7 0 \<le> time_of_day (t + off t) \<and> time_of_day (t + off t) < clock 19 0))"
    using assms by (simp add: is_outside_business_hours_def make_schedule_def resolve_timezone_def
        local_time_def six del: insert_iff) (simp add: all_days_def)
  ultimately show ?thesis by auto
qed

theorem after_hours_armed_witness:
  "utc3 istanbul = Some (\<lambda>_. 3 * hour) \<and> is_active utc3 after_hours (20 * hour) = Inr True"
proof -
  have h: "utc3 istanbul = Some (\<lambda>_. 3 * hour)" by (simp add: utc3_def)
  show ?thesis
    using h after_hours_armed [where zones = utc3 and off = "\<lambda>_. 3 * hour" and t = "20 * hour"]
    by (simp add: time_of_day_def clock_def)
qed

end
