(* ===== verification/Zones.thy ===== *)
theory Zones
  imports Prelude
begin

text \<open>
  Camera zones, \<^verbatim>\<open>backend/app/modules/rules/zones.py\<close>: polygon validation, the
  ray-casting test with its edge tolerance, zone matching of one detection and of all the
  detections of a frame.  Normalised coordinates are exact rationals here; the binary
  rounding of the code's floats is not modelled.
\<close>

section \<open>Points, polygons, validation\<close>

type_synonym point = "rat \<times> rat"
type_synonym polygon = "point list"
type_synonym box = "rat \<times> rat \<times> rat \<times> rat"

datatype zone_type = NORMAL | RESTRICTED | IGNORE | ENTRY | EXIT | VEHICLE_ONLY | FIRE_RISK

fun zone_type_value :: "zone_type \<Rightarrow> string" where
  "zone_type_value NORMAL = ''NORMAL''"
| "zone_type_value RESTRICTED = ''RESTRICTED''"
| "zone_type_value IGNORE = ''IGNORE''"
| "zone_type_value ENTRY = ''ENTRY''"
| "zone_type_value EXIT = ''EXIT''"
| "zone_type_value VEHICLE_ONLY = ''VEHICLE_ONLY''"
| "zone_type_value FIRE_RISK = ''FIRE_RISK''"

definition zone_type_of_value :: "string \<Rightarrow> zone_type option" where
  "zone_type_of_value s = find (\<lambda>z. zone_type_value z = s)
     [NORMAL, RESTRICTED, IGNORE, ENTRY, EXIT, VEHICLE_ONLY, FIRE_RISK]"

definition elevated_zones :: "zone_type set" where
  "elevated_zones = {RESTRICTED, FIRE_RISK}"

datatype invalid_zone = Too_few_points | Not_normalized

fun normalized :: "point \<Rightarrow> bool" where
  "normalized (x, y) \<longleftrightarrow> 0 \<le> x \<and> x \<le> 1 \<and> 0 \<le> y \<and> y \<le> 1"

definition validate_polygon :: "polygon \<Rightarrow> invalid_zone + unit" where
  "validate_polygon ps =
     (if length ps < 3 then Inl Too_few_points
      else if \<exists>p \<in> set ps. \<not> normalized p then Inl Not_normalized
      else Inr ())"

definition valid_polygon :: "polygon \<Rightarrow> bool" where
  "valid_polygon ps \<longleftrightarrow> 3 \<le> length ps \<and> (\<forall>p \<in> set ps. normalized p)"

lemma validate_valid [simp]: "valid_polygon ps \<Longrightarrow> validate_polygon ps = Inr ()"
  by (auto simp: validate_polygon_def valid_polygon_def)

lemma validate_polygon_iff: "validate_polygon ps = Inr u \<longleftrightarrow> valid_polygon ps"
  by (auto simp: validate_polygon_def valid_polygon_def)

section \<open>Ray casting\<close>

definition tolerance :: rat where
  "tolerance = 1 / 1000000000"

fun on_segment :: "point \<Rightarrow> point \<Rightarrow> point \<Rightarrow> bool" where
  "on_segment (px, py) (ax, ay) (bx, by) =
     (let cross = (bx - ax) * (py - ay) - (by - ay) * (px - ax)
      in if tolerance < \<bar>cross\<bar> then False
         else min ax bx - tolerance \<le> px \<and> px \<le> max ax bx + tolerance \<and>
              min ay by - tolerance \<le> py \<and> py \<le> max ay by + tolerance)"

text \<open>The toggle of one edge; the division happens only when the edge is not horizontal.\<close>

fun crosses_edge :: "point \<Rightarrow> point \<Rightarrow> point \<Rightarrow> bool" where
  "crosses_edge (x, y) (x1, y1) (x2, y2) \<longleftrightarrow>
     (y < y1) \<noteq> (y < y2) \<and> x < (x2 - x1) * (y - y1) / (y2 - y1) + x1"

fun ray_loop :: "point \<Rightarrow> polygon \<Rightarrow> nat list \<Rightarrow> bool \<Rightarrow> bool" where
  "ray_loop p poly [] inside = inside"
| "ray_loop p poly (i # is) inside =
     (let a = poly ! i; b = poly ! ((i + 1) mod length poly)
      in if on_segment p a b then True
         else ray_loop p poly is (if crosses_edge p a b then \<not> inside else inside))"

definition point_in_polygon :: "point \<Rightarrow> polygon \<Rightarrow> invalid_zone + bool" where
  "point_in_polygon p poly =
     bind_err (validate_polygon poly) (\<lambda>_. Inr (ray_loop p poly [0..<length poly] False))"

fun ground_anchor :: "box \<Rightarrow> point" where
  "ground_anchor (x1, y1, x2, y2) = ((x1 + x2) / 2, y2)"

section \<open>Zones and matches\<close>

record zone =
  zone_name :: string
  ztype :: zone_type
  zpoints :: polygon

definition make_zone :: "string \<Rightarrow> zone_type \<Rightarrow> polygon \<Rightarrow> invalid_zone + zone" where
  "make_zone name ty ps =
     bind_err (validate_polygon ps) (\<lambda>_. Inr \<lparr>zone_name = name, ztype = ty, zpoints = ps\<rparr>)"

definition zone_contains :: "zone \<Rightarrow> point \<Rightarrow> invalid_zone + bool" where
  "zone_contains z p = point_in_polygon p (zpoints z)"

definition contains_box :: "zone \<Rightarrow> box \<Rightarrow> invalid_zone + bool" where
  "contains_box z b = zone_contains z (ground_anchor b)"

type_synonym zone_match = "zone list"

definition match_names :: "zone_match \<Rightarrow> string list" where
  "match_names m = map zone_name m"

definition match_types :: "zone_match \<Rightarrow> zone_type set" where
  "match_types m = ztype ` set m"

definition is_ignored :: "zone_match \<Rightarrow> bool" where
  "is_ignored m \<longleftrightarrow> IGNORE \<in> match_types m"

definition is_elevated :: "zone_match \<Rightarrow> bool" where
  "is_elevated m \<longleftrightarrow> elevated_zones \<inter> match_types m \<noteq> {} \<and> \<not> is_ignored m"

definition restricted :: "zone_match \<Rightarrow> bool" where
  "restricted m \<longleftrightarrow> RESTRICTED \<in> match_types m \<and> \<not> is_ignored m"

definition match_zones :: "box \<Rightarrow> zone list \<Rightarrow> invalid_zone + zone_match" where
  "match_zones b zs = filter_err (\<lambda>z. zone_contains z (ground_anchor b)) zs"

fun union_new :: "zone list \<Rightarrow> zone list \<Rightarrow> zone list" where
  "union_new acc [] = acc"
| "union_new acc (z # zs) = union_new (if z \<in> set acc then acc else acc @ [z]) zs"

definition combine_matches :: "zone_match list \<Rightarrow> zone_match" where
  "combine_matches ms =
     (if \<forall>m \<in> set ms. is_ignored m then ms ! 0
      else fold (\<lambda>m acc. union_new acc m) (filter (\<lambda>m. \<not> is_ignored m) ms) [])"

definition match_any :: "box list \<Rightarrow> zone list \<Rightarrow> invalid_zone + zone_match" where
  "match_any boxes zs =
     (if boxes = [] then Inr []
      else bind_err (map_err (\<lambda>b. match_zones b zs) boxes) (\<lambda>ms. Inr (combine_matches ms)))"

section \<open>Lemmas\<close>

lemma ray_loop_edge:
  "i \<in> set is \<Longrightarrow> on_segment p (poly ! i) (poly ! ((i + 1) mod length poly)) \<Longrightarrow> ray_loop p poly is b"
  by (induction "is" arbitrary: b) (auto simp: Let_def)

lemma on_segment_bounds:
  "on_segment (px, py) (ax, ay) (bx, by) \<Longrightarrow>
   min ax bx - tolerance \<le> px \<and> px \<le> max ax bx + tolerance \<and>
   min ay by - tolerance \<le> py \<and> py \<le> max ay by + tolerance"
  by (simp add: Let_def split: if_splits)

lemma ray_loop_iff:
  "ray_loop p poly is inside \<longleftrightarrow>
     (\<exists>i \<in> set is. on_segment p (poly ! i) (poly ! ((i + 1) mod length poly))) \<or>
     inside \<noteq> odd (length (filter (\<lambda>i. crosses_edge p (poly ! i) (poly ! ((i + 1) mod length poly))) is))"
proof (induction "is" arbitrary: inside)
  case Nil
  show ?case by simp
next
  case (Cons i "is")
  show ?case unfolding ray_loop.simps Let_def Cons.IH by auto
qed

lemma parity4: "odd (length (filter c [0, 1, 2, 3 :: nat])) \<longleftrightarrow> (c 0 \<noteq> c 1) \<noteq> (c 2 \<noteq> c 3)"
  by (cases "c 0"; cases "c 1"; cases "c 2"; cases "c 3") simp_all

lemma ray_loop_quad: "ray_loop z [p, q, r, s] [0, 1, 2, 3] False \<longleftrightarrow>
      on_segment z p q \<or> on_segment z q r \<or>
      on_segment z r s \<or> on_segment z s p \<or>
      ((crosses_edge z p q \<noteq> crosses_edge z q r) \<noteq> (crosses_edge z r s \<noteq> crosses_edge z s p))"
  unfolding ray_loop_iff parity4 by simp

lemma set_union_new [simp]: "set (union_new acc zs) = set acc \<union> set zs"
  by (induction acc zs rule: union_new.induct) auto

lemma distinct_union_new: "distinct acc \<Longrightarrow> distinct (union_new acc zs)"
  by (induction acc zs rule: union_new.induct) auto

lemma set_fold_union: "set (fold (\<lambda>m acc. union_new acc m) ms acc) = set acc \<union> \<Union> (set ` set ms)"
  by (induction ms arbitrary: acc) auto

definition zone_holds :: "box \<Rightarrow> zone \<Rightarrow> bool" where
  "zone_holds b z \<longleftrightarrow> ray_loop (ground_anchor b) (zpoints z) [0..<length (zpoints z)] False"

definition valid_zones :: "zone list \<Rightarrow> bool" where
  "valid_zones zs \<longleftrightarrow> (\<forall>z \<in> set zs. valid_polygon (zpoints z))"

lemma match_zones_valid: "valid_zones zs \<Longrightarrow> match_zones b zs = Inr (filter (zone_holds b) zs)"
  unfolding match_zones_def
  by (rule filter_err_Inr)
    (auto simp: valid_zones_def zone_contains_def point_in_polygon_def zone_holds_def
      validate_polygon_def valid_polygon_def)

lemma match_any_valid:
  assumes "valid_zones zs"
  shows "match_any boxes zs = Inr (if boxes = [] then []
           else combine_matches (map (\<lambda>b. filter (zone_holds b) zs) boxes))"
  using map_err_Inr [where f = "\<lambda>b. match_zones b zs" and g = "\<lambda>b. filter (zone_holds b) zs"
      and xs = boxes] match_zones_valid [OF assms]
  by (simp add: match_any_def)

lemma ignored_combine:
  "ms \<noteq> [] \<Longrightarrow> is_ignored (combine_matches ms) \<longleftrightarrow> (\<forall>m \<in> set ms. is_ignored m)"
  by (auto simp: combine_matches_def is_ignored_def match_types_def set_fold_union)

lemma types_combine:
  "\<exists>m \<in> set ms. \<not> is_ignored m \<Longrightarrow>
   ty \<in> match_types (combine_matches ms) \<longleftrightarrow> (\<exists>m \<in> set ms. \<not> is_ignored m \<and> ty \<in> match_types m)"
  by (auto simp: combine_matches_def match_types_def set_fold_union)

section \<open>Properties\<close>

text \<open>
  A point on an edge counts as inside: for every valid polygon, a subject whose ground
  point lies on any of its edges, the closing one included, is in the zone.
\<close>

theorem edge_counts_as_inside:
  assumes "valid_polygon poly" and "i < length poly"
    and "on_segment p (poly ! i) (poly ! ((i + 1) mod length poly))"
  shows "point_in_polygon p poly = Inr True"
proof -
  have "ray_loop p poly [0..<length poly] False"
    by (rule ray_loop_edge [OF _ assms(3)]) (use assms(2) in simp)
  then show ?thesis using assms(1) by (simp add: point_in_polygon_def)
qed

definition triangle :: polygon where
  "triangle = [(0, 0), (1, 0), (0, 1)]"

theorem edge_counts_as_inside_witness:
  "valid_polygon triangle \<and> point_in_polygon (0, 1 / 2) triangle = Inr True"
proof -
  have h: "valid_polygon triangle" "2 < length triangle"
    "on_segment (0, 1 / 2) (triangle ! 2) (triangle ! ((2 + 1) mod length triangle))"
    by (simp_all add: triangle_def valid_polygon_def tolerance_def Let_def)
  show ?thesis using h(1) edge_counts_as_inside [OF h] by simp
qed

lemma quad_test:
  assumes "0 \<le> a" "a < b" "b \<le> 1" "0 \<le> c" "c < d" "d \<le> 1"
  shows "point_in_polygon (x, y) [(a, c), (b, c), (b, d), (a, d)] 
     = Inr (ray_loop (x, y) [(a, c), (b, c), (b, d), (a, d)] [0, 1, 2, 3] False)"
proof -
  have "[0..<length [(a, c), (b, c), (b, d), (a, d)]] = [0, 1, 2, 3]" by (simp add: upt_rec numeral_2_eq_2 numeral_3_eq_3)
  moreover have "valid_polygon [(a, c), (b, c), (b, d), (a, d)]" using assms by (simp add: valid_polygon_def)
  ultimately show ?thesis unfolding point_in_polygon_def by (simp del: ray_loop.simps One_nat_def upt_Suc list.size)
qed

lemma outside_no_edge:
  assumes "a < b" "c < d" "x < a - tolerance \<or> b + tolerance < x \<or> y < c - tolerance \<or> d + tolerance < y"
  shows "\<not> on_segment (x, y) (a, c) (b, c)" "\<not> on_segment (x, y) (b, c) (b, d)"
      "\<not> on_segment (x, y) (b, d) (a, d)" "\<not> on_segment (x, y) (a, d) (a, c)"
  using assms on_segment_bounds[of x y a c b c] on_segment_bounds[of x y b c b d] on_segment_bounds[of x y b d a d] on_segment_bounds[of x y a d a c]
  by (simp_all only: min_def max_def) (auto simp del: on_segment.simps split: if_splits)

text \<open>
  An axis-aligned rectangle means what the operator drew: every point of it is inside,
  and every point further than the tolerance outside its sides is outside.
\<close>

theorem rectangle_membership:
  assumes "0 \<le> a" "a < b" "b \<le> 1" "0 \<le> c" "c < d" "d \<le> 1"
  shows "(a \<le> x \<and> x \<le> b \<and> c \<le> y \<and> y \<le> d \<longrightarrow>
            point_in_polygon (x, y) [(a, c), (b, c), (b, d), (a, d)] = Inr True) \<and>
    (x < a - tolerance \<or> b + tolerance < x \<or> y < c - tolerance \<or> d + tolerance < y \<longrightarrow>
            point_in_polygon (x, y) [(a, c), (b, c), (b, d), (a, d)] = Inr False)"
proof -
  have pos: "0 < tolerance" by (simp add: tolerance_def)
  have r: "crosses_edge (x, y) (b, c) (b, d) \<longleftrightarrow> c \<le> y \<and> y < d \<and> x < b"
    and l: "crosses_edge (x, y) (a, d) (a, c) \<longleftrightarrow> c \<le> y \<and> y < d \<and> x < a"
    and h: "\<not> crosses_edge (x, y) (a, c) (b, c)" "\<not> crosses_edge (x, y) (b, d) (a, d)"
    using assms by auto
  have "on_segment (x, y) (b, c) (b, d) \<or> on_segment (x, y) (b, d) (a, d) \<or> (x < b \<and> y < d)"
    if "a \<le> x \<and> x \<le> b \<and> c \<le> y \<and> y \<le> d"
    using that pos by (cases "x = b"; cases "y = d") (auto simp: Let_def)
  moreover have "\<not> (c \<le> y \<and> y < d \<and> (x < b) \<noteq> (x < a))"
    if "x < a - tolerance \<or> b + tolerance < x \<or> y < c - tolerance \<or> d + tolerance < y"
    using that assms pos by linarith
  ultimately show ?thesis
    unfolding quad_test [OF assms] ray_loop_quad r l
    using h outside_no_edge [OF assms(2,5)] by (auto simp del: on_segment.simps crosses_edge.simps)
qed

theorem rectangle_membership_witness:
  "point_in_polygon (1 / 2, 1 / 2) [(1 / 4, 0), (3 / 4, 0), (3 / 4, 1), (1 / 4, 1)] = Inr True \<and>
   point_in_polygon (1 / 8, 1 / 2) [(1 / 4, 0), (3 / 4, 0), (3 / 4, 1), (1 / 4, 1)] = Inr False"
  using rectangle_membership [of "1 / 4" "3 / 4" 0 1 "1 / 2" "1 / 2"]
    rectangle_membership [of "1 / 4" "3 / 4" 0 1 "1 / 8" "1 / 2"]
  by (simp add: tolerance_def)

text \<open>
  An IGNORE zone silences a frame only when every detection stands in one, and a single
  detection standing in a restricted zone and in no IGNORE zone makes the frame restricted,
  whatever the other detections hit.
\<close>

theorem ignore_needs_every_detection:
  assumes "valid_zones zs" and "boxes \<noteq> []"
  shows "\<exists>m. match_any boxes zs = Inr m \<and>
    (is_ignored m \<longleftrightarrow> (\<forall>b \<in> set boxes. \<exists>z \<in> set zs. ztype z = IGNORE \<and> zone_holds b z)) \<and>
    (restricted m \<longleftrightarrow> (\<exists>b \<in> set boxes. (\<exists>z \<in> set zs. ztype z = RESTRICTED \<and> zone_holds b z) \<and>
       \<not> (\<exists>z \<in> set zs. ztype z = IGNORE \<and> zone_holds b z)))"
proof -
  let ?ms = "map (\<lambda>b. filter (zone_holds b) zs) boxes"
  have m: "match_any boxes zs = Inr (combine_matches ?ms)"
    using assms by (simp add: match_any_valid)
  have ty: "ty \<in> match_types (filter (zone_holds b) zs)
      \<longleftrightarrow> (\<exists>z \<in> set zs. ztype z = ty \<and> zone_holds b z)" for b ty
    by (auto simp: match_types_def)
  have ign: "is_ignored (combine_matches ?ms)
      \<longleftrightarrow> (\<forall>b \<in> set boxes. \<exists>z \<in> set zs. ztype z = IGNORE \<and> zone_holds b z)"
    using assms(2) by (simp add: ignored_combine) (simp add: is_ignored_def ty)
  have "restricted (combine_matches ?ms) \<longleftrightarrow>
      (\<exists>b \<in> set boxes. (\<exists>z \<in> set zs. ztype z = RESTRICTED \<and> zone_holds b z) \<and>
         \<not> (\<exists>z \<in> set zs. ztype z = IGNORE \<and> zone_holds b z))"
  proof (cases "\<exists>m \<in> set ?ms. \<not> is_ignored m")
    case True
    then have "\<not> is_ignored (combine_matches ?ms)" using assms(2) by (auto simp: ignored_combine)
    then show ?thesis
      unfolding restricted_def types_combine [OF True] by (auto simp: is_ignored_def ty)
  next
    case False
    then have "is_ignored (combine_matches ?ms)" using assms(2) by (simp add: ignored_combine)
    with ign show ?thesis by (auto simp: restricted_def)
  qed
  with m ign show ?thesis by blast
qed

definition lower_half :: polygon where
  "lower_half = [(0, 1 / 2), (1, 1 / 2), (1, 1), (0, 1)]"

theorem ignore_needs_every_detection_witness:
  "valid_zones [\<lparr>zone_name = ''yard'', ztype = RESTRICTED, zpoints = lower_half\<rparr>] \<and>
   (\<exists>m. match_any [(0, 0, 1, 3 / 4)] [\<lparr>zone_name = ''yard'', ztype = RESTRICTED, zpoints = lower_half\<rparr>]
      = Inr m \<and> \<not> is_ignored m)"
proof -
  let ?zs = "[\<lparr>zone_name = ''yard'', ztype = RESTRICTED, zpoints = lower_half\<rparr>]"
  have h: "valid_zones ?zs" by (simp add: valid_zones_def valid_polygon_def lower_half_def)
  have "[(0, 0, 1, 3 / 4)] \<noteq> ([] :: box list)" by simp
  from ignore_needs_every_detection [OF h this] h show ?thesis by auto
qed

end
