(* ===== verification/RuleEngine.thy ===== *)
theory RuleEngine
  imports Risk Schedule Zones
begin

text \<open>
  Rule evaluation, \<^verbatim>\<open>backend/app/modules/rules/engine.py\<close>: one rule against one
  event (the gates in the code's order, then scoring), and the choice of the loudest
  outcome among a site's rules.  The f-strings of a decision's reasons are kept as the
  constructors of \<open>eval_reason\<close>; exceptions that escape the engine (an unknown time
  zone, an invalid polygon) are the left side of the result.
\<close>

section \<open>Rules, contexts, decisions\<close>

datatype action = PUSH | SNAPSHOT | ESCALATE | LOG_ONLY

datatype ai_fallback = ALERT_ON_VENDOR_EVENT | QUEUE_ONLY | DROP

record rule =
  rule_name :: string
  event_types :: "string set"
  rule_schedule :: schedule
  camera_ids :: "string set"
  zone_names :: "string set"
  min_ai_confidence :: rat
  rule_actions :: "action set"
  if_ai_unavailable :: ai_fallback
  min_severity :: severity
  enabled :: bool
  rule_weights :: weights

definition default_rule :: "string \<Rightarrow> string set \<Rightarrow> rule" where
  "default_rule name types =
     \<lparr>rule_name = name, event_types = types, rule_schedule = always, camera_ids = {},
      zone_names = {}, min_ai_confidence = 0, rule_actions = {PUSH, SNAPSHOT},
      if_ai_unavailable = ALERT_ON_VENDOR_EVENT, min_severity = LOW, enabled = True,
      rule_weights = Map.empty\<rparr>"

record eval_context =
  ctx_event_type :: string
  ctx_occurred_at :: instant
  ctx_timezone :: string
  ctx_camera_id :: string
  ctx_zones :: "zone list"
  ctx_boxes :: "box list"
  ctx_ai_confidence :: "rat option"
  ctx_ai_available :: bool
  ctx_recent_tamper :: bool
  ctx_repeated :: bool
  ctx_device_silent :: bool
  ctx_perimeter_event :: bool

datatype eval_reason =
    Rule_disabled | Event_type_not_in_rule string | Camera_not_in_rule | Outside_schedule schedule
  | In_ignore_zone | Outside_rule_zones | Ai_drop | Ai_queued | Ai_vendor_event
  | Confidence_below rat rat | Factor_label string | Severity_below severity | No_rules

record decision =
  matched :: bool
  decision_rule :: "string option"
  decision_actions :: "action set"
  decision_risk :: risk_score
  decision_zones :: zone_match
  decision_reasons :: "eval_reason list"

definition decision_severity :: "decision \<Rightarrow> severity" where
  "decision_severity d = risk_severity (decision_risk d)"

definition should_notify :: "decision \<Rightarrow> bool" where
  "should_notify d \<longleftrightarrow> matched d \<and> PUSH \<in> decision_actions d"

definition no_match :: "eval_reason \<Rightarrow> zone_match \<Rightarrow> decision" where
  "no_match r m = \<lparr>matched = False, decision_rule = None, decision_actions = {},
     decision_risk = compute_risk [] Map.empty, decision_zones = m, decision_reasons = [r]\<rparr>"

datatype eval_error = Schedule_error invalid_schedule | Zone_error invalid_zone

section \<open>One rule\<close>

definition perimeter_types :: "string set" where
  "perimeter_types = {''line_crossing'', ''zone_intrusion''}"

definition scene_factors :: "bool \<Rightarrow> eval_context \<Rightarrow> zone_match \<Rightarrow> risk_factor list" where
  "scene_factors outside c m =
     (if ctx_event_type c \<in> {''person_detected'', ''line_crossing'', ''zone_intrusion''}
      then [PERSON_DETECTED] else []) @
     (if ctx_event_type c = ''vehicle_detected'' then [VEHICLE_DETECTED] else []) @
     (if ctx_perimeter_event c \<or> ctx_event_type c \<in> perimeter_types
      then [PERIMETER_RULE_TRIGGERED] else []) @
     (if outside then [OUTSIDE_BUSINESS_HOURS] else []) @
     (if restricted m
      then [if ctx_event_type c = ''vehicle_detected'' then VEHICLE_IN_RESTRICTED_ZONE
            else RESTRICTED_ZONE] else []) @
     (if ctx_repeated c then [REPEATED_ENTRY] else []) @
     (if ctx_recent_tamper c then [CAMERA_TAMPER_NEAR_EVENT] else []) @
     (if ctx_device_silent c then [DEVICE_SILENT] else [])"

definition ai_factors :: "eval_context \<Rightarrow> risk_factor list" where
  "ai_factors c =
     (if \<not> ctx_ai_available c then [AI_UNAVAILABLE]
      else case ctx_ai_confidence c of
          Some x \<Rightarrow> (if x < 6 / 10 then [LOW_AI_CONFIDENCE] else []) | None \<Rightarrow> [])"

definition collect_factors :: "zone_db \<Rightarrow> eval_context \<Rightarrow> zone_match \<Rightarrow> eval_error + risk_factor list" where
  "collect_factors zones c m =
     bind_err (map_raised Schedule_error
         (is_outside_business_hours zones (ctx_occurred_at c) (ctx_timezone c)))
       (\<lambda>outside. Inr (scene_factors outside c m @ ai_factors c))"

definition below :: "severity \<Rightarrow> severity \<Rightarrow> bool" where
  "below actual minimum \<longleftrightarrow> severity_rank actual < severity_rank minimum"

lemma below_iff [simp]: "below a b \<longleftrightarrow> a < b"
  by (simp add: below_def less_severity_def)

text \<open>The scoring half of \<^verbatim>\<open>evaluate\<close>, from the collected factors on.\<close>

definition score_rule :: "zone_db \<Rightarrow> rule \<Rightarrow> eval_context \<Rightarrow> zone_match \<Rightarrow> eval_reason list
    \<Rightarrow> eval_error + decision" where
  "score_rule zones r c m reasons0 =
     bind_err (collect_factors zones c m) (\<lambda>factors.
       let risk = compute_risk factors (rule_weights r);
           reasons = reasons0 @ map Factor_label (risk_labels risk)
       in if below (risk_severity risk) (min_severity r)
          then Inr \<lparr>matched = False, decision_rule = Some (rule_name r), decision_actions = {LOG_ONLY},
                    decision_risk = risk, decision_zones = m,
                    decision_reasons = reasons @ [Severity_below (min_severity r)]\<rparr>
          else Inr \<lparr>matched = True, decision_rule = Some (rule_name r),
                    decision_actions = (if risk_severity risk = CRITICAL
                       then insert ESCALATE (rule_actions r) else rule_actions r),
                    decision_risk = risk, decision_zones = m, decision_reasons = reasons\<rparr>)"

text \<open>The AI gate and what follows it.\<close>

definition ai_gate_then_score :: "zone_db \<Rightarrow> rule \<Rightarrow> eval_context \<Rightarrow> zone_match \<Rightarrow> eval_error + decision" where
  "ai_gate_then_score zones r c m =
     (if \<not> ctx_ai_available c
      then (case if_ai_unavailable r of
              DROP \<Rightarrow> Inr (no_match Ai_drop m)
            | QUEUE_ONLY \<Rightarrow>
                Inr \<lparr>matched = False, decision_rule = Some (rule_name r), decision_actions = {LOG_ONLY},
                     decision_risk = compute_risk [] (rule_weights r), decision_zones = m,
                     decision_reasons = [Ai_queued]\<rparr>
            | ALERT_ON_VENDOR_EVENT \<Rightarrow> score_rule zones r c m [Ai_vendor_event])
      else case ctx_ai_confidence c of
             Some x \<Rightarrow> (if x < min_ai_confidence r
                         then Inr (no_match (Confidence_below x (min_ai_confidence r)) m)
                         else score_rule zones r c m [])
           | None \<Rightarrow> score_rule zones r c m [])"

definition evaluate :: "zone_db \<Rightarrow> rule \<Rightarrow> eval_context \<Rightarrow> eval_error + decision" where
  "evaluate zones r c =
     (if \<not> enabled r then Inr (no_match Rule_disabled [])
      else if ctx_event_type c \<notin> event_types r
      then Inr (no_match (Event_type_not_in_rule (ctx_event_type c)) [])
      else if camera_ids r \<noteq> {} \<and> ctx_camera_id c \<notin> camera_ids r
      then Inr (no_match Camera_not_in_rule [])
      else bind_err (map_raised Schedule_error (is_active zones (rule_schedule r) (ctx_occurred_at c)))
       (\<lambda>active.
        if \<not> active then Inr (no_match (Outside_schedule (rule_schedule r)) [])
        else bind_err (map_raised Zone_error (match_any (ctx_boxes c) (ctx_zones c))) (\<lambda>m.
          if is_ignored m then Inr (no_match In_ignore_zone m)
          else if zone_names r \<noteq> {} \<and> zone_names r \<inter> set (match_names m) = {}
          then Inr (no_match Outside_rule_zones m)
          else ai_gate_then_score zones r c m)))"

section \<open>All the rules of a site\<close>

definition louder :: "decision \<Rightarrow> decision \<Rightarrow> bool" where
  "louder d b \<longleftrightarrow> (matched d \<and> \<not> matched b) \<or>
     (matched d = matched b \<and> score (decision_risk b) < score (decision_risk d))"

fun eval_loop :: "zone_db \<Rightarrow> eval_context \<Rightarrow> decision option \<Rightarrow> rule list \<Rightarrow> eval_error + decision option" where
  "eval_loop zones c best [] = Inr best"
| "eval_loop zones c best (r # rs) =
     bind_err (evaluate zones r c) (\<lambda>d.
       eval_loop zones c (case best of None \<Rightarrow> Some d
                          | Some b \<Rightarrow> Some (if louder d b then d else b)) rs)"

definition evaluate_all :: "zone_db \<Rightarrow> rule list \<Rightarrow> eval_context \<Rightarrow> eval_error + decision" where
  "evaluate_all zones rules c =
     bind_err (eval_loop zones c None rules) (\<lambda>best.
       Inr (case best of Some d \<Rightarrow> d | None \<Rightarrow> no_match No_rules []))"

section \<open>Lemmas\<close>

definition ai_gate :: "rule \<Rightarrow> eval_context \<Rightarrow> bool" where
  "ai_gate r c \<longleftrightarrow> (if ctx_ai_available c
     then (case ctx_ai_confidence c of Some x \<Rightarrow> min_ai_confidence r \<le> x | None \<Rightarrow> True)
     else if_ai_unavailable r = ALERT_ON_VENDOR_EVENT)"

definition passes_gates :: "zone_db \<Rightarrow> rule \<Rightarrow> eval_context \<Rightarrow> zone_match \<Rightarrow> bool" where
  "passes_gates zones r c m \<longleftrightarrow>
     enabled r \<and> ctx_event_type c \<in> event_types r \<and>
     (camera_ids r = {} \<or> ctx_camera_id c \<in> camera_ids r) \<and>
     is_active zones (rule_schedule r) (ctx_occurred_at c) = Inr True \<and>
     match_any (ctx_boxes c) (ctx_zones c) = Inr m \<and> \<not> is_ignored m \<and>
     (zone_names r = {} \<or> zone_names r \<inter> set (match_names m) \<noteq> {}) \<and> ai_gate r c"

lemma matched_no_match [simp]: "\<not> matched (no_match r m)"
  by (simp add: no_match_def)

lemma score_rule_matched:
  "score_rule zones r c m rs = Inr d \<Longrightarrow>
   matched d = (min_severity r \<le> decision_severity d) \<and> decision_rule d = Some (rule_name r)"
  by (auto simp: score_rule_def bind_err_Inr_iff Let_def decision_severity_def not_less
      split: if_splits)

lemma score_rule_actions:
  "score_rule zones r c m rs = Inr d \<Longrightarrow>
   (if matched d then rule_actions r \<subseteq> decision_actions d \<and>
      (decision_severity d = CRITICAL \<longrightarrow> ESCALATE \<in> decision_actions d)
    else decision_actions d = {LOG_ONLY})"
  by (auto simp: score_rule_def bind_err_Inr_iff Let_def decision_severity_def split: if_splits)

definition start_reasons :: "eval_context \<Rightarrow> eval_reason list" where
  "start_reasons c = (if ctx_ai_available c then [] else [Ai_vendor_event])"

lemma ai_gate_open:
  "ai_gate r c \<Longrightarrow> ai_gate_then_score zones r c m = score_rule zones r c m (start_reasons c)"
  by (auto simp: ai_gate_def ai_gate_then_score_def start_reasons_def split: if_splits option.splits)

lemma ai_gate_closed:
  "\<not> ai_gate r c \<Longrightarrow> \<exists>d. ai_gate_then_score zones r c m = Inr d \<and> \<not> matched d \<and> decision_actions d \<subseteq> {LOG_ONLY}"
  by (auto simp: ai_gate_def ai_gate_then_score_def no_match_def split: option.splits ai_fallback.splits if_splits)

lemma evaluate_open:
  "passes_gates zones r c m \<Longrightarrow> evaluate zones r c = score_rule zones r c m (start_reasons c)"
  by (auto simp: passes_gates_def evaluate_def ai_gate_open)

lemma evaluate_closed:
  assumes "evaluate zones r c = Inr d" and "\<And>m. \<not> passes_gates zones r c m"
  shows "\<not> matched d \<and> decision_actions d \<subseteq> {LOG_ONLY}"
proof (cases "enabled r \<and> ctx_event_type c \<in> event_types r \<and>
    (camera_ids r = {} \<or> ctx_camera_id c \<in> camera_ids r)")
  case False
  then show ?thesis using assms(1)
    by (auto simp: evaluate_def no_match_def split: if_splits)
next
  case basic: True
  with assms(1) obtain active where act: "is_active zones (rule_schedule r) (ctx_occurred_at c) = Inr active"
    by (auto simp: evaluate_def bind_err_Inr_iff split: if_splits)
  show ?thesis
  proof (cases active)
    case False
    with basic act assms(1) show ?thesis by (auto simp: evaluate_def no_match_def)
  next
    case active: True
    with basic act assms(1) obtain m where m: "match_any (ctx_boxes c) (ctx_zones c) = Inr m"
      by (auto simp: evaluate_def bind_err_Inr_iff)
    show ?thesis
    proof (cases "is_ignored m \<or> (zone_names r \<noteq> {} \<and> zone_names r \<inter> set (match_names m) = {})")
      case True
      with basic act active m assms(1) show ?thesis
        by (auto simp: evaluate_def no_match_def split: if_splits)
    next
      case False
      then have "\<not> ai_gate r c"
        using assms(2) [of m] basic act active m by (auto simp: passes_gates_def)
      moreover have "ai_gate_then_score zones r c m = Inr d"
        using False basic act active m assms(1) by (simp add: evaluate_def split: if_splits)
      ultimately show ?thesis using ai_gate_closed [of r c zones m] by auto
    qed
  qed
qed

lemma matched_passes:
  "evaluate zones r c = Inr d \<Longrightarrow> matched d \<Longrightarrow> \<exists>m. passes_gates zones r c m"
  using evaluate_closed by blast

lemma passes_score:
  assumes "passes_gates zones r c m" and "evaluate zones r c = Inr d"
  obtains fs where "collect_factors zones c m = Inr fs"
    and "decision_severity d = risk_severity (compute_risk fs (rule_weights r))"
    and "matched d \<longleftrightarrow> min_severity r \<le> decision_severity d"
proof -
  from assms evaluate_open [OF assms(1)] have s: "score_rule zones r c m (start_reasons c) = Inr d"
    by simp
  then obtain fs where "collect_factors zones c m = Inr fs"
    and "decision_severity d = risk_severity (compute_risk fs (rule_weights r))"
    by (auto simp: score_rule_def bind_err_Inr_iff Let_def decision_severity_def split: if_splits)
  with score_rule_matched [OF s] show thesis by (blast intro: that)
qed

lemma scene_factors_ai [simp]:
  "scene_factors outside (c\<lparr>ctx_ai_available := b\<rparr>) m = scene_factors outside c m"
  by (simp add: scene_factors_def)

lemma score_rule_total:
  "collect_factors zones c m = Inr fs \<Longrightarrow> \<exists>d. score_rule zones r c m rs = Inr d"
  by (simp add: score_rule_def Let_def)

lemma not_louder_trans: "\<not> louder a b \<Longrightarrow> \<not> louder b d \<Longrightarrow> \<not> louder a d"
  by (auto simp: louder_def)

lemma louder_not_back: "louder a b \<Longrightarrow> \<not> louder b a"
  by (auto simp: louder_def)

lemma eval_loop_Some:
  assumes "eval_loop zones c (Some b) rs = Inr best"
  shows "\<exists>d. best = Some d \<and> (d = b \<or> (\<exists>r \<in> set rs. evaluate zones r c = Inr d)) \<and> \<not> louder b d \<and>
    (\<forall>r \<in> set rs. \<exists>d'. evaluate zones r c = Inr d' \<and> \<not> louder d' d)"
  using assms
proof (induction rs arbitrary: b)
  case Nil
  then show ?case by (auto simp: louder_def)
next
  case (Cons r rs)
  then obtain e where e: "evaluate zones r c = Inr e"
    and loop: "eval_loop zones c (Some (if louder e b then e else b)) rs = Inr best"
    by (auto simp: bind_err_Inr_iff)
  let ?k = "if louder e b then e else b"
  have "\<not> louder b ?k" and "\<not> louder e ?k"
    using louder_not_back by (auto simp: louder_def)
  from Cons.IH [OF loop] obtain d where d: "best = Some d" "d = ?k \<or> (\<exists>r \<in> set rs. evaluate zones r c = Inr d)"
    "\<not> louder ?k d" "\<forall>r \<in> set rs. \<exists>d'. evaluate zones r c = Inr d' \<and> \<not> louder d' d"
    by blast
  have "\<not> louder b d" "\<not> louder e d"
    using \<open>\<not> louder b ?k\<close> \<open>\<not> louder e ?k\<close> d(3) not_louder_trans by blast+
  with d e show ?case by (auto split: if_splits)
qed

section \<open>Properties\<close>

text \<open>
  C9. An event becomes an alarm under a rule exactly when every gate lets it through (rule
  enabled, event type, camera, armed schedule, zones, AI gate) and the computed severity
  reaches the rule's minimum; no gate can be bypassed and nothing else can block it.
\<close>

theorem evaluate_matches_iff:
  assumes "evaluate zones r c = Inr d"
  shows "matched d \<longleftrightarrow> (\<exists>m fs. passes_gates zones r c m \<and> collect_factors zones c m = Inr fs \<and>
      min_severity r \<le> risk_severity (compute_risk fs (rule_weights r)))"
proof (cases "\<exists>m. passes_gates zones r c m")
  case True
  then obtain m where m: "passes_gates zones r c m" ..
  have unique: "m' = m" if "passes_gates zones r c m'" for m'
    using m that by (auto simp: passes_gates_def)
  from passes_score [OF m assms] m show ?thesis
    by (metis unique sum.inject(2))
next
  case False
  with evaluate_closed [OF assms] show ?thesis by blast
qed

definition night_context :: eval_context where
  "night_context = \<lparr>ctx_event_type = ''person_detected'', ctx_occurred_at = 20 * hour,
     ctx_timezone = istanbul, ctx_camera_id = ''c1'', ctx_zones = [], ctx_boxes = [],
     ctx_ai_confidence = None, ctx_ai_available = True, ctx_recent_tamper = False,
     ctx_repeated = False, ctx_device_silent = False, ctx_perimeter_event = False\<rparr>"

definition person_rule :: rule where
  "person_rule = default_rule ''night'' {''person_detected''}"

lemma night_outside: "is_outside_business_hours utc3 (20 * hour) istanbul = Inr True"
  by (simp add: is_outside_business_hours_def make_schedule_def resolve_timezone_def local_time_def
      utc3_def all_days_def time_of_day_def clock_def)

lemma night_gates: "passes_gates utc3 person_rule night_context []"
  by (simp add: passes_gates_def person_rule_def default_rule_def night_context_def is_active_def
      always_def is_always_on_def match_any_def is_ignored_def match_types_def ai_gate_def)

lemma night_factors:
  "collect_factors utc3 night_context [] = Inr [PERSON_DETECTED, OUTSIDE_BUSINESS_HOURS]"
  by (simp add: collect_factors_def scene_factors_def ai_factors_def night_context_def
      night_outside [simplified] perimeter_types_def restricted_def match_types_def)

lemma night_severity:
  "risk_severity (compute_risk [PERSON_DETECTED, OUTSIDE_BUSINESS_HOURS] Map.empty) = LOW"
  by (simp add: risk_severity_def score_compute_risk weight_of_def severity_for_eq)

lemma night_evaluates:
  obtains d where "evaluate utc3 person_rule night_context = Inr d" and "matched d"
    and "decision_severity d = LOW" and "decision_actions d = {PUSH, SNAPSHOT}"
proof -
  have "\<exists>d. score_rule utc3 person_rule night_context [] rs = Inr d \<and> matched d \<and>
      decision_severity d = LOW \<and> decision_actions d = {PUSH, SNAPSHOT}" for rs
    by (simp add: score_rule_def night_factors Let_def person_rule_def default_rule_def
        night_severity decision_severity_def)
  then show thesis using that evaluate_open [OF night_gates] by metis
qed

theorem evaluate_matches_iff_witness:
  "\<exists>d. evaluate utc3 person_rule night_context = Inr d \<and>
     (matched d \<longleftrightarrow> (\<exists>m fs. passes_gates utc3 person_rule night_context m \<and>
        collect_factors utc3 night_context m = Inr fs \<and>
        LOW \<le> risk_severity (compute_risk fs Map.empty))) \<and> matched d"
proof -
  obtain d where d: "evaluate utc3 person_rule night_context = Inr d" and m: "matched d"
    by (rule night_evaluates)
  have r: "min_severity person_rule = LOW" "rule_weights person_rule = Map.empty"
    by (simp_all add: person_rule_def default_rule_def)
  show ?thesis
    using d evaluate_matches_iff [OF d, unfolded r] m by (intro exI [of _ d] conjI)
qed

text \<open>
  Our own classifier being down never silences a rule that falls back to the vendor
  event: if the rule alarms on an event the AI returned no verdict for, it also alarms on
  the same event when the AI is unavailable, at no lower severity, unless the site itself
  weighs AI_UNAVAILABLE negatively.
\<close>

theorem missing_ai_never_silences:
  assumes "evaluate zones r c = Inr d" and "matched d"
    and "ctx_ai_available c" and "ctx_ai_confidence c = None"
    and "if_ai_unavailable r = ALERT_ON_VENDOR_EVENT"
    and "0 \<le> weight_of (rule_weights r) AI_UNAVAILABLE"
  shows "\<exists>d'. evaluate zones r (c\<lparr>ctx_ai_available := False\<rparr>) = Inr d' \<and> matched d' \<and>
    decision_severity d \<le> decision_severity d'"
proof -
  let ?c = "c\<lparr>ctx_ai_available := False\<rparr>"
  obtain m where m: "passes_gates zones r c m" using matched_passes [OF assms(1,2)] ..
  then have m': "passes_gates zones r ?c m"
    using assms(5) by (simp add: passes_gates_def ai_gate_def)
  obtain fs where fs: "collect_factors zones c m = Inr fs"
    and sev: "decision_severity d = risk_severity (compute_risk fs (rule_weights r))"
    and min: "matched d \<longleftrightarrow> min_severity r \<le> decision_severity d"
    by (rule passes_score [OF m assms(1)])
  from fs have fs': "collect_factors zones ?c m = Inr (fs @ [AI_UNAVAILABLE])"
    using assms(3,4) by (auto simp: collect_factors_def ai_factors_def bind_err_Inr_iff)
  have more: "risk_severity (compute_risk fs (rule_weights r))
      \<le> risk_severity (compute_risk (fs @ [AI_UNAVAILABLE]) (rule_weights r))"
    using assms(6) by (rule risk_severity_more) simp
  with sev min assms(2)
  have "\<not> risk_severity (compute_risk (fs @ [AI_UNAVAILABLE]) (rule_weights r)) < min_severity r"
    by simp
  with sev more show ?thesis
    by (simp add: evaluate_open [OF m'] score_rule_def fs' Let_def decision_severity_def leD)
qed

theorem missing_ai_never_silences_witness:
  "\<exists>d'. evaluate utc3 person_rule (night_context\<lparr>ctx_ai_available := False\<rparr>) = Inr d' \<and> matched d'"
proof -
  obtain d where d: "evaluate utc3 person_rule night_context = Inr d" and m: "matched d"
    by (rule night_evaluates)
  have "ctx_ai_available night_context" "ctx_ai_confidence night_context = None"
    "if_ai_unavailable person_rule = ALERT_ON_VENDOR_EVENT"
    "0 \<le> weight_of (rule_weights person_rule) AI_UNAVAILABLE"
    by (simp_all add: night_context_def person_rule_def default_rule_def weight_of_def)
  from missing_ai_never_silences [OF d m this] show ?thesis by blast
qed

text \<open>
  The strongest match wins: the outcome for a site is the outcome of one of its rules,
  no rule of the site has a louder one (a match beats a non-match, then the higher score),
  so a site with any matching rule raises the alarm.
\<close>

theorem loudest_rule_wins:
  assumes "evaluate_all zones rules c = Inr d" and "rules \<noteq> []"
  shows "(\<exists>r \<in> set rules. evaluate zones r c = Inr d) \<and>
    (\<forall>r \<in> set rules. \<exists>d'. evaluate zones r c = Inr d' \<and> \<not> louder d' d \<and> (matched d' \<longrightarrow> matched d))"
proof -
  from assms(2) obtain r rs where rules: "rules = r # rs" by (cases rules) auto
  from assms(1) rules obtain e best where e: "evaluate zones r c = Inr e"
    and loop: "eval_loop zones c (Some e) rs = Inr best"
    and d: "d = (case best of Some d \<Rightarrow> d | None \<Rightarrow> no_match No_rules [])"
    by (auto simp: evaluate_all_def bind_err_Inr_iff)
  have "matched d' \<longrightarrow> matched d" if "\<not> louder d' d" for d'
    using that by (auto simp: louder_def)
  with eval_loop_Some [OF loop] d e rules show ?thesis by force
qed

theorem loudest_rule_wins_witness:
  "\<exists>d. evaluate_all utc3 [person_rule\<lparr>enabled := False\<rparr>, person_rule] night_context = Inr d \<and> matched d"
proof -
  let ?rules = "[person_rule\<lparr>enabled := False\<rparr>, person_rule]"
  obtain d where d: "evaluate utc3 person_rule night_context = Inr d" and m: "matched d"
    by (rule night_evaluates)
  have off: "evaluate utc3 (person_rule\<lparr>enabled := False\<rparr>) night_context = Inr (no_match Rule_disabled [])"
    by (simp add: evaluate_def)
  obtain b where b: "evaluate_all utc3 ?rules night_context = Inr b"
    by (simp add: evaluate_all_def off d)
  have "?rules \<noteq> []" by simp
  from loudest_rule_wins [OF b this] b d m show ?thesis by fastforce
qed

text \<open>
  A critical alarm always carries ESCALATE next to the rule's own actions; an outcome
  that is not an alarm carries at most LOG_ONLY, so it can never notify anyone.
\<close>

theorem actions_follow_outcome:
  assumes "evaluate zones r c = Inr d"
  shows "if matched d then rule_actions r \<subseteq> decision_actions d \<and>
      (decision_severity d = CRITICAL \<longrightarrow> ESCALATE \<in> decision_actions d)
    else decision_actions d \<subseteq> {LOG_ONLY} \<and> \<not> should_notify d"
proof (cases "\<exists>m. passes_gates zones r c m")
  case True
  then obtain m where m: "passes_gates zones r c m" ..
  from assms evaluate_open [OF m] have "score_rule zones r c m (start_reasons c) = Inr d" by simp
  from score_rule_actions [OF this] show ?thesis by (auto simp: should_notify_def)
next
  case False
  with evaluate_closed [OF assms] show ?thesis by (simp add: should_notify_def)
qed

theorem actions_follow_outcome_witness:
  "\<exists>d. evaluate utc3 person_rule night_context = Inr d \<and> {PUSH, SNAPSHOT} \<subseteq> decision_actions d"
proof -
  obtain d where d: "evaluate utc3 person_rule night_context = Inr d" and m: "matched d"
    by (rule night_evaluates)
  have r: "rule_actions person_rule = {PUSH, SNAPSHOT}"
    by (simp add: person_rule_def default_rule_def)
  have "rule_actions person_rule \<subseteq> decision_actions d"
    using actions_follow_outcome [OF d] unfolding if_P [OF m] by (rule conjunct1)
  with d show ?thesis unfolding r by (intro exI [of _ d] conjI)
qed

text \<open>A schedule the engine can always decide: round the clock, or in a known time zone.\<close>

definition decidable_schedule :: "zone_db \<Rightarrow> schedule \<Rightarrow> bool" where
  "decidable_schedule zones s \<longleftrightarrow> is_always_on s \<or> zones (sched_timezone s) \<noteq> None"

lemma is_active_returns: "decidable_schedule zones s \<Longrightarrow> \<exists>b. is_active zones s t = Inr b"
  unfolding decidable_schedule_def
  by (auto simp: is_active_def local_time_def resolve_timezone_def)

lemma evaluate_returns:
  assumes "decidable_schedule zones (rule_schedule r)" and "zones (ctx_timezone c) = Some off'"
    and "valid_zones (ctx_zones c)"
  shows "\<exists>d. evaluate zones r c = Inr d"
proof -
  have "is_outside_business_hours zones (ctx_occurred_at c) (ctx_timezone c) \<in> range Inr"
    using assms(2) by (simp add: is_outside_business_hours_def make_schedule_def resolve_timezone_def
        local_time_def) (simp add: all_days_def)
  then have "\<exists>fs. collect_factors zones c m = Inr fs" for m
    by (auto simp: collect_factors_def)
  then have "\<exists>d. score_rule zones r c m rs = Inr d" for m rs
    using score_rule_total by blast
  then have ai: "\<exists>d. ai_gate_then_score zones r c m = Inr d" for m
    using ai_gate_open [of r c zones m] ai_gate_closed [of r c zones m] by (cases "ai_gate r c") fastforce+
  obtain b where "is_active zones (rule_schedule r) (ctx_occurred_at c) = Inr b"
    using is_active_returns [OF assms(1)] by blast
  with ai match_any_valid [OF assms(3), of "ctx_boxes c"] show ?thesis
    by (auto simp: evaluate_def)
qed

lemma eval_loop_returns:
  "(\<And>r. r \<in> set rules \<Longrightarrow> \<exists>d. evaluate zones r c = Inr d) \<Longrightarrow>
   \<exists>b. eval_loop zones c best rules = Inr b"
proof (induction rules arbitrary: best)
  case (Cons r rs)
  obtain d where "evaluate zones r c = Inr d" using Cons.prems [of r] by auto
  with Cons show ?case by simp
qed simp

lemma evaluate_all_returns:
  "(\<And>r. r \<in> set rules \<Longrightarrow> \<exists>d. evaluate zones r c = Inr d) \<Longrightarrow> \<exists>d. evaluate_all zones rules c = Inr d"
  using eval_loop_returns [of rules zones c None] by (auto simp: evaluate_all_def)

text \<open>
  With valid zones and time zones the database knows, evaluating a rule never raises, so
  one rule cannot abort the processing of a mail.
\<close>

theorem evaluate_total:
  assumes "zones (sched_timezone (rule_schedule r)) = Some off" and "zones (ctx_timezone c) = Some off'"
    and "valid_zones (ctx_zones c)"
  shows "\<exists>d. evaluate zones r c = Inr d"
proof (rule evaluate_returns)
  show "decidable_schedule zones (rule_schedule r)" using assms(1) by (simp add: decidable_schedule_def)
qed (rule assms)+

theorem evaluate_total_witness:
  "\<exists>d. evaluate utc3 (default_rule ''r'' {''vehicle_detected''}) night_context = Inr d"
proof -
  have h: "utc3 (sched_timezone (rule_schedule (default_rule ''r'' {''vehicle_detected''}))) = Some (\<lambda>_. 3 * hour)"
    "utc3 (ctx_timezone night_context) = Some (\<lambda>_. 3 * hour)" "valid_zones (ctx_zones night_context)"
    by (simp_all add: utc3_def default_rule_def always_def night_context_def valid_zones_def)
  show ?thesis
    by (rule evaluate_total [where zones = utc3 and r = "default_rule ''r'' {''vehicle_detected''}"
        and off = "\<lambda>_. 3 * hour" and c = night_context and off' = "\<lambda>_. 3 * hour"]) (rule h)+
qed

end
