(* ===== verification/Escalation.thy ===== *)
theory Escalation
  imports Risk
begin

text \<open>
  Escalation chains, \<^verbatim>\<open>backend/app/modules/alarms/escalation.py\<close>: steps, the two
  policies and their validation, and the pure state the escalation worker rebuilds from an
  alarm row on every sweep.
\<close>

section \<open>Policies\<close>

record escalation_step =
  after_seconds :: int
  step_role :: string
  step_users :: "uuid list"

datatype policy_error = Negative_offset | No_steps | Unordered_steps

definition make_step :: "int \<Rightarrow> string \<Rightarrow> uuid list \<Rightarrow> policy_error + escalation_step" where
  "make_step after role users =
     (if after < 0 then Inl Negative_offset
      else Inr \<lparr>after_seconds = after, step_role = role, step_users = users\<rparr>)"

record escalation_policy =
  policy_name :: string
  steps :: "escalation_step list"

definition make_policy :: "string \<Rightarrow> escalation_step list \<Rightarrow> policy_error + escalation_policy" where
  "make_policy name ss =
     (if ss = [] then Inl No_steps
      else if map after_seconds ss \<noteq> sort (map after_seconds ss) then Inl Unordered_steps
      else Inr \<lparr>policy_name = name, steps = ss\<rparr>)"

definition total_seconds :: "escalation_policy \<Rightarrow> int" where
  "total_seconds p = after_seconds (last (steps p))"

definition role_step :: "int \<Rightarrow> string \<Rightarrow> escalation_step" where
  "role_step after role = \<lparr>after_seconds = after, step_role = role, step_users = []\<rparr>"

definition default_policy :: escalation_policy where
  "default_policy = \<lparr>policy_name = ''default'',
     steps = [role_step 0 ''GUARD'', role_step 60 ''SITE_MANAGER'', role_step 180 ''SECURITY_MANAGER'']\<rparr>"

definition critical_policy :: escalation_policy where
  "critical_policy = \<lparr>policy_name = ''critical'',
     steps = [role_step 0 ''GUARD'', role_step 30 ''SITE_MANAGER'', role_step 90 ''SECURITY_MANAGER'',
              role_step 240 ''OWNER'']\<rparr>"

definition policy_for :: "severity \<Rightarrow> escalation_policy" where
  "policy_for sev = (if sev = CRITICAL then critical_policy else default_policy)"

definition wf_policy :: "escalation_policy \<Rightarrow> bool" where
  "wf_policy p \<longleftrightarrow> steps p \<noteq> [] \<and> sorted (map after_seconds (steps p))"

lemma make_policy_wf: "make_policy name ss = Inr p \<Longrightarrow> wf_policy p"
  by (auto simp: make_policy_def wf_policy_def split: if_splits) (metis sorted_sort)

lemma policy_for_wf: "wf_policy (policy_for sev) \<and> distinct (steps (policy_for sev))"
  by (simp add: policy_for_def wf_policy_def default_policy_def critical_policy_def role_step_def)

section \<open>The state of one alarm's climb\<close>

record escalation_state =
  opened_at :: instant
  policy :: escalation_policy
  acknowledged_at :: "instant option"
  resolved_at :: "instant option"
  delivered :: "nat set"

definition is_stopped :: "escalation_state \<Rightarrow> bool" where
  "is_stopped s \<longleftrightarrow> acknowledged_at s \<noteq> None \<or> resolved_at s \<noteq> None"

definition acknowledge :: "escalation_state \<Rightarrow> instant \<Rightarrow> bool \<times> escalation_state" where
  "acknowledge s tm = (if is_stopped s then (False, s) else (True, s\<lparr>acknowledged_at := Some tm\<rparr>))"

definition resolve :: "escalation_state \<Rightarrow> instant \<Rightarrow> escalation_state" where
  "resolve s tm = s\<lparr>resolved_at := Some tm\<rparr>"

abbreviation indexed :: "'a list \<Rightarrow> (nat \<times> 'a) list" where
  "indexed xs \<equiv> List.enumerate 0 xs"

definition due_index :: "escalation_state \<Rightarrow> instant \<Rightarrow> nat \<times> escalation_step \<Rightarrow> bool" where
  "due_index s now p \<longleftrightarrow> fst p \<notin> delivered s \<and> seconds (after_seconds (snd p)) \<le> now - opened_at s"

definition due_steps :: "escalation_state \<Rightarrow> instant \<Rightarrow> escalation_step list" where
  "due_steps s now =
     (if is_stopped s then []
      else map snd (filter (due_index s now) (indexed (steps (policy s)))))"

text \<open>The index of the first equal step; \<^verbatim>\<open>policy.steps.index\<close> finds the same one.\<close>

definition step_index :: "escalation_policy \<Rightarrow> escalation_step \<Rightarrow> nat option" where
  "step_index p st = map_option fst (find (\<lambda>(i, c). c = st) (indexed (steps p)))"

definition mark_delivered :: "escalation_state \<Rightarrow> escalation_step \<Rightarrow> escalation_state" where
  "mark_delivered s st = (case step_index (policy s) st of
      Some i \<Rightarrow> s\<lparr>delivered := insert i (delivered s)\<rparr> | None \<Rightarrow> s)"

definition next_due_at :: "escalation_state \<Rightarrow> instant \<Rightarrow> instant option" where
  "next_due_at s now =
     (if is_stopped s then None
      else first_some (\<lambda>(i, st). if i \<in> delivered s then None
          else let due = opened_at s + seconds (after_seconds st) in if now < due then Some due else None)
        (indexed (steps (policy s))))"

definition is_exhausted :: "escalation_state \<Rightarrow> bool" where
  "is_exhausted s \<longleftrightarrow> length (steps (policy s)) \<le> card (delivered s)"

definition acknowledgement_latency :: "escalation_state \<Rightarrow> duration option" where
  "acknowledgement_latency s = map_option (\<lambda>a. a - opened_at s) (acknowledged_at s)"

section \<open>Lemmas\<close>

lemma set_indexed: "(i, x) \<in> set (indexed xs) \<longleftrightarrow> i < length xs \<and> xs ! i = x"
  by (simp add: in_set_enumerate_eq)

lemma find_enumerate:
  "find (\<lambda>(i, c). P c) (List.enumerate n xs) = Some (i, c) \<Longrightarrow>
   n \<le> i \<and> i < n + length xs \<and> xs ! (i - n) = c \<and> P c"
  by (induction xs arbitrary: n) (fastforce split: if_splits simp: nth_Cons' not_less)+

lemma find_enumerate_exists:
  "c \<in> set xs \<Longrightarrow> \<exists>i. find (\<lambda>(i, d). d = c) (List.enumerate n xs) = Some (i, c)"
  by (induction xs arbitrary: n) auto

lemma step_index_Some: "step_index p st = Some i \<Longrightarrow> i < length (steps p) \<and> steps p ! i = st"
  by (auto simp: step_index_def dest: find_enumerate)

lemma step_index_exists: "st \<in> set (steps p) \<Longrightarrow> \<exists>i. step_index p st = Some i"
  using find_enumerate_exists [of st "steps p" 0] by (auto simp: step_index_def)

lemma step_index_distinct:
  "distinct (steps p) \<Longrightarrow> i < length (steps p) \<Longrightarrow> step_index p (steps p ! i) = Some i"
  by (metis nth_mem step_index_exists step_index_Some nth_eq_iff_index_eq)

lemma mark_delivered_frame [simp]:
  "opened_at (mark_delivered s st) = opened_at s" "policy (mark_delivered s st) = policy s"
  "acknowledged_at (mark_delivered s st) = acknowledged_at s"
  "resolved_at (mark_delivered s st) = resolved_at s"
  "is_stopped (mark_delivered s st) = is_stopped s"
  by (simp_all add: mark_delivered_def is_stopped_def split: option.splits)

lemma due_steps_iff:
  "st \<in> set (due_steps s now) \<longleftrightarrow> \<not> is_stopped s \<and>
     (\<exists>i < length (steps (policy s)). steps (policy s) ! i = st \<and> i \<notin> delivered s \<and>
        seconds (after_seconds st) \<le> now - opened_at s)"
proof -
  have "st \<in> set (map snd (filter (due_index s now) (indexed (steps (policy s))))) \<longleftrightarrow>
      (\<exists>i. (i, st) \<in> set (indexed (steps (policy s))) \<and> due_index s now (i, st))"
    by force
  then show ?thesis by (auto simp: due_steps_def set_indexed due_index_def)
qed

lemma mark_delivered_distinct:
  assumes "distinct (steps (policy s))" and "st \<in> set (steps (policy s))"
  shows "set (due_steps (mark_delivered s st) now) = set (due_steps s now) - {st}"
proof -
  from assms(2) obtain i where i: "i < length (steps (policy s))" "steps (policy s) ! i = st"
    by (auto simp: in_set_conv_nth)
  then have "delivered (mark_delivered s st) = insert i (delivered s)"
    using step_index_distinct [OF assms(1) i(1)] by (simp add: mark_delivered_def)
  then show ?thesis
    using i assms(1) by (auto simp: due_steps_iff nth_eq_iff_index_eq)
qed

section \<open>The contract the worker relies on\<close>

text \<open>
  A chain that can be drained: delivering a due step removes exactly it, and a stopped
  chain owes nothing.
\<close>

locale drainable_chain =
  fixes inv :: "'s \<Rightarrow> bool"
    and stopped :: "'s \<Rightarrow> bool"
    and due :: "'s \<Rightarrow> instant \<Rightarrow> 'step list"
    and deliver :: "'s \<Rightarrow> 'step \<Rightarrow> 's"
  assumes stopped_owes_nothing: "stopped s \<Longrightarrow> due s now = []"
    and deliver_removes: "inv s \<Longrightarrow> st \<in> set (due s now) \<Longrightarrow> set (due (deliver s st) now') = set (due s now') - {st}"
    and deliver_inv: "inv s \<Longrightarrow> st \<in> set (due s now) \<Longrightarrow> inv (deliver s st)"
begin

lemma due_after_deliveries:
  "inv s \<Longrightarrow> set sts \<subseteq> set (due s now) \<Longrightarrow> distinct sts \<Longrightarrow>
   inv (foldl deliver s sts) \<and> set (due (foldl deliver s sts) now') = set (due s now') - set sts"
proof (induction sts arbitrary: s)
  case Nil
  then show ?case by simp
next
  case (Cons st sts)
  have st: "st \<in> set (due s now)" using Cons.prems by simp
  have "set sts \<subseteq> set (due (deliver s st) now)"
    using Cons.prems deliver_removes [OF Cons.prems(1) st] by auto
  with Cons deliver_inv [OF Cons.prems(1) st] have
    "inv (foldl deliver (deliver s st) sts) \<and>
     set (due (foldl deliver (deliver s st) sts) now') = set (due (deliver s st) now') - set sts"
    by simp
  then show ?case using deliver_removes [OF Cons.prems(1) st, of now'] by auto
qed

lemma sweep_drains:
  assumes "inv s" and "distinct (due s now)"
  shows "due (foldl deliver s (due s now)) now = []"
  using due_after_deliveries [OF assms(1) subset_refl assms(2), of now] by simp

end

lemma distinct_due_steps: "distinct (steps (policy s)) \<Longrightarrow> distinct (due_steps s now)"
proof -
  assume "distinct (steps (policy s))"
  then have "distinct (map snd (indexed (steps (policy s))))" by (simp add: enumerate_eq_zip)
  then show ?thesis by (simp add: due_steps_def distinct_map_filter)
qed

interpretation chain: drainable_chain "\<lambda>s. distinct (steps (policy s))" is_stopped due_steps mark_delivered
proof unfold_locales
  show "due_steps s now = []" if "is_stopped s" for s now
    using that by (simp add: due_steps_def)
  show "set (due_steps (mark_delivered s st) now') = set (due_steps s now') - {st}"
    if "distinct (steps (policy s))" "st \<in> set (due_steps s now)" for s st now now'
    using that by (intro mark_delivered_distinct) (auto simp: due_steps_iff)
  show "distinct (steps (policy (mark_delivered s st)))"
    if "distinct (steps (policy s))" "st \<in> set (due_steps s now)" for s st now
    using that by simp
qed

section \<open>Histories of one alarm\<close>

datatype chain_op = Ack instant | Resolve_op instant | Deliver escalation_step

fun apply_chain_op :: "escalation_state \<Rightarrow> chain_op \<Rightarrow> escalation_state" where
  "apply_chain_op s (Ack tm) = snd (acknowledge s tm)"
| "apply_chain_op s (Resolve_op tm) = resolve s tm"
| "apply_chain_op s (Deliver st) = mark_delivered s st"

lemma stopped_stays:
  "is_stopped s \<Longrightarrow> is_stopped (foldl apply_chain_op s ops) \<and>
     (acknowledged_at s = Some a \<longrightarrow> acknowledged_at (foldl apply_chain_op s ops) = Some a)"
proof (induction ops arbitrary: s)
  case Nil
  then show ?case by simp
next
  case (Cons op ops)
  have "is_stopped (apply_chain_op s op) \<and>
      (acknowledged_at s = Some a \<longrightarrow> acknowledged_at (apply_chain_op s op) = Some a)"
    using Cons.prems by (cases op) (auto simp: acknowledge_def resolve_def is_stopped_def)
  with Cons.IH [of "apply_chain_op s op"] show ?case by simp
qed

section \<open>Properties\<close>

text \<open>
  An acknowledgement anywhere stops the chain for good: once acknowledged (or resolved),
  no sequence of later operations makes a step due again at any clock time, and the instant
  of the acknowledgement is never rewritten.
\<close>

theorem acknowledgement_stops_chain:
  "due_steps (foldl apply_chain_op (snd (acknowledge s tm)) ops) now = [] \<and>
   (\<not> is_stopped s \<longrightarrow> fst (acknowledge s tm) \<and>
      acknowledged_at (foldl apply_chain_op (snd (acknowledge s tm)) ops) = Some tm) \<and>
   \<not> fst (acknowledge (foldl apply_chain_op (snd (acknowledge s tm)) ops) tm')"
proof -
  have st: "is_stopped (snd (acknowledge s tm))"
    by (simp add: acknowledge_def is_stopped_def)
  have a: "acknowledged_at (snd (acknowledge s tm)) = Some tm" if "\<not> is_stopped s"
    using that by (simp add: acknowledge_def)
  from stopped_stays [OF st, of ops tm] a show ?thesis
    by (auto simp: due_steps_def acknowledge_def)
qed

definition fresh_alarm :: escalation_state where
  "fresh_alarm = \<lparr>opened_at = 0, policy = default_policy, acknowledged_at = None,
     resolved_at = None, delivered = {}\<rparr>"

theorem acknowledgement_stops_chain_witness:
  "due_steps (foldl apply_chain_op (snd (acknowledge fresh_alarm (50 * second))) [Resolve_op (55 * second)])
     (100 * second) = [] \<and> due_steps fresh_alarm (100 * second) \<noteq> []"
  using acknowledgement_stops_chain [of fresh_alarm "50 * second" "[Resolve_op (55 * second)]" "100 * second"]
  by (simp add: due_steps_def fresh_alarm_def is_stopped_def due_index_def default_policy_def
      role_step_def seconds_def)

text \<open>
  The scheduler may sleep until the instant \<^verbatim>\<open>next_due_at\<close> names: with steps
  ordered by time it lies in the future, the set of due steps does not change before it and
  gains an undelivered step at it; when there is no such instant the set never grows again.
\<close>

theorem next_due_at_exact:
  assumes "sorted (map after_seconds (steps (policy s)))" and "\<not> is_stopped s" and "now \<le> tm"
  shows "(case next_due_at s now of
      Some t \<Rightarrow> now < t \<and> (tm < t \<longrightarrow> set (due_steps s tm) = set (due_steps s now)) \<and>
        (\<exists>i < length (steps (policy s)). i \<notin> delivered s \<and>
           t = opened_at s + seconds (after_seconds (steps (policy s) ! i)))
    | None \<Rightarrow> set (due_steps s tm) = set (due_steps s now))"
proof -
  let ?ss = "steps (policy s)"
  let ?due = "\<lambda>i. opened_at s + seconds (after_seconds (?ss ! i))"
  let ?f = "\<lambda>(i, st). if i \<in> delivered s then None
      else let due = opened_at s + seconds (after_seconds st) in if now < due then Some due else None"
  have eq: "next_due_at s now = first_some ?f (indexed ?ss)"
    using assms(2) by (simp add: next_due_at_def)
  have mono: "?due i \<le> ?due j" if "i \<le> j" "j < length ?ss" for i j
    using assms(1) that by (auto simp: sorted_iff_nth_mono)
  have same: "set (due_steps s tm) = set (due_steps s now)"
    if "\<forall>i < length ?ss. i \<notin> delivered s \<longrightarrow> now < ?due i \<longrightarrow> tm < ?due i"
  proof -
    have "seconds (after_seconds (?ss ! i)) \<le> tm - opened_at s
        \<longleftrightarrow> seconds (after_seconds (?ss ! i)) \<le> now - opened_at s"
      if "i < length ?ss" "i \<notin> delivered s" for i
      using \<open>\<forall>i < length ?ss. _ i\<close> [rule_format, OF that] assms(3) by linarith
    then have "st \<in> set (due_steps s tm) \<longleftrightarrow> st \<in> set (due_steps s now)" for st
      unfolding due_steps_iff by blast
    then show ?thesis by blast
  qed
  show ?thesis
  proof (cases "next_due_at s now")
    case None
    with eq have "first_some ?f (indexed ?ss) = None" by simp
    then have none: "\<forall>p \<in> set (indexed ?ss). ?f p = None" unfolding first_some_None_iff .
    have "?f (i, ?ss ! i) = None" if "i < length ?ss" for i
      by (rule none [THEN bspec]) (simp add: set_indexed that)
    then have "\<forall>i < length ?ss. i \<notin> delivered s \<longrightarrow> \<not> now < ?due i"
      by (simp add: Let_def) (metis option.distinct(1))
    with same None show ?thesis by simp
  next
    case (Some t)
    from first_some_least [OF Some [unfolded eq]] obtain i where
      k: "i < length (indexed ?ss)" "?f (indexed ?ss ! i) = Some t"
        "\<forall>j < i. ?f (indexed ?ss ! j) = None"
      by blast
    have entry: "indexed ?ss ! j = (j, ?ss ! j)" if "j < length ?ss" for j
      using that by (simp add: nth_enumerate_eq)
    have i: "i < length ?ss" "i \<notin> delivered s" "t = ?due i" "now < t"
      using k(1,2) entry [of i] by (auto simp: Let_def split: if_splits)
    have earlier: "\<forall>j < i. j \<notin> delivered s \<longrightarrow> \<not> now < ?due j"
      using k(3) entry i(1) by (auto simp: Let_def split: if_splits)
    have "tm < ?due j" if "tm < t" "j < length ?ss" "j \<notin> delivered s" "now < ?due j" for j
      using that earlier mono [of i j] i by (cases "j < i") (auto simp: seconds_def)
    with same have "tm < t \<longrightarrow> set (due_steps s tm) = set (due_steps s now)" by blast
    with i Some show ?thesis by auto
  qed
qed

theorem next_due_at_exact_witness:
  "next_due_at fresh_alarm (10 * second) = Some (60 * second) \<and>
   set (due_steps fresh_alarm (59 * second)) = set (due_steps fresh_alarm (10 * second))"
proof -
  have h: "sorted (map after_seconds (steps (policy fresh_alarm)))" "\<not> is_stopped fresh_alarm"
    "10 * second \<le> 59 * second"
    by (simp_all add: fresh_alarm_def default_policy_def role_step_def is_stopped_def)
  have n: "next_due_at fresh_alarm (10 * second) = Some (60 * second)"
    by (simp add: next_due_at_def fresh_alarm_def is_stopped_def default_policy_def role_step_def
        seconds_def)
  from next_due_at_exact [OF h] n show ?thesis by simp
qed

end
