(* ===== verification/Suppression.thy ===== *)
theory Suppression
  imports Prelude
begin

text \<open>
  Alarm suppression, \<^verbatim>\<open>backend/app/modules/alarms/suppression.py\<close>: the levels, the
  outage state with its four marks, and the decision whether a bigger outage already
  explains a symptom.
\<close>

section \<open>Levels and outages\<close>

datatype alarm_level = CHANNEL | DEVICE | SITE

fun level_int :: "alarm_level \<Rightarrow> nat" where
  "level_int CHANNEL = 1"
| "level_int DEVICE = 2"
| "level_int SITE = 3"

lemma level_int_inject [simp]: "level_int a = level_int b \<longleftrightarrow> a = b"
  by (cases a; cases b) simp_all

instantiation alarm_level :: linorder
begin

definition less_eq_alarm_level :: "alarm_level \<Rightarrow> alarm_level \<Rightarrow> bool" where
  "less_eq_alarm_level a b \<longleftrightarrow> level_int a \<le> level_int b"

definition less_alarm_level :: "alarm_level \<Rightarrow> alarm_level \<Rightarrow> bool" where
  "less_alarm_level a b \<longleftrightarrow> level_int a < level_int b"

instance
  by standard (auto simp: less_eq_alarm_level_def less_alarm_level_def)

end

definition never_suppressed :: "string set" where
  "never_suppressed = {''person_detected'', ''vehicle_detected'', ''line_crossing'',
     ''zone_intrusion'', ''video_tampering'', ''device_silent'', ''site_offline''}"

definition level_by_event :: "string \<rightharpoonup> alarm_level" where
  "level_by_event = map_of
     [(''site_offline'', SITE), (''device_silent'', DEVICE), (''device_offline'', DEVICE),
      (''storage_not_exist'', DEVICE), (''storage_failure'', DEVICE),
      (''storage_low_space'', DEVICE), (''video_loss'', CHANNEL), (''video_tampering'', CHANNEL)]"

definition level_for :: "string \<Rightarrow> alarm_level" where
  "level_for event_type = (case level_by_event event_type of Some l \<Rightarrow> l | None \<Rightarrow> CHANNEL)"

record outage_state =
  offline_sites :: "string set"
  silent_devices :: "string set"

definition no_outages :: outage_state where
  "no_outages = \<lparr>offline_sites = {}, silent_devices = {}\<rparr>"

definition mark_site_offline :: "outage_state \<Rightarrow> string \<Rightarrow> outage_state" where
  "mark_site_offline st site = st\<lparr>offline_sites := insert site (offline_sites st)\<rparr>"

definition mark_site_online :: "outage_state \<Rightarrow> string \<Rightarrow> outage_state" where
  "mark_site_online st site = st\<lparr>offline_sites := offline_sites st - {site}\<rparr>"

definition mark_device_silent :: "outage_state \<Rightarrow> string \<Rightarrow> outage_state" where
  "mark_device_silent st dev = st\<lparr>silent_devices := insert dev (silent_devices st)\<rparr>"

definition mark_device_healthy :: "outage_state \<Rightarrow> string \<Rightarrow> outage_state" where
  "mark_device_healthy st dev = st\<lparr>silent_devices := silent_devices st - {dev}\<rparr>"

section \<open>The decision\<close>

datatype suppression_reason =
  Never_suppressed_type | Site_alarm_covers | Device_alarm_covers | Nothing_higher

record suppression_decision =
  suppressed :: bool
  suppression_reason :: suppression_reason
  covered_by :: "alarm_level option"

definition should_suppress :: "string \<Rightarrow> string \<Rightarrow> string \<Rightarrow> outage_state \<Rightarrow> suppression_decision" where
  "should_suppress event_type site_id device_id outages =
     (if event_type \<in> never_suppressed
      then \<lparr>suppressed = False, suppression_reason = Never_suppressed_type, covered_by = None\<rparr>
      else let level = level_for event_type in
        if site_id \<in> offline_sites outages \<and> level < SITE
        then \<lparr>suppressed = True, suppression_reason = Site_alarm_covers, covered_by = Some SITE\<rparr>
        else if device_id \<in> silent_devices outages \<and> level < DEVICE
        then \<lparr>suppressed = True, suppression_reason = Device_alarm_covers, covered_by = Some DEVICE\<rparr>
        else \<lparr>suppressed = False, suppression_reason = Nothing_higher, covered_by = None\<rparr>)"

text \<open>The outage that a decision names is really there.\<close>

fun outage_present :: "alarm_level \<Rightarrow> string \<Rightarrow> string \<Rightarrow> outage_state \<Rightarrow> bool" where
  "outage_present SITE site dev st \<longleftrightarrow> site \<in> offline_sites st"
| "outage_present DEVICE site dev st \<longleftrightarrow> dev \<in> silent_devices st"
| "outage_present CHANNEL site dev st \<longleftrightarrow> False"

lemma suppressed_covered:
  "suppressed (should_suppress ev site dev st) \<Longrightarrow>
   \<exists>l. covered_by (should_suppress ev site dev st) = Some l \<and> level_for ev < l \<and> outage_present l site dev st"
  by (auto simp: should_suppress_def Let_def split: if_splits)

section \<open>Properties\<close>

text \<open>
  Suppression may reduce noise but never hides an incident: a suppressed symptom is not
  one of the security-relevant types, and an outage of a strictly higher level, really
  recorded for that site or that recorder, covers it.
\<close>

theorem suppression_never_hides_incident:
  assumes "suppressed (should_suppress ev site dev outages)"
  shows "ev \<notin> {''person_detected'', ''vehicle_detected'', ''line_crossing'', ''zone_intrusion'',
           ''video_tampering'', ''device_silent'', ''site_offline''} \<and>
    (\<exists>l. covered_by (should_suppress ev site dev outages) = Some l \<and> level_for ev < l \<and>
         outage_present l site dev outages)"
  using suppressed_covered [OF assms] assms
  by (auto simp: should_suppress_def never_suppressed_def split: if_splits)

theorem suppression_never_hides_incident_witness:
  "suppressed (should_suppress ''video_loss'' ''s1'' ''d1'' (mark_device_silent no_outages ''d1'')) \<and>
   ''video_loss'' \<noteq> ''person_detected''"
proof -
  have h: "suppressed (should_suppress ''video_loss'' ''s1'' ''d1'' (mark_device_silent no_outages ''d1''))"
    by (simp add: should_suppress_def never_suppressed_def level_for_def level_by_event_def
        mark_device_silent_def no_outages_def less_alarm_level_def)
  show ?thesis using h suppression_never_hides_incident [OF h] by simp
qed

text \<open>
  Outages of other sites and other recorders are irrelevant, and lifting the outages of
  this site and this recorder lifts every suppression of their symptoms.
\<close>

theorem suppression_is_local:
  assumes "site' \<noteq> site" and "dev' \<noteq> dev"
  shows "should_suppress ev site dev (mark_site_offline (mark_device_silent outages dev') site')
       = should_suppress ev site dev outages \<and>
    \<not> suppressed (should_suppress ev site dev (mark_site_online (mark_device_healthy outages dev) site))"
  using assms by (auto simp: should_suppress_def Let_def mark_site_offline_def mark_device_silent_def
      mark_site_online_def mark_device_healthy_def)

theorem suppression_is_local_witness:
  "''s2'' \<noteq> ''s1'' \<and> ''d2'' \<noteq> ''d1'' \<and>
   should_suppress ''video_loss'' ''s1'' ''d1'' (mark_site_offline (mark_device_silent no_outages ''d2'') ''s2'')
     = should_suppress ''video_loss'' ''s1'' ''d1'' no_outages"
proof -
  have h: "''s2'' \<noteq> ''s1''" "''d2'' \<noteq> ''d1''" by simp_all
  show ?thesis using h suppression_is_local [OF h] by blast
qed

end
