(* ===== verification/Windows.thy ===== *)
theory Windows
  imports Prelude
begin

text \<open>
  The two fixed-window counters of the backend and the contract they share:
  \<^verbatim>\<open>DedupWindow\<close> (\<^verbatim>\<open>modules/events/dedup.py\<close>), which folds repeated
  sightings into one alarm, and \<^verbatim>\<open>RateLimiter\<close>
  (\<^verbatim>\<open>modules/ingest/smtp_server.py\<close>), which bounds the mails one recorder may
  deliver per minute.
\<close>

section \<open>The contract: a counter per key that restarts when its window is over\<close>

locale fixed_window =
  fixes entry :: "'s \<Rightarrow> 'k \<Rightarrow> (instant \<times> int) option"
    and hit :: "'s \<Rightarrow> 'k \<Rightarrow> instant \<Rightarrow> 's"
    and width :: "'s \<Rightarrow> duration"
  assumes opens_new: "entry s k = None \<Longrightarrow> entry (hit s k t) k = Some (t, 1)"
    and opens_late: "entry s k = Some (t0, n) \<Longrightarrow> width s \<le> t - t0 \<Longrightarrow> entry (hit s k t) k = Some (t, 1)"
    and folds: "entry s k = Some (t0, n) \<Longrightarrow> t - t0 < width s \<Longrightarrow> entry (hit s k t) k = Some (t0, n + 1)"
    and frame: "k' \<noteq> k \<Longrightarrow> entry (hit s k t) k' = entry s k'"
    and width_hit: "width (hit s k t) = width s"
begin

fun hits :: "'s \<Rightarrow> ('k \<times> instant) list \<Rightarrow> 's" where
  "hits s [] = s"
| "hits s ((k, t) # hs) = hits (hit s k t) hs"

lemma width_hits: "width (hits s hs) = width s"
  by (induction s hs rule: hits.induct) (simp_all add: width_hit)

lemma hits_frame: "k \<notin> fst ` set hs \<Longrightarrow> entry (hits s hs) k = entry s k"
  by (induction s hs rule: hits.induct) (auto simp: frame)

lemma hits_in_window:
  "entry s k = Some (t0, n) \<Longrightarrow> \<forall>(k', t) \<in> set hs. k' = k \<longrightarrow> t - t0 < width s \<Longrightarrow>
   entry (hits s hs) k = Some (t0, n + int (length (filter (\<lambda>(k', _). k' = k) hs)))"
proof (induction hs arbitrary: s n)
  case Nil
  then show ?case by simp
next
  case (Cons h hs)
  obtain k' t where h: "h = (k', t)" by force
  show ?case
  proof (cases "k' = k")
    case True
    with Cons.prems h have "entry (hit s k t) k = Some (t0, n + 1)" by (auto intro: folds)
    with Cons.IH [of "hit s k t" "n + 1"] Cons.prems h True show ?thesis
      by (simp add: width_hit algebra_simps)
  next
    case False
    then have "entry (hit s k' t) k = Some (t0, n)" using Cons.prems by (simp add: frame)
    with Cons.IH [of "hit s k' t" n] Cons.prems h False show ?thesis by (simp add: width_hit)
  qed
qed

lemma hits_from_open:
  assumes "entry s k = None" and "0 < width s"
    and "\<forall>(k', t) \<in> set hs. k' = k \<longrightarrow> t - t0 < width s"
  shows "entry (hits s ((k, t0) # hs)) k
       = Some (t0, 1 + int (length (filter (\<lambda>(k', _). k' = k) hs)))"
  using hits_in_window [of "hit s k t0" k t0 1 hs] assms by (simp add: opens_new width_hit)

end

section \<open>Event de-duplication\<close>

record dedup_entry =
  first_seen_at :: instant
  last_seen :: instant
  occurrences :: int

definition entry_duration :: "dedup_entry \<Rightarrow> duration" where
  "entry_duration e = last_seen e - first_seen_at e"

record dedup_decision =
  is_duplicate :: bool
  decision_key :: string
  occurrence :: int
  window_started_at :: instant
  total_in_window :: int

definition should_alert :: "dedup_decision \<Rightarrow> bool" where
  "should_alert d \<longleftrightarrow> \<not> is_duplicate d"

record dedup_window =
  window_seconds :: int
  dedup_entries :: "(string, dedup_entry) dict"

definition default_window_seconds :: int where
  "default_window_seconds = 60"

definition new_dedup :: dedup_window where
  "new_dedup = \<lparr>window_seconds = default_window_seconds, dedup_entries = []\<rparr>"

text \<open>The optional argument wins unless it is missing or zero (\<^verbatim>\<open>or\<close> on an int).\<close>

definition effective_window :: "dedup_window \<Rightarrow> int option \<Rightarrow> duration" where
  "effective_window w override = seconds (case override of
      Some n \<Rightarrow> (if n = 0 then window_seconds w else n) | None \<Rightarrow> window_seconds w)"

definition check :: "dedup_window \<Rightarrow> string \<Rightarrow> instant \<Rightarrow> int option \<Rightarrow> dedup_decision \<times> dedup_window" where
  "check w key tm override =
     (let window = effective_window w override;
          fresh = (\<lparr>is_duplicate = False, decision_key = key, occurrence = 1,
                    window_started_at = tm, total_in_window = 1\<rparr>,
                   w\<lparr>dedup_entries := dict_set key
                       \<lparr>first_seen_at = tm, last_seen = tm, occurrences = 1\<rparr> (dedup_entries w)\<rparr>)
      in case map_of (dedup_entries w) key of
           None \<Rightarrow> fresh
         | Some e \<Rightarrow>
             if window \<le> tm - first_seen_at e then fresh
             else let e' = e\<lparr>occurrences := occurrences e + 1, last_seen := max (last_seen e) tm\<rparr>
                  in (\<lparr>is_duplicate = True, decision_key = key, occurrence = occurrences e',
                       window_started_at = first_seen_at e', total_in_window = occurrences e'\<rparr>,
                      w\<lparr>dedup_entries := dict_set key e' (dedup_entries w)\<rparr>))"

definition peek :: "dedup_window \<Rightarrow> string \<Rightarrow> dedup_entry option" where
  "peek w key = map_of (dedup_entries w) key"

definition purge :: "dedup_window \<Rightarrow> instant \<Rightarrow> nat \<times> dedup_window" where
  "purge w before =
     (let stale = map fst (filter (\<lambda>(k, e). first_seen_at e < before) (dedup_entries w))
      in (length stale, w\<lparr>dedup_entries := fold dict_del stale (dedup_entries w)\<rparr>))"

definition dedup_size :: "dedup_window \<Rightarrow> nat" where
  "dedup_size w = length (dedup_entries w)"

definition dedup_hit :: "dedup_window \<Rightarrow> string \<Rightarrow> instant \<Rightarrow> dedup_window" where
  "dedup_hit w key tm = snd (check w key tm None)"

definition dedup_count :: "dedup_window \<Rightarrow> string \<Rightarrow> (instant \<times> int) option" where
  "dedup_count w key = map_option (\<lambda>e. (first_seen_at e, occurrences e)) (peek w key)"

lemmas dedup_defs = check_def peek_def dedup_hit_def dedup_count_def effective_window_def Let_def

interpretation dedup: fixed_window dedup_count dedup_hit "\<lambda>w. seconds (window_seconds w)"
  by unfold_locales (auto simp: dedup_defs split: option.splits)

definition dedup_wf :: "dedup_window \<Rightarrow> bool" where
  "dedup_wf w \<longleftrightarrow> distinct (map fst (dedup_entries w)) \<and>
     (\<forall>e \<in> snd ` set (dedup_entries w). first_seen_at e \<le> last_seen e \<and> 1 \<le> occurrences e)"

lemma set_dict_set_subset: "set (dict_set k v d) \<subseteq> insert (k, v) (set d)"
  by (induction k v d rule: dict_set.induct) auto

lemma dedup_wf_new [inv_intros]: "dedup_wf new_dedup"
  by (simp add: dedup_wf_def new_dedup_def)

lemma dedup_wf_set:
  assumes "dedup_wf w" and "first_seen_at e \<le> last_seen e" and "1 \<le> occurrences e"
  shows "dedup_wf (w\<lparr>dedup_entries := dict_set k e (dedup_entries w)\<rparr>)"
  using assms set_dict_set_subset [of k e "dedup_entries w"]
  by (auto simp: dedup_wf_def distinct_dict_set)

lemma dedup_wf_check [inv_intros]:
  assumes "dedup_wf w"
  shows "dedup_wf (snd (check w key tm override))"
proof (cases "map_of (dedup_entries w) key")
  case None
  with assms show ?thesis by (simp add: check_def dedup_wf_set)
next
  case (Some e)
  then have "(key, e) \<in> set (dedup_entries w)" by (rule map_of_SomeD)
  with assms have "first_seen_at e \<le> last_seen e" and "1 \<le> occurrences e"
    by (force simp: dedup_wf_def)+
  with assms Some show ?thesis by (auto simp: check_def Let_def intro!: dedup_wf_set)
qed

lemma fold_dict_del: "fold dict_del ks d = filter (\<lambda>(k, _). k \<notin> set ks) d"
  by (induction ks arbitrary: d) (auto simp: dict_del_def intro!: filter_cong)

lemma purge_entries:
  assumes "distinct (map fst (dedup_entries w))"
  shows "dedup_entries (snd (purge w before))
       = filter (\<lambda>(k, e). before \<le> first_seen_at e) (dedup_entries w)"
proof -
  have stale: "k \<in> set (map fst (filter (\<lambda>(k, e). first_seen_at e < before) (dedup_entries w)))
      \<longleftrightarrow> first_seen_at e < before" if "(k, e) \<in> set (dedup_entries w)" for k e
    using that assms by (force dest: eq_key_imp_eq_value)
  let ?stale = "set (map fst (filter (\<lambda>(k, e). first_seen_at e < before) (dedup_entries w)))"
  have "dedup_entries (snd (purge w before)) = filter (\<lambda>(k, _). k \<notin> ?stale) (dedup_entries w)"
    by (simp add: purge_def Let_def fold_dict_del)
  also have "\<dots> = filter (\<lambda>(k, e). before \<le> first_seen_at e) (dedup_entries w)"
  proof (rule filter_cong [OF refl])
    fix x assume "x \<in> set (dedup_entries w)"
    then have "fst x \<in> ?stale \<longleftrightarrow> first_seen_at (snd x) < before"
      by (intro stale) simp
    then show "(case x of (k, _) \<Rightarrow> k \<notin> ?stale) = (case x of (k, e) \<Rightarrow> before \<le> first_seen_at e)"
      by (simp only: case_prod_unfold not_less [symmetric])
  qed
  finally show ?thesis .
qed

lemma dedup_wf_purge [inv_intros]: "dedup_wf w \<Longrightarrow> dedup_wf (snd (purge w before))"
  by (auto simp: dedup_wf_def purge_entries distinct_map_filter)

lemma peek_purge:
  assumes "dedup_wf w"
  shows "peek (snd (purge w before)) key =
    (case peek w key of Some e \<Rightarrow> (if before \<le> first_seen_at e then Some e else None) | None \<Rightarrow> None)"
proof -
  have d: "distinct (map fst (dedup_entries w))" using assms by (simp add: dedup_wf_def)
  have *: "distinct (map fst es) \<Longrightarrow> map_of (filter (\<lambda>(k, e). P e) es) key =
      (case map_of es key of Some e \<Rightarrow> (if P e then Some e else None) | None \<Rightarrow> None)"
    for P and es :: "(string \<times> dedup_entry) list"
    by (induction es) (force split: option.splits dest: map_of_SomeD)+
  show ?thesis using * [OF d] by (simp add: peek_def purge_entries [OF d])
qed

section \<open>The rate limiter\<close>

record rate_limiter =
  limit_per_minute :: int
  rate_windows :: "string \<rightharpoonup> instant \<times> int"

definition default_rate_limit :: int where
  "default_rate_limit = 60"

definition new_limiter :: rate_limiter where
  "new_limiter = \<lparr>limit_per_minute = default_rate_limit, rate_windows = Map.empty\<rparr>"

definition allow :: "rate_limiter \<Rightarrow> string \<Rightarrow> instant \<Rightarrow> bool \<times> rate_limiter" where
  "allow r key now =
     (let (start, cnt) = (case rate_windows r key of Some p \<Rightarrow> p | None \<Rightarrow> (now, 0))
      in if minute \<le> now - start
         then (True, r\<lparr>rate_windows := (rate_windows r)(key \<mapsto> (now, 1))\<rparr>)
         else if limit_per_minute r \<le> cnt
         then (False, r\<lparr>rate_windows := (rate_windows r)(key \<mapsto> (start, cnt + 1))\<rparr>)
         else (True, r\<lparr>rate_windows := (rate_windows r)(key \<mapsto> (start, cnt + 1))\<rparr>))"

definition rate_hit :: "rate_limiter \<Rightarrow> string \<Rightarrow> instant \<Rightarrow> rate_limiter" where
  "rate_hit r key now = snd (allow r key now)"

lemmas rate_defs = allow_def rate_hit_def Let_def

interpretation rate: fixed_window rate_windows rate_hit "\<lambda>_. minute"
  by unfold_locales (auto simp: rate_defs split: option.splits prod.splits)

lemma limit_rate_hit [simp]: "limit_per_minute (rate_hit r k t) = limit_per_minute r"
  by (auto simp: rate_defs split: option.splits)

lemma limit_rate_hits [simp]: "limit_per_minute (rate.hits r hs) = limit_per_minute r"
  by (induction r hs rule: rate.hits.induct) simp_all

lemma allow_in_window:
  "rate_windows r key = Some (start, cnt) \<Longrightarrow> now - start < minute \<Longrightarrow>
   fst (allow r key now) \<longleftrightarrow> cnt < limit_per_minute r"
  by (auto simp: rate_defs)

section \<open>Properties\<close>

text \<open>
  Sightings are counted, not discarded: once a sighting has opened a window, every
  further sighting of the same key inside the window is reported as a duplicate of it with
  the running total, however sightings of other cameras interleave; none of them alerts.
\<close>

theorem dedup_counts_sightings:
  assumes "peek w key = None" and "0 < window_seconds w"
    and "\<forall>(k, t) \<in> set hs. k = key \<longrightarrow> t - t0 < seconds (window_seconds w)"
    and "t - t0 < seconds (window_seconds w)"
  shows "should_alert (fst (check w key t0 None)) \<and>
    fst (check (dedup.hits w ((key, t0) # hs)) key t None) =
      \<lparr>is_duplicate = True, decision_key = key,
       occurrence = 2 + int (length (filter (\<lambda>(k, _). k = key) hs)),
       window_started_at = t0,
       total_in_window = 2 + int (length (filter (\<lambda>(k, _). k = key) hs))\<rparr>"
proof -
  let ?n = "1 + int (length (filter (\<lambda>(k, _). k = key) hs))"
  let ?w = "dedup.hits w ((key, t0) # hs)"
  have "dedup_count w key = None" using assms(1) by (simp add: dedup_count_def)
  then have "dedup_count ?w key = Some (t0, ?n)"
    by (rule dedup.hits_from_open) (use assms(2,3) in simp_all)
  then obtain e where e: "map_of (dedup_entries ?w) key = Some e"
    and f: "first_seen_at e = t0" "occurrences e = ?n"
    by (auto simp: dedup_count_def peek_def)
  have "seconds (window_seconds ?w) = seconds (window_seconds w)" by (rule dedup.width_hits)
  with e f assms(4) have "fst (check ?w key t None) =
      \<lparr>is_duplicate = True, decision_key = key, occurrence = ?n + 1,
       window_started_at = t0, total_in_window = ?n + 1\<rparr>"
    by (simp add: check_def effective_window_def Let_def del: dedup.hits.simps)
  then show ?thesis
    using assms(1) by (simp add: check_def peek_def should_alert_def Let_def del: dedup.hits.simps)
qed

theorem dedup_counts_sightings_witness:
  "peek new_dedup ''cam1'' = None \<and>
   fst (check (dedup.hits new_dedup [(''cam1'', 0), (''cam2'', 5 * second), (''cam1'', 9 * second)])
     ''cam1'' (30 * second) None) =
     \<lparr>is_duplicate = True, decision_key = ''cam1'', occurrence = 3, window_started_at = 0,
      total_in_window = 3\<rparr>"
proof -
  have h: "peek new_dedup ''cam1'' = None" "0 < window_seconds new_dedup"
    "\<forall>(k, t) \<in> set [(''cam2'', 5 * second), (''cam1'', 9 * second)].
       k = ''cam1'' \<longrightarrow> t - 0 < seconds (window_seconds new_dedup)"
    "30 * second - 0 < seconds (window_seconds new_dedup)"
    by (simp_all add: peek_def new_dedup_def default_window_seconds_def seconds_def)
  show ?thesis using dedup_counts_sightings [OF h] h(1) by simp
qed

text \<open>
  Cleaning up never changes a verdict: purging every window that opened a full window
  length or more before the next sighting leaves the decision about that sighting, for
  every key, as it was.
\<close>

theorem purge_invisible:
  assumes "dedup_wf w" and "before \<le> tm - seconds (window_seconds w)"
  shows "fst (check (snd (purge w before)) key tm None) = fst (check w key tm None) \<and>
    dedup_wf (snd (purge w before))"
proof
  have win: "window_seconds (snd (purge w before)) = window_seconds w"
    by (simp add: purge_def Let_def)
  show "fst (check (snd (purge w before)) key tm None) = fst (check w key tm None)"
    using peek_purge [OF assms(1), of before key] assms(2)
    by (auto simp: check_def peek_def effective_window_def win Let_def split: option.splits)
  show "dedup_wf (snd (purge w before))"
    using assms(1) by (rule dedup_wf_purge)
qed

theorem purge_invisible_witness:
  "dedup_wf (dedup_hit new_dedup ''k'' 0) \<and>
   fst (check (snd (purge (dedup_hit new_dedup ''k'' 0) (5 * second))) ''k'' (65 * second) None)
     = fst (check (dedup_hit new_dedup ''k'' 0) ''k'' (65 * second) None)"
proof -
  have h: "dedup_wf (dedup_hit new_dedup ''k'' 0)"
    unfolding dedup_hit_def by (intro inv_intros)
  have "5 * second \<le> 65 * second - seconds (window_seconds (dedup_hit new_dedup ''k'' 0))"
    by (simp add: dedup_defs new_dedup_def default_window_seconds_def seconds_def)
  from purge_invisible [OF h this, of "''k''"] h show ?thesis by simp
qed

text \<open>
  Within the minute that a recorder's first mail opens, exactly the first
  \<^verbatim>\<open>limit_per_minute\<close> mails of that recorder are let through, whatever the other
  recorders send in between.
\<close>

theorem rate_limit_exact:
  assumes "rate_windows r key = None" and "0 < limit_per_minute r"
    and "\<forall>(k, t) \<in> set hs. k = key \<longrightarrow> t - t0 < minute" and "t - t0 < minute"
  shows "fst (allow r key t0) \<and>
    (fst (allow (rate.hits r ((key, t0) # hs)) key t) \<longleftrightarrow>
       1 + int (length (filter (\<lambda>(k, _). k = key) hs)) < limit_per_minute r)"
proof
  show "fst (allow r key t0)" using assms(1,2) by (simp add: rate_defs)
  have "rate_windows (rate.hits r ((key, t0) # hs)) key
      = Some (t0, 1 + int (length (filter (\<lambda>(k, _). k = key) hs)))"
    using assms(1,3) by (intro rate.hits_from_open) simp_all
  from allow_in_window [OF this assms(4)] show
    "fst (allow (rate.hits r ((key, t0) # hs)) key t) \<longleftrightarrow>
       1 + int (length (filter (\<lambda>(k, _). k = key) hs)) < limit_per_minute r"
    by (simp add: limit_rate_hits del: rate.hits.simps)
qed

theorem rate_limit_exact_witness:
  "rate_windows (new_limiter\<lparr>limit_per_minute := 2\<rparr>) ''d'' = None \<and>
   \<not> fst (allow (rate.hits (new_limiter\<lparr>limit_per_minute := 2\<rparr>) [(''d'', 0), (''e'', 1), (''d'', 2)]) ''d'' 3)"
proof -
  let ?r = "new_limiter\<lparr>limit_per_minute := 2\<rparr>"
  have h: "rate_windows ?r ''d'' = None" "0 < limit_per_minute ?r"
    "\<forall>(k, t) \<in> set [(''e'', 1), (''d'', 2)]. k = ''d'' \<longrightarrow> t - 0 < minute" "(3::int) - 0 < minute"
    by (simp_all add: new_limiter_def)
  show ?thesis using rate_limit_exact [OF h] h(1) by simp
qed

end
