(* ===== verification/Lifecycle.thy ===== *)
theory Lifecycle
  imports Prelude
begin

text \<open>
  Event lifecycle, \<^verbatim>\<open>backend/app/modules/events/lifecycle.py\<close>: the statuses and
  their transition table, the object that records an event's history, and the invariant
  that this history is a legal path of the table from NEW.
\<close>

section \<open>Statuses, resolution codes, the table\<close>

datatype event_status =
    NEW | VERIFYING | VERIFIED | ALERTED | ACKNOWLEDGED | RESOLVED | FALSE_POSITIVE | SUPPRESSED

fun status_value :: "event_status \<Rightarrow> string" where
  "status_value NEW = ''NEW''"
| "status_value VERIFYING = ''VERIFYING''"
| "status_value VERIFIED = ''VERIFIED''"
| "status_value ALERTED = ''ALERTED''"
| "status_value ACKNOWLEDGED = ''ACKNOWLEDGED''"
| "status_value RESOLVED = ''RESOLVED''"
| "status_value FALSE_POSITIVE = ''FALSE_POSITIVE''"
| "status_value SUPPRESSED = ''SUPPRESSED''"

fun event_transitions :: "event_status \<Rightarrow> event_status set" where
  "event_transitions NEW = {VERIFYING, ALERTED, SUPPRESSED, FALSE_POSITIVE}"
| "event_transitions VERIFYING = {VERIFIED, FALSE_POSITIVE, ALERTED}"
| "event_transitions VERIFIED = {ALERTED, FALSE_POSITIVE}"
| "event_transitions ALERTED = {ACKNOWLEDGED, RESOLVED, FALSE_POSITIVE}"
| "event_transitions ACKNOWLEDGED = {RESOLVED, FALSE_POSITIVE}"
| "event_transitions RESOLVED = {}"
| "event_transitions FALSE_POSITIVE = {}"
| "event_transitions SUPPRESSED = {}"

definition terminal_states :: "event_status set" where
  "terminal_states = {RESOLVED, FALSE_POSITIVE, SUPPRESSED}"

datatype resolution_code =
    RC_TRUE_SECURITY_INCIDENT | RC_SUSPICIOUS_ACTIVITY | RC_AUTHORIZED_PERSON
  | RC_FALSE_POSITIVE | RC_ANIMAL | RC_WEATHER | RC_LIGHT_CHANGE | RC_MAINTENANCE
  | RC_CAMERA_ERROR | RC_OTHER

fun resolution_value :: "resolution_code \<Rightarrow> string" where
  "resolution_value RC_TRUE_SECURITY_INCIDENT = ''TRUE_SECURITY_INCIDENT''"
| "resolution_value RC_SUSPICIOUS_ACTIVITY = ''SUSPICIOUS_ACTIVITY''"
| "resolution_value RC_AUTHORIZED_PERSON = ''AUTHORIZED_PERSON''"
| "resolution_value RC_FALSE_POSITIVE = ''FALSE_POSITIVE''"
| "resolution_value RC_ANIMAL = ''ANIMAL''"
| "resolution_value RC_WEATHER = ''WEATHER''"
| "resolution_value RC_LIGHT_CHANGE = ''LIGHT_CHANGE''"
| "resolution_value RC_MAINTENANCE = ''MAINTENANCE''"
| "resolution_value RC_CAMERA_ERROR = ''CAMERA_ERROR''"
| "resolution_value RC_OTHER = ''OTHER''"

definition is_true_positive :: "resolution_code \<Rightarrow> bool" where
  "is_true_positive c \<longleftrightarrow> c \<in> {RC_TRUE_SECURITY_INCIDENT, RC_SUSPICIOUS_ACTIVITY}"

definition can_transition :: "event_status \<Rightarrow> event_status \<Rightarrow> bool" where
  "can_transition cur tgt \<longleftrightarrow> tgt \<in> event_transitions cur"

lemma terminal_iff_stuck: "s \<in> terminal_states \<longleftrightarrow> (\<forall>t. \<not> can_transition s t)"
  by (cases s) (auto simp: terminal_states_def can_transition_def)

text \<open>A rank that every transition raises: the table has no cycle.\<close>

fun stage :: "event_status \<Rightarrow> nat" where
  "stage NEW = 0"
| "stage VERIFYING = 1"
| "stage VERIFIED = 2"
| "stage ALERTED = 3"
| "stage ACKNOWLEDGED = 4"
| "stage RESOLVED = 5"
| "stage FALSE_POSITIVE = 5"
| "stage SUPPRESSED = 5"

lemma can_transition_stage: "can_transition s t \<Longrightarrow> stage s < stage t"
  by (cases s) (auto simp: can_transition_def)

lemma stage_le_5: "stage s \<le> 5"
  by (cases s) simp_all

section \<open>The tracked lifecycle\<close>

record transition_record =
  tr_at :: instant
  from_status :: event_status
  to_status :: event_status
  actor_id :: "uuid option"
  note_text :: "string option"

record event_lifecycle =
  status :: event_status
  history :: "transition_record list"

datatype illegal_transition = Illegal_transition event_status event_status

definition new_lifecycle :: event_lifecycle where
  "new_lifecycle = \<lparr>status = NEW, history = []\<rparr>"

definition transition :: "event_lifecycle \<Rightarrow> event_status \<Rightarrow> instant \<Rightarrow> uuid option \<Rightarrow> string option
    \<Rightarrow> illegal_transition + transition_record \<times> event_lifecycle" where
  "transition lc target tm actor txt =
     (if \<not> can_transition (status lc) target
      then Inl (Illegal_transition (status lc) target)
      else let rec = \<lparr>tr_at = tm, from_status = status lc, to_status = target,
                      actor_id = actor, note_text = txt\<rparr>
           in Inr (rec, lc\<lparr>status := target, history := history lc @ [rec]\<rparr>))"

definition is_terminal :: "event_lifecycle \<Rightarrow> bool" where
  "is_terminal lc \<longleftrightarrow> status lc \<in> terminal_states"

definition first_reached :: "event_status \<Rightarrow> event_lifecycle \<Rightarrow> instant option" where
  "first_reached s lc = map_option tr_at (find (\<lambda>r. to_status r = s) (history lc))"

definition lc_opened_at :: "event_lifecycle \<Rightarrow> instant option" where
  "lc_opened_at lc = first_reached ALERTED lc"

definition lc_acknowledged_at :: "event_lifecycle \<Rightarrow> instant option" where
  "lc_acknowledged_at lc = first_reached ACKNOWLEDGED lc"

definition lc_latency :: "event_lifecycle \<Rightarrow> duration option" where
  "lc_latency lc = (case (lc_opened_at lc, lc_acknowledged_at lc) of
     (Some opened, Some acked) \<Rightarrow> Some (acked - opened) | _ \<Rightarrow> None)"

section \<open>Reachable lifecycles\<close>

text \<open>A rejected transition raises and leaves the object as it was, so only accepted ones step.\<close>

inductive lc_step :: "event_lifecycle \<Rightarrow> instant \<Rightarrow> event_lifecycle \<Rightarrow> bool" where
  accepted: "transition lc target tm actor txt = Inr (rec, lc') \<Longrightarrow> lc_step lc tm lc'"

inductive lc_reachable :: "event_lifecycle \<Rightarrow> bool" where
  start: "lc_reachable new_lifecycle"
| step: "lc_reachable lc \<Longrightarrow> lc_step lc tm lc' \<Longrightarrow> lc_reachable lc'"

inductive_cases lc_stepE: "lc_step lc tm lc'"

fun legal_path :: "event_status \<Rightarrow> transition_record list \<Rightarrow> event_status \<Rightarrow> bool" where
  "legal_path s [] t \<longleftrightarrow> s = t"
| "legal_path s (r # rs) t \<longleftrightarrow>
     from_status r = s \<and> can_transition s (to_status r) \<and> legal_path (to_status r) rs t"

lemma legal_path_append:
  "legal_path s (rs @ [r]) t \<longleftrightarrow>
     legal_path s rs (from_status r) \<and> can_transition (from_status r) (to_status r) \<and> t = to_status r"
  by (induction rs arbitrary: s) auto

lemma legal_path_stage: "legal_path s rs t \<Longrightarrow> stage s + length rs \<le> stage t"
proof (induction rs arbitrary: s)
  case Nil
  then show ?case by simp
next
  case (Cons r rs)
  from Cons.prems have "stage s < stage (to_status r)" and "legal_path (to_status r) rs t"
    by (auto dest: can_transition_stage)
  with Cons.IH [of "to_status r"] show ?case by simp
qed

lemma lc_step_path:
  "lc_step lc tm lc' \<Longrightarrow> legal_path NEW (history lc) (status lc) \<Longrightarrow>
   legal_path NEW (history lc') (status lc')"
  by (elim lc_stepE) (auto simp: transition_def Let_def legal_path_append split: if_splits)

lemma lc_reachable_path: "lc_reachable lc \<Longrightarrow> legal_path NEW (history lc) (status lc)"
  by (induction rule: lc_reachable.induct) (simp add: new_lifecycle_def, blast intro: lc_step_path)

lemma lc_step_terminal: "lc_step lc tm lc' \<Longrightarrow> \<not> is_terminal lc"
  by (elim lc_stepE) (auto simp: transition_def is_terminal_def terminal_iff_stuck split: if_splits)

lemma legal_path_before_ack:
  "legal_path s rs t \<Longrightarrow> r \<in> set rs \<Longrightarrow> to_status r = ACKNOWLEDGED \<Longrightarrow> s \<noteq> ALERTED \<Longrightarrow>
   \<exists>q \<in> set rs. to_status q = ALERTED"
proof (induction rs arbitrary: s)
  case Nil
  then show ?case by simp
next
  case (Cons q rs)
  show ?case
  proof (cases "to_status q = ALERTED")
    case True
    then show ?thesis by simp
  next
    case False
    have "to_status q \<noteq> ACKNOWLEDGED"
      using Cons.prems(1,4) by (cases s) (auto simp: can_transition_def)
    with Cons.prems have "r \<in> set rs" by auto
    with Cons.IH [of "to_status q"] Cons.prems False show ?thesis by auto
  qed
qed

text \<open>
  C22. However an event is driven, its recorded history is a legal path of the transition
  table from NEW to the current status; it has at most five entries, and it ends as soon as
  a terminal status is reached.
\<close>

theorem history_is_legal_path:
  assumes "lc_reachable lc"
  shows "legal_path NEW (history lc) (status lc) \<and> length (history lc) \<le> 5 \<and>
    (is_terminal lc \<longrightarrow> (\<forall>tm lc'. \<not> lc_step lc tm lc'))"
proof (intro conjI impI allI)
  show path: "legal_path NEW (history lc) (status lc)"
    using assms by (rule lc_reachable_path)
  show "length (history lc) \<le> 5"
    using legal_path_stage [OF path] stage_le_5 [of "status lc"] by simp
  show "\<not> lc_step lc tm lc'" if "is_terminal lc" for tm lc'
    using that lc_step_terminal [of lc tm lc'] by blast
qed

definition sample_lifecycle :: event_lifecycle where
  "sample_lifecycle = \<lparr>status = ALERTED,
     history = [\<lparr>tr_at = 7, from_status = NEW, to_status = ALERTED, actor_id = None, note_text = None\<rparr>]\<rparr>"

lemma sample_reachable: "lc_reachable sample_lifecycle"
proof (rule lc_reachable.step [OF lc_reachable.start])
  show "lc_step new_lifecycle 7 sample_lifecycle"
    by (rule lc_step.accepted [of _ ALERTED 7 None None])
      (simp add: transition_def new_lifecycle_def sample_lifecycle_def can_transition_def Let_def)
qed

theorem history_is_legal_path_witness:
  "lc_reachable sample_lifecycle \<and> legal_path NEW (history sample_lifecycle) ALERTED"
  using sample_reachable history_is_legal_path [OF sample_reachable]
  by (simp add: sample_lifecycle_def)

text \<open>
  A transition is accepted exactly when the table allows it; an accepted one sets the
  status and appends one record of it, a rejected one names the attempted jump, and nothing
  leaves a terminal status.
\<close>

theorem transition_follows_table:
  "(case transition lc target tm actor txt of
      Inl e \<Rightarrow> \<not> can_transition (status lc) target \<and> e = Illegal_transition (status lc) target
    | Inr (r, lc') \<Rightarrow> can_transition (status lc) target \<and> status lc \<notin> terminal_states \<and>
        status lc' = target \<and> history lc' = history lc @ [r] \<and>
        from_status r = status lc \<and> to_status r = target \<and> tr_at r = tm \<and> actor_id r = actor)"
  using terminal_iff_stuck [of "status lc"] by (auto simp: transition_def Let_def)

text \<open>
  In every reachable lifecycle an acknowledgement presupposes an alert, so whenever the
  acknowledgement instant is known the latency the platform reports is defined.
\<close>

theorem acknowledged_implies_latency:
  assumes "lc_reachable lc" and "lc_acknowledged_at lc = Some acked"
  shows "\<exists>opened. lc_opened_at lc = Some opened \<and> lc_latency lc = Some (acked - opened)"
proof -
  from assms(2) obtain r where r: "r \<in> set (history lc)" "to_status r = ACKNOWLEDGED"
    by (force simp: lc_acknowledged_at_def first_reached_def find_Some_iff)
  have "\<exists>q \<in> set (history lc). to_status q = ALERTED"
    using legal_path_before_ack [OF lc_reachable_path [OF assms(1)] r] by simp
  then have "find (\<lambda>q. to_status q = ALERTED) (history lc) \<noteq> None"
    by (auto simp: find_None_iff)
  then obtain opened where "lc_opened_at lc = Some opened"
    by (auto simp: lc_opened_at_def first_reached_def)
  with assms(2) show ?thesis by (simp add: lc_latency_def)
qed

definition acked_lifecycle :: event_lifecycle where
  "acked_lifecycle = \<lparr>status = ACKNOWLEDGED, history = history sample_lifecycle @
     [\<lparr>tr_at = 9, from_status = ALERTED, to_status = ACKNOWLEDGED, actor_id = Some 1, note_text = None\<rparr>]\<rparr>"

lemma acked_reachable: "lc_reachable acked_lifecycle"
proof (rule lc_reachable.step [OF sample_reachable])
  show "lc_step sample_lifecycle 9 acked_lifecycle"
    by (rule lc_step.accepted [of _ ACKNOWLEDGED 9 "Some 1" None])
      (simp add: transition_def sample_lifecycle_def acked_lifecycle_def can_transition_def Let_def)
qed

theorem acknowledged_implies_latency_witness:
  "lc_reachable acked_lifecycle \<and> lc_acknowledged_at acked_lifecycle = Some 9 \<and>
   lc_latency acked_lifecycle = Some 2"
proof -
  have h: "lc_acknowledged_at acked_lifecycle = Some 9"
    by (simp add: lc_acknowledged_at_def first_reached_def acked_lifecycle_def sample_lifecycle_def)
  have "lc_opened_at acked_lifecycle = Some 7"
    by (simp add: lc_opened_at_def first_reached_def acked_lifecycle_def sample_lifecycle_def)
  with acknowledged_implies_latency [OF acked_reachable h] acked_reachable h
  show ?thesis by auto
qed

end
