(* ===== verification/Payload.thy ===== *)
theory Payload
  imports Identifiers Risk
begin

text \<open>
  Push payloads, \<^verbatim>\<open>backend/app/modules/notifications/payload.py\<close>: how one is built
  from an alarm, what it renders to, and the scan that refuses to send a stream URL or a
  credential.  The rendering of an aware \<^verbatim>\<open>datetime\<close> depends on the zone it carries,
  which instants do not record, so \<^verbatim>\<open>isoformat\<close> is the parameter \<open>isof\<close>.
\<close>

section \<open>The forbidden pattern\<close>

text \<open>
  \<^verbatim>\<open>(?i)(rtsp://|\bpassword\b|\bpasswd\b|://[^/@\s]+:[^/@\s]+@)\<close> tried at one position;
  the result is the text it matches.  In the last alternative the run of admissible
  characters cannot contain its own end marker, so the match ends at the first
  \<^verbatim>\<open>@\<close> after it and needs a colon strictly inside the run.
\<close>

definition userinfo_char :: "char \<Rightarrow> bool" where
  "userinfo_char c \<longleftrightarrow> c \<noteq> CHR ''/'' \<and> c \<noteq> CHR ''@'' \<and> \<not> is_blank c"

definition userinfo_here :: "string \<Rightarrow> string option" where
  "userinfo_here s =
    (if take 3 s = ''://''
     then let run = takeWhile userinfo_char (drop 3 s); rest = drop (3 + length run) s
          in if take 1 rest = ''@'' \<and> CHR '':'' \<in> set (butlast (tl run))
             then Some (''://'' @ run @ ''@'') else None
     else None)"

definition forbidden_here :: "char option \<Rightarrow> string \<Rightarrow> string option" where
  "forbidden_here prev s =
    (if starts_ci ''rtsp://'' s then Some (take 7 s)
     else if whole_word ''password'' prev s then Some (take 8 s)
     else if whole_word ''passwd'' prev s then Some (take 6 s)
     else userinfo_here s)"

fun forbidden :: "char option \<Rightarrow> string \<Rightarrow> string option" where
  "forbidden prev [] = None"
| "forbidden prev (c # cs) =
     (case forbidden_here prev (c # cs) of Some m \<Rightarrow> Some m | None \<Rightarrow> forbidden (Some c) cs)"

section \<open>Payloads\<close>

definition titles :: "(string \<times> string) list" where
  "titles =
    [(''person_detected'', u_dotI @ ''nsan alg'' @ u_i @ ''land'' @ u_i),
     (''vehicle_detected'', ''Ara'' @ u_c @ '' alg'' @ u_i @ ''land'' @ u_i),
     (''line_crossing'', u_C @ ''izgi ge'' @ u_c @ ''i'' @ u_s @ ''i''),
     (''zone_intrusion'', ''B'' @ u_o @ ''lge ihlali''),
     (''video_tampering'', ''Kameraya m'' @ u_u @ ''dahale''),
     (''video_loss'', ''Kamera g'' @ u_o @ ''r'' @ u_u @ ''nt'' @ u_u @ ''s'' @ u_u @ '' kayboldu''),
     (''storage_failure'', ''Disk hatas'' @ u_i),
     (''storage_low_space'', ''Disk alan'' @ u_i @ '' azald'' @ u_i),
     (''device_silent'', ''Cihaz sessizle'' @ u_s @ ''ti''),
     (''site_offline'', u_S @ ''antiye ba'' @ u_g @ ''lant'' @ u_i @ ''s'' @ u_i @ '' kesildi''),
     (''unknown_alarm'', ''Alarm'')]"

definition title_for :: "string \<Rightarrow> string" where
  "title_for event_type = (case map_of titles event_type of Some t \<Rightarrow> t | None \<Rightarrow> ''Alarm'')"

record push_payload =
  push_event :: uuid
  push_alarm :: uuid
  push_severity :: severity
  push_site :: string
  push_camera :: string
  push_title :: string
  push_body :: string
  push_occurred :: instant
  push_risk :: int
  push_reasons :: "string list"
  push_snapshot :: bool
  push_type :: string

text \<open>\<^verbatim>\<open>body_parts\<close>; no reasons and \<^const>\<open>None\<close> are both the empty list here.\<close>

definition body_parts :: "string \<Rightarrow> string \<Rightarrow> string list \<Rightarrow> bool \<Rightarrow> string list" where
  "body_parts site camera reasons ai_unavailable =
    [site @ '' '' @ u_dot @ '' '' @ camera] @
    (if reasons \<noteq> [] then [join_with '', '' (take 3 reasons)] else []) @
    (if ai_unavailable
     then [''AI do'' @ u_g @ ''rulama ge'' @ u_c @ ''ici olarak kullan'' @ u_i @ ''lam'' @ u_i @ ''yor'']
     else [])"

definition build_push :: "uuid \<Rightarrow> uuid \<Rightarrow> severity \<Rightarrow> string \<Rightarrow> string \<Rightarrow> string \<Rightarrow> instant \<Rightarrow> int
    \<Rightarrow> string list \<Rightarrow> bool \<Rightarrow> bool \<Rightarrow> push_payload" where
  "build_push event alarm sev site camera event_type occurred risk reasons snapshot ai_unavailable =
    \<lparr>push_event = event, push_alarm = alarm, push_severity = sev, push_site = site,
     push_camera = camera,
     push_title = (if sev = CRITICAL then ''KR'' @ u_dotI @ ''T'' @ u_dotI @ ''K: '' @ title_for event_type
                   else title_for event_type),
     push_body = join_with ('' '' @ u_dash @ '' '') (body_parts site camera reasons ai_unavailable),
     push_occurred = occurred, push_risk = risk, push_reasons = reasons,
     push_snapshot = snapshot, push_type = ''security_alert''\<rparr>"

datatype unsafe_payload = Unsafe_payload string

definition payload_fields :: "(instant \<Rightarrow> string) \<Rightarrow> push_payload \<Rightarrow> (string \<times> pyval) list" where
  "payload_fields isof p =
    [(''type'', PStr (push_type p)),
     (''event_id'', PStr (uuid_text (push_event p))),
     (''alarm_id'', PStr (uuid_text (push_alarm p))),
     (''severity'', PStr (severity_value (push_severity p))),
     (''site_name'', PStr (push_site p)),
     (''camera_name'', PStr (push_camera p)),
     (''title'', PStr (push_title p)),
     (''body'', PStr (push_body p)),
     (''occurred_at'', PStr (isof (push_occurred p))),
     (''risk_score'', PInt (push_risk p)),
     (''reasons'', PList (map PStr (push_reasons p))),
     (''has_snapshot'', PBool (push_snapshot p))]"

definition assert_safe :: "(string \<times> pyval) list \<Rightarrow> unsafe_payload + unit" where
  "assert_safe kvs = (case forbidden None (py_text (PDict kvs)) of
     Some m \<Rightarrow> Inl (Unsafe_payload m) | None \<Rightarrow> Inr ())"

definition payload_dict :: "(instant \<Rightarrow> string) \<Rightarrow> push_payload
    \<Rightarrow> unsafe_payload + (string \<times> pyval) list" where
  "payload_dict isof p =
    bind_err (assert_safe (payload_fields isof p)) (\<lambda>_. Inr (payload_fields isof p))"

definition deep_link :: "push_payload \<Rightarrow> string" where
  "deep_link p = ''nightshift://alarms/'' @ uuid_text (push_alarm p)"

section \<open>What the scan rules out\<close>

lemma forbidden_later:
  assumes "\<And>prev. forbidden_here prev (m @ b) \<noteq> None" and "m \<noteq> []"
  shows "forbidden prev (a @ m @ b) \<noteq> None"
proof (induction a arbitrary: prev)
  case Nil
  from assms obtain c cs where "m @ b = c # cs" by (cases m) auto
  with assms(1) [of prev] show ?case by (auto split: option.splits)
next
  case (Cons c a)
  then show ?case by (auto split: option.splits)
qed

lemma repr_middle:
  assumes "t = a @ m @ b"
  shows "\<exists>x y. py_repr t = x @ concat (map (repr_char (repr_quote t)) m) @ y"
proof -
  define f where "f = repr_char (repr_quote t)"
  have "concat (map f t) = concat (map f a) @ concat (map f m) @ concat (map f b)"
    by (simp add: assms)
  then have "py_repr t = ([repr_quote t] @ concat (map f a)) @ concat (map f m) @
      (concat (map f b) @ [repr_quote t])"
    unfolding py_repr_def f_def [symmetric] by simp
  then show ?thesis unfolding f_def by blast
qed

lemma quote_cases: "repr_quote t = CHR 0x22 \<or> repr_quote t = CHR 0x27"
  by (simp add: repr_quote_def)

lemma repr_char_other:
  "c \<noteq> q \<Longrightarrow> c \<noteq> CHR 0x5C \<Longrightarrow> 32 \<le> (of_char c :: nat) \<Longrightarrow> of_char c \<noteq> (127 :: nat) \<Longrightarrow> repr_char q c = [c]"
  by (auto simp: repr_char_def Let_def)

lemma lower_upper_or_same:
  "lower_char c = d \<Longrightarrow> c = d \<or> (65 \<le> (of_char c :: nat) \<and> of_char c \<le> (90 :: nat))"
  by (auto simp: lower_char_def Let_def split: if_splits)

lemma repr_stable_char:
  assumes "lower_char c \<in> set ''rtsp:/''"
  shows "repr_char (repr_quote t) c = [c]"
proof -
  have "c \<in> set ''rtsp:/'' \<or> (65 \<le> (of_char c :: nat) \<and> of_char c \<le> (90 :: nat))"
    using assms lower_upper_or_same [OF refl, of c] by auto
  then show ?thesis
  proof
    assume "c \<in> set ''rtsp:/''"
    then show ?thesis using quote_cases [of t] by (auto simp: repr_char_def Let_def)
  next
    assume up: "65 \<le> (of_char c :: nat) \<and> of_char c \<le> (90 :: nat)"
    then have "c \<noteq> CHR 0x22" "c \<noteq> CHR 0x27" by auto
    moreover have "c \<noteq> CHR 0x5C" using up by auto
    ultimately show ?thesis using quote_cases [of t] up by (intro repr_char_other) auto
  qed
qed

lemma rtsp_survives_repr:
  assumes "lower m = ''rtsp://''"
  shows "concat (map (repr_char (repr_quote t)) m) = m"
proof -
  have "repr_char (repr_quote t) c = [c]" if "c \<in> set m" for c
  proof (rule repr_stable_char)
    have "lower_char c \<in> set (lower m)" using that by (simp add: lower_def)
    then show "lower_char c \<in> set ''rtsp:/''" unfolding assms by auto
  qed
  then show ?thesis by (induction m) auto
qed

lemma rtsp_here:
  assumes "lower m = ''rtsp://''"
  shows "forbidden_here prev (m @ b) \<noteq> None"
proof -
  have "length m = length (lower m)" by simp
  also have "\<dots> = 7" unfolding assms by simp
  finally have "starts_ci ''rtsp://'' (m @ b)" using assms by (simp add: starts_ci_def)
  then show ?thesis by (simp add: forbidden_here_def)
qed

lemma hex_userinfo: "hex_val c \<noteq> None \<Longrightarrow> userinfo_char c"
  by (auto simp: hex_val_def userinfo_char_def is_blank_def Let_def split: if_splits)

lemma hex_fixed_userinfo: "c \<in> set (hex_fixed k n) \<Longrightarrow> userinfo_char c"
proof (induction k arbitrary: n)
  case (Suc k)
  have "userinfo_char (hex_char (n mod 16))" by (rule hex_userinfo) simp
  with Suc show ?case by auto
qed simp

lemma userinfo_repr_char:
  assumes "userinfo_char c" and "d \<in> set (repr_char q c)"
  shows "userinfo_char d"
proof -
  let ?n = "of_char c :: nat"
  have nb: "?n \<noteq> 10" "?n \<noteq> 13" "?n \<noteq> 9"
    using assms(1) by (auto simp: userinfo_char_def is_blank_def Let_def)
  have "d = CHR 0x5C \<or> d = c \<or> d = CHR ''x'' \<or> d \<in> set (hex_fixed 2 ?n)"
    using assms(2) nb unfolding repr_char_def Let_def
    by (simp split: if_splits del: hex_fixed.simps) blast+
  moreover have "userinfo_char (CHR 0x5C)" "userinfo_char (CHR ''x'')"
    by (simp_all add: userinfo_char_def is_blank_def)
  ultimately show ?thesis using assms(1) hex_fixed_userinfo by blast
qed

lemma userinfo_repr:
  "\<forall>c \<in> set u. userinfo_char c \<Longrightarrow> \<forall>c \<in> set (concat (map (repr_char q) u)). userinfo_char c"
  using userinfo_repr_char by auto

lemma repr_char_Nil [simp]: "repr_char q c \<noteq> []"
  by (simp add: repr_char_def Let_def)

lemma repr_chars_Nil [simp]: "concat (map (repr_char q) u) = [] \<longleftrightarrow> u = []"
  by (cases u) auto

lemma userinfo_run:
  "takeWhile userinfo_char (r @ ''@'' @ b) = r \<Longrightarrow> CHR '':'' \<in> set (butlast (tl r)) \<Longrightarrow>
   userinfo_here (''://'' @ r @ ''@'' @ b) \<noteq> None"
  by (simp add: userinfo_here_def Let_def numeral_3_eq_3)

lemma userinfo_matches:
  assumes "\<forall>c \<in> set u. userinfo_char c" "\<forall>c \<in> set w. userinfo_char c" "u \<noteq> []" "w \<noteq> []"
  shows "userinfo_here (''://'' @ (u @ '':'' @ w) @ ''@'' @ b) \<noteq> None"
proof (rule userinfo_run)
  let ?r = "u @ '':'' @ w"
  have "\<forall>c \<in> set ?r. userinfo_char c"
    using assms by (auto simp: userinfo_char_def is_blank_def)
  then show "takeWhile userinfo_char (?r @ ''@'' @ b) = ?r"
    by (subst takeWhile_append2) (auto simp: userinfo_char_def)
  have "tl ?r = tl u @ '':'' @ w" using assms(3) by (cases u) simp_all
  moreover have "butlast (tl u @ '':'' @ w) = tl u @ '':'' @ butlast w"
    using assms(4) by (simp add: butlast_append)
  ultimately show "CHR '':'' \<in> set (butlast (tl ?r))" by simp
qed

text \<open>A text that shows a stream URL, or a URL with a user name and a password.\<close>

definition leaks :: "string \<Rightarrow> bool" where
  "leaks t \<longleftrightarrow> (\<exists>a m b. t = a @ m @ b \<and> lower m = ''rtsp://'') \<or>
     (\<exists>a u w b. t = a @ (''://'' @ (u @ '':'' @ w) @ ''@'') @ b \<and> u \<noteq> [] \<and> w \<noteq> [] \<and>
        (\<forall>c \<in> set u. userinfo_char c) \<and> (\<forall>c \<in> set w. userinfo_char c))"

lemma leak_in_repr:
  assumes "leaks t"
  shows "\<exists>x m y. py_repr t = x @ m @ y \<and> m \<noteq> [] \<and> (\<forall>prev b. forbidden_here prev (m @ b) \<noteq> None)"
  using assms unfolding leaks_def
proof (elim disjE exE conjE)
  fix a m b assume t: "t = a @ m @ b" and m: "lower m = ''rtsp://''"
  then have "m \<noteq> []" by (auto simp: lower_def)
  with repr_middle [OF t] rtsp_survives_repr [OF m, of t] rtsp_here [OF m] show ?thesis
    by metis
next
  fix a u w b
  assume t: "t = a @ (''://'' @ (u @ '':'' @ w) @ ''@'') @ b" and uw: "u \<noteq> []" "w \<noteq> []"
    and c: "\<forall>c \<in> set u. userinfo_char c" "\<forall>c \<in> set w. userinfo_char c"
  define f where "f = repr_char (repr_quote t)"
  let ?m = "''://'' @ (concat (map f u) @ '':'' @ concat (map f w)) @ ''@''"
  have fixed: "f (CHR '':'') = '':''" "f (CHR ''/'') = ''/''" "f (CHR ''@'') = ''@''"
    using quote_cases [of t] by (auto simp: f_def repr_char_def)
  have "concat (map f (''://'' @ (u @ '':'' @ w) @ ''@'')) = ?m"
    by (simp add: fixed)
  with repr_middle [OF t] have ex: "\<exists>x y. py_repr t = x @ ?m @ y" unfolding f_def by metis
  have "forbidden_here prev (?m @ r) \<noteq> None" for prev r
  proof -
    have "userinfo_here (''://'' @ (concat (map f u) @ '':'' @ concat (map f w)) @ ''@'' @ r) \<noteq> None"
      using uw c by (intro userinfo_matches) (simp_all add: f_def userinfo_repr del: set_concat)
    then show ?thesis by (simp add: forbidden_here_def)
  qed
  with ex show ?thesis by blast
qed

lemma clean_payload:
  assumes "payload_dict isof p = Inr kvs" and "t \<in> set (texts_in (PDict kvs))"
  shows "\<not> leaks t"
proof
  assume "leaks t"
  from leak_in_repr [OF this] obtain x m y where
    m: "py_repr t = x @ m @ y" "m \<noteq> []" "\<And>prev b. forbidden_here prev (m @ b) \<noteq> None" by blast
  from repr_in_text [OF assms(2)] obtain a b where "py_text (PDict kvs) = a @ py_repr t @ b" by blast
  then have "py_text (PDict kvs) = (a @ x) @ m @ (y @ b)" using m(1) by (simp only: append_assoc)
  then have "forbidden None (py_text (PDict kvs)) \<noteq> None"
    using forbidden_later [of m "y @ b" None "a @ x"] m(2,3) by (simp only:) blast
  then have "assert_safe kvs \<noteq> Inr ()" by (auto simp: assert_safe_def)
  with assms(1) show False by (auto simp: payload_dict_def bind_err_Inr_iff)
qed

text \<open>
  C23. Whatever payload is sent, no text in it, key or value, shows an
  \<^verbatim>\<open>rtsp://\<close> URL in any case or a URL carrying a user name and a password.
\<close>

theorem sent_payload_is_clean:
  assumes "payload_dict isof p = Inr kvs" and "t \<in> set (texts_in (PDict kvs))"
  shows "\<not> leaks t"
  using assms by (rule clean_payload)

section \<open>Concrete payloads\<close>

text \<open>Rules that walk the scan over a literal, stopping only where a match can start.\<close>

lemma lower_char_back: "lower_char c = d \<Longrightarrow> c = d \<or> (of_char c :: nat) + 32 = of_char d"
  by (auto simp: lower_char_def Let_def split: if_splits)

lemma lower_char_rp:
  "lower_char c = CHR ''r'' \<Longrightarrow> c = CHR ''r'' \<or> c = CHR ''R''"
  "lower_char c = CHR ''p'' \<Longrightarrow> c = CHR ''p'' \<or> c = CHR ''P''"
proof -
  have "c = d" if "(of_char c :: nat) = of_char d" for d using that by simp
  from this [of "CHR ''R''"] this [of "CHR ''P''"] 
  show "lower_char c = CHR ''r'' \<Longrightarrow> c = CHR ''r'' \<or> c = CHR ''R''"
    "lower_char c = CHR ''p'' \<Longrightarrow> c = CHR ''p'' \<or> c = CHR ''P''"
    by (auto dest!: lower_char_back simp del: of_char_eq_iff)
qed

lemma forbidden_skip:
  assumes "c \<noteq> CHR ''r''" "c \<noteq> CHR ''p''" "c \<noteq> CHR '':''" "c \<noteq> CHR ''R''" "c \<noteq> CHR ''P''"
  shows "forbidden prev (c # cs) = forbidden (Some c) cs"
proof -
  have l: "lower_char c \<noteq> CHR ''r''" "lower_char c \<noteq> CHR ''p''" using assms lower_char_rp by blast+
  then have "\<not> starts_ci ''rtsp://'' (c # cs)" "\<not> starts_ci ''password'' (c # cs)" "\<not> starts_ci ''passwd'' (c # cs)"
    using assms by (simp_all add: starts_ci_def lower_def)
  moreover have "userinfo_here (c # cs) = None"
    using assms by (simp add: userinfo_here_def numeral_3_eq_3)
  ultimately show ?thesis by (simp add: forbidden_here_def whole_word_def)
qed

lemma forbidden_look:
  assumes "c \<in> set ''rpRP:''"
  shows "forbidden prev (c # cs) = (case forbidden_here prev (c # cs) of Some m \<Rightarrow> Some m | None \<Rightarrow> forbidden (Some c) cs)"
  by simp

lemma starts_ci_simps:
  "starts_ci [] s \<longleftrightarrow> True" "starts_ci (p # ps) [] \<longleftrightarrow> False"
  "starts_ci (p # ps) (c # cs) \<longleftrightarrow> lower_char c = p \<and> starts_ci ps cs"
  by (auto simp: starts_ci_def lower_def)

definition sample_push :: "string \<Rightarrow> push_payload" where
  "sample_push site = build_push 5 2 HIGH site ''Kapi'' ''person_detected'' 0 70 [''night''] True False"

lemma sample_ids:
  "uuid_text 5 = ''00000000-0000-0000-0000-000000000005''"
  "uuid_text 2 = ''00000000-0000-0000-0000-000000000002''"
  by (simp_all add: uuid_text_def hex_fixed_numeral hex_char_eval)

lemmas render_eval = payload_fields_def sample_push_def build_push_def title_for_def titles_def
  body_parts_def sample_ids show_int_def

lemmas repr_eval = py_repr_def repr_quote_def repr_char_def Let_def show_nat.simps digit_char_eval

lemmas scan_eval = forbidden_skip forbidden_look lower_char_def Let_def forbidden_here_def
  starts_ci_simps whole_word_def userinfo_here_def starts_word_def ends_word_def is_word_def

abbreviation sample_fields :: "string \<Rightarrow> (string \<times> pyval) list" where
  "sample_fields site \<equiv> payload_fields (\<lambda>_. ''2025-01-01'') (sample_push site)"

lemma scan_samples:
  "forbidden None (py_text (PDict (sample_fields ''Depo''))) = None"
  "forbidden None (py_text (PDict (sample_fields (''A'' @ [CHR 0x0A] @ ''password: x'')))) = None"
  "forbidden None (py_text (PDict (sample_fields ''A password: x''))) = Some ''password''"
  by (simp add: render_eval del: forbidden.simps(2),
      simp add: repr_eval del: forbidden.simps(2),
      simp add: scan_eval del: forbidden.simps(2))+

theorem sent_payload_is_clean_witness:
  "payload_dict (\<lambda>_. ''2025-01-01'') (sample_push ''Depo'') = Inr (sample_fields ''Depo'') \<and>
   \<not> leaks ''Depo''"
proof -
  have h: "payload_dict (\<lambda>_. ''2025-01-01'') (sample_push ''Depo'') = Inr (sample_fields ''Depo'')"
    by (simp add: payload_dict_def assert_safe_def scan_samples del: py_text.simps)
  have t: "''Depo'' \<in> set (texts_in (PDict (sample_fields ''Depo'')))"
    by (simp add: payload_fields_def sample_push_def build_push_def)
  from h sent_payload_is_clean [OF h t] show ?thesis by blast
qed

text \<open>
  The scan reads the escaped rendering, so a line break directly before the word
  hides it: a site named with \<^verbatim>\<open>password\<close> at the start of its second line is sent, while
  the same name on one line is refused.
\<close>

theorem line_break_hides_password:
  "payload_dict (\<lambda>_. ''2025-01-01'') (sample_push (''A'' @ [CHR 0x0A] @ ''password: x'')) =
     Inr (sample_fields (''A'' @ [CHR 0x0A] @ ''password: x'')) \<and>
   payload_dict (\<lambda>_. ''2025-01-01'') (sample_push ''A password: x'') =
     Inl (Unsafe_payload ''password'')"
  using scan_samples by (simp add: payload_dict_def assert_safe_def del: py_text.simps append.simps)

end
