(* ===== verification/AlarmFlow.thy ===== *)
theory AlarmFlow
  imports Ingest RuleEngine Escalation Suppression Windows Lifecycle Payload
begin

text \<open>
  One ingested message to one outcome, \<^verbatim>\<open>backend/app/services/alarm_flow.py\<close>: the
  face refusal, suppression, the dedup window, the rules, then alarm, escalation and push,
  in the code's order.  The dedup window is the state; an exception of the rule engine
  escapes with the window already advanced.
\<close>

section \<open>Verdicts, contexts, outcomes\<close>

record ai_verdict =
  ai_available :: bool
  ai_confidence :: "rat option"
  ai_boxes :: "box list"

definition ai_missing :: ai_verdict where
  "ai_missing = \<lparr>ai_available = False, ai_confidence = None, ai_boxes = []\<rparr>"

record site_context =
  sc_name :: string
  sc_timezone :: string
  sc_rules :: "rule list"
  sc_cameras :: "int \<rightharpoonup> string \<times> string"
  sc_zones :: "string \<rightharpoonup> zone list"
  sc_device_silent :: bool
  sc_tampered :: "string set"

datatype flow_stage = STAGE_BLOCKED | STAGE_NO_EVENT | STAGE_SUPPRESSED | STAGE_DUPLICATE
  | STAGE_NO_RULE_MATCH | STAGE_ALARMED

text \<open>The reason texts, by what they are rendered from.\<close>

datatype flow_reason = Face_refused | No_event_produced | Outage_covers suppression_reason
  | Folded_into instant int | Explained "eval_reason list" | Device_missing

record flow_outcome =
  fo_stage :: flow_stage
  fo_reason :: flow_reason
  fo_event_status :: "event_status option"
  fo_persist :: bool
  fo_count :: int
  fo_decision :: "decision option"
  fo_alarm :: "uuid option"
  fo_escalation :: "escalation_state option"
  fo_push :: "push_payload option"
  fo_camera :: "string option"
  fo_camera_name :: "string option"

definition stopped_at :: "flow_stage \<Rightarrow> flow_reason \<Rightarrow> flow_outcome" where
  "stopped_at st r = \<lparr>fo_stage = st, fo_reason = r, fo_event_status = None, fo_persist = False,
     fo_count = 1, fo_decision = None, fo_alarm = None, fo_escalation = None, fo_push = None,
     fo_camera = None, fo_camera_name = None\<rparr>"

definition alarmed :: "flow_outcome \<Rightarrow> bool" where
  "alarmed o1 \<longleftrightarrow> fo_stage o1 = STAGE_ALARMED"

definition flow_severity :: "flow_outcome \<Rightarrow> severity option" where
  "flow_severity o1 = map_option decision_severity (fo_decision o1)"

definition status_label :: "flow_outcome \<Rightarrow> string" where
  "status_label o1 =
    (if fo_stage o1 = STAGE_BLOCKED then parse_status_value BLOCKED
     else parse_status_value (if fo_decision o1 \<noteq> None then PARSED else UNPARSED))"

section \<open>The flow\<close>

definition resolve_camera :: "site_context \<Rightarrow> int option \<Rightarrow> string option \<times> string option" where
  "resolve_camera ctx channel =
    (case channel of
       None \<Rightarrow> (None, None)
     | Some n \<Rightarrow> (case sc_cameras ctx n of Some (i, nm) \<Rightarrow> (Some i, Some nm) | None \<Rightarrow> (None, None)))"

definition text_or_empty :: "string option \<Rightarrow> string" where
  "text_or_empty s = (case s of None \<Rightarrow> [] | Some t \<Rightarrow> t)"

definition flow_context :: "site_context \<Rightarrow> ingested_event \<Rightarrow> ai_verdict \<Rightarrow> string option \<Rightarrow> eval_context" where
  "flow_context ctx e v camera = \<lparr>
     ctx_event_type = ie_type e, ctx_occurred_at = ie_received e, ctx_timezone = sc_timezone ctx,
     ctx_camera_id = text_or_empty camera,
     ctx_zones = (case sc_zones ctx (text_or_empty camera) of None \<Rightarrow> [] | Some zs \<Rightarrow> zs),
     ctx_boxes = ai_boxes v, ctx_ai_confidence = ai_confidence v, ctx_ai_available = ai_available v,
     ctx_recent_tamper = (case camera of None \<Rightarrow> False | Some c \<Rightarrow> c \<noteq> [] \<and> c \<in> sc_tampered ctx),
     ctx_repeated = False, ctx_device_silent = sc_device_silent ctx,
     ctx_perimeter_event = (ie_type e \<in> {''line_crossing'', ''zone_intrusion''})\<rparr>"

definition channel_label :: "int option \<Rightarrow> string" where
  "channel_label ch = ''Kanal '' @ (case ch of Some n \<Rightarrow> if n = 0 then ''?'' else show_int n | None \<Rightarrow> ''?'')"

record flow_draw =
  draw_alarm :: uuid
  draw_push_event :: uuid

definition flow_push :: "site_context \<Rightarrow> ingest_result \<Rightarrow> ingested_event \<Rightarrow> ai_verdict \<Rightarrow> string option
    \<Rightarrow> decision \<Rightarrow> flow_draw \<Rightarrow> push_payload option" where
  "flow_push ctx r e v name d dr =
    (if PUSH \<in> decision_actions d
     then Some (build_push (draw_push_event dr) (draw_alarm dr) (decision_severity d) (sc_name ctx)
       (if text_or_empty name \<noteq> [] then text_or_empty name else channel_label (ie_channel e))
       (ie_type e) (ie_received e) (score (decision_risk d)) (risk_labels (decision_risk d))
       (ir_media r \<noteq> []) (\<not> ai_available v))
     else None)"

definition decide :: "zone_db \<Rightarrow> ingest_result \<Rightarrow> ingested_event \<Rightarrow> site_context \<Rightarrow> ai_verdict \<Rightarrow> instant
    \<Rightarrow> flow_draw \<Rightarrow> eval_error + flow_outcome" where
  "decide zones r e ctx v moment dr =
    (case resolve_camera ctx (ie_channel e) of (camera, name) \<Rightarrow>
     bind_err (evaluate_all zones (sc_rules ctx) (flow_context ctx e v camera)) (\<lambda>d.
       if \<not> matched d
       then Inr ((stopped_at STAGE_NO_RULE_MATCH (Explained (decision_reasons d)))
         \<lparr>fo_event_status := Some NEW, fo_persist := True, fo_decision := Some d,
          fo_camera := camera, fo_camera_name := name\<rparr>)
       else Inr ((stopped_at STAGE_ALARMED (Explained (decision_reasons d)))
         \<lparr>fo_event_status := Some ALERTED, fo_persist := True, fo_decision := Some d,
          fo_alarm := Some (draw_alarm dr),
          fo_escalation := Some \<lparr>opened_at = moment, policy = policy_for (decision_severity d),
            acknowledged_at = None, resolved_at = None, delivered = {}\<rparr>,
          fo_push := flow_push ctx r e v name d dr,
          fo_camera := camera, fo_camera_name := name\<rparr>)))"

definition process :: "zone_db \<Rightarrow> ingest_result \<Rightarrow> site_context \<Rightarrow> outage_state \<Rightarrow> ai_verdict option
    \<Rightarrow> instant option \<Rightarrow> flow_draw \<Rightarrow> dedup_window \<Rightarrow> (eval_error + flow_outcome) \<times> dedup_window" where
  "process zones r ctx outages ai now dr w =
    (if ir_blocked r then (Inr (stopped_at STAGE_BLOCKED Face_refused), w)
     else case ir_event r of
       None \<Rightarrow> (Inr (stopped_at STAGE_NO_EVENT No_event_produced), w)
     | Some e \<Rightarrow>
         (let moment = (case now of Some t \<Rightarrow> t | None \<Rightarrow> ie_received e);
              cam = resolve_camera ctx (ie_channel e);
              s = should_suppress (ie_type e) (uuid_text (ie_site e)) (uuid_text (ie_device e)) outages
          in if suppressed s
             then (Inr ((stopped_at STAGE_SUPPRESSED (Outage_covers (suppression_reason s)))
                     \<lparr>fo_event_status := Some SUPPRESSED, fo_persist := True,
                      fo_camera := fst cam, fo_camera_name := snd cam\<rparr>), w)
             else
               let (dd, w') = check w (dedup_key e) moment None
               in if is_duplicate dd
                  then (Inr ((stopped_at STAGE_DUPLICATE (Folded_into (window_started_at dd) (total_in_window dd)))
                          \<lparr>fo_event_status := Some SUPPRESSED, fo_persist := True,
                           fo_count := total_in_window dd, fo_camera := fst cam, fo_camera_name := snd cam\<rparr>), w')
                  else (decide zones r e ctx (case ai of Some v \<Rightarrow> v | None \<Rightarrow> ai_missing) moment dr, w')))"

section \<open>The stage of an outcome\<close>

lemma check_fresh: "dedup_entries w = [] \<Longrightarrow> \<not> is_duplicate (fst (check w k t ov))"
  by (simp add: check_def Let_def)

lemma decide_stage:
  "decide zones r e ctx v moment dr = Inr f \<Longrightarrow>
    \<exists>d. evaluate_all zones (sc_rules ctx)
        (flow_context ctx e v (fst (resolve_camera ctx (ie_channel e)))) = Inr d \<and>
      fo_decision f = Some d \<and> fo_persist f \<and>
      (fo_stage f = STAGE_ALARMED \<longleftrightarrow> matched d) \<and>
      (fo_stage f = STAGE_NO_RULE_MATCH \<longleftrightarrow> \<not> matched d) \<and>
      (matched d \<longrightarrow> fo_alarm f = Some (draw_alarm dr) \<and>
        fo_push f = flow_push ctx r e v (snd (resolve_camera ctx (ie_channel e))) d dr \<and>
        (\<exists>s. fo_escalation f = Some s \<and> opened_at s = moment \<and> \<not> is_stopped s \<and>
           policy s = policy_for (decision_severity d) \<and> delivered s = {})) \<and>
      (\<not> matched d \<longrightarrow> fo_alarm f = None \<and> fo_push f = None \<and> fo_escalation f = None)"
  by (auto simp: decide_def bind_err_Inr_iff stopped_at_def is_stopped_def case_prod_unfold split: if_splits)

lemma decided_flow:
  assumes "decide zones r e ctx v m dr = Inr f"
  obtains d where "evaluate_all zones (sc_rules ctx) (flow_context ctx e v (fst (resolve_camera ctx (ie_channel e)))) = Inr d"
    "fo_decision f = Some d" "fo_persist f" "alarmed f \<longleftrightarrow> matched d"
    "matched d \<longrightarrow> (fo_push f \<noteq> None \<longleftrightarrow> PUSH \<in> decision_actions d)"
    "matched d \<longrightarrow> (\<exists>s. fo_escalation f = Some s \<and> opened_at s = m \<and> \<not> is_stopped s \<and>
       policy s = policy_for (decision_severity d))"
    "\<not> matched d \<longrightarrow> fo_alarm f = None \<and> fo_push f = None \<and> fo_escalation f = None"
    "fo_stage f \<notin> {STAGE_BLOCKED, STAGE_SUPPRESSED}"
proof -
  from decide_stage [OF assms] obtain d where
    f: "evaluate_all zones (sc_rules ctx) (flow_context ctx e v (fst (resolve_camera ctx (ie_channel e)))) = Inr d"
      "fo_decision f = Some d" "fo_persist f" "alarmed f \<longleftrightarrow> matched d"
      "fo_stage f = STAGE_NO_RULE_MATCH \<longleftrightarrow> \<not> matched d"
      "matched d \<longrightarrow> fo_push f = flow_push ctx r e v (snd (resolve_camera ctx (ie_channel e))) d dr"
      "matched d \<longrightarrow> (\<exists>s. fo_escalation f = Some s \<and> opened_at s = m \<and> \<not> is_stopped s \<and>
         policy s = policy_for (decision_severity d))"
      "\<not> matched d \<longrightarrow> fo_alarm f = None \<and> fo_push f = None \<and> fo_escalation f = None"
    unfolding alarmed_def by blast
  have st: "fo_stage f \<notin> {STAGE_BLOCKED, STAGE_SUPPRESSED}"
    using f(4,5) by (auto simp: alarmed_def)
  have push: "matched d \<longrightarrow> (fo_push f \<noteq> None \<longleftrightarrow> PUSH \<in> decision_actions d)"
    using f(6) by (auto simp: flow_push_def)
  show thesis by (rule that [OF f(1-4) push f(7,8) st])
qed

text \<open>
  C7. The flow alarms exactly when the mail was not refused, no outage covers the event, it
  opens a dedup window, and the loudest rule matches; the alarm then carries the decision,
  an unstopped escalation from this moment under the policy of its severity, and a push
  precisely when the winning rule's actions ask for one.  In every other case there is
  neither alarm nor push, and a refused or covered message leaves the dedup window alone.
\<close>

theorem flow_alarms_iff:
  assumes "process zones r ctx outages ai now dr w = (Inr f, w')"
    and "ir_blocked r \<longleftrightarrow> ir_event r = None"
  shows "(alarmed f \<longleftrightarrow> (\<exists>e d. ir_event r = Some e \<and>
      \<not> suppressed (should_suppress (ie_type e) (uuid_text (ie_site e)) (uuid_text (ie_device e)) outages) \<and>
      \<not> is_duplicate (fst (check w (dedup_key e) (case now of Some t \<Rightarrow> t | None \<Rightarrow> ie_received e) None)) \<and>
      evaluate_all zones (sc_rules ctx) (flow_context ctx e (case ai of Some v \<Rightarrow> v | None \<Rightarrow> ai_missing)
        (fst (resolve_camera ctx (ie_channel e)))) = Inr d \<and> matched d \<and>
      fo_decision f = Some d \<and>
      (fo_push f \<noteq> None \<longleftrightarrow> PUSH \<in> decision_actions d) \<and>
      (\<exists>s. fo_escalation f = Some s \<and> \<not> is_stopped s \<and> policy s = policy_for (decision_severity d) \<and>
         opened_at s = (case now of Some t \<Rightarrow> t | None \<Rightarrow> ie_received e)))) \<and>
    (\<not> alarmed f \<longrightarrow> fo_alarm f = None \<and> fo_push f = None \<and> fo_escalation f = None) \<and>
    (fo_persist f \<longleftrightarrow> \<not> ir_blocked r) \<and>
    (fo_stage f \<in> {STAGE_BLOCKED, STAGE_SUPPRESSED} \<longrightarrow> w' = w)"
proof (cases "ir_event r")
  case None
  with assms show ?thesis by (auto simp: process_def stopped_at_def alarmed_def)
next
  case (Some e)
  let ?m = "case now of Some t \<Rightarrow> t | None \<Rightarrow> ie_received e"
  let ?s = "should_suppress (ie_type e) (uuid_text (ie_site e)) (uuid_text (ie_device e)) outages"
  let ?c = "check w (dedup_key e) ?m None"
  let ?v = "case ai of Some v \<Rightarrow> v | None \<Rightarrow> ai_missing"
  have nb: "\<not> ir_blocked r" using Some assms(2) by simp
  consider "suppressed ?s" | "\<not> suppressed ?s" "is_duplicate (fst ?c)"
    | "\<not> suppressed ?s" "\<not> is_duplicate (fst ?c)" by blast
  then show ?thesis
  proof cases
    case 1
    with Some nb assms(1) show ?thesis
      by (auto simp: process_def Let_def stopped_at_def alarmed_def)
  next
    case 2
    with Some nb assms(1) show ?thesis
      by (auto simp: process_def Let_def stopped_at_def alarmed_def case_prod_unfold)
  next
    case 3
    with Some nb assms(1) have d: "decide zones r e ctx ?v ?m dr = Inr f"
      by (simp add: process_def Let_def case_prod_unfold)
    obtain d where
      f: "evaluate_all zones (sc_rules ctx) (flow_context ctx e ?v (fst (resolve_camera ctx (ie_channel e)))) = Inr d"
        "fo_decision f = Some d" "fo_persist f" "alarmed f \<longleftrightarrow> matched d"
        "matched d \<longrightarrow> (fo_push f \<noteq> None \<longleftrightarrow> PUSH \<in> decision_actions d)"
        "matched d \<longrightarrow> (\<exists>s. fo_escalation f = Some s \<and> opened_at s = ?m \<and> \<not> is_stopped s \<and>
           policy s = policy_for (decision_severity d))"
        "\<not> matched d \<longrightarrow> fo_alarm f = None \<and> fo_push f = None \<and> fo_escalation f = None"
        "fo_stage f \<notin> {STAGE_BLOCKED, STAGE_SUPPRESSED}"
      by (rule decided_flow [OF d])
    show ?thesis
    proof (cases "matched d")
      case True
      with f 3 Some nb show ?thesis by auto
    next
      case False
      with f 3 Some nb show ?thesis by auto
    qed
  qed
qed

definition night_event :: ingested_event where
  "night_event = \<lparr>ie_tenant = 1, ie_site = 7, ie_device = 11, ie_type = ''person_detected'',
     ie_channel = Some 1, ie_channel_name = None, ie_occurred_local = None, ie_received = 20 * hour,
     ie_source = ''email'', ie_message_id = ''<m1>'', ie_status = PARSED, ie_profile = ''p'',
     ie_label = None, ie_warnings = []\<rparr>"

definition night_result :: ingest_result where
  "night_result = \<lparr>ir_identity = recorder_identity,
     ir_message = unparseable (plain_mail_env []) ''raw'', ir_body = blank_body ''p'',
     ir_event = Some night_event, ir_media = [], ir_sample = None, ir_blocked = False\<rparr>"

definition night_site :: site_context where
  "night_site = \<lparr>sc_name = ''Depo'', sc_timezone = istanbul, sc_rules = [person_rule],
     sc_cameras = [1 \<mapsto> (''c1'', ''Kapi'')], sc_zones = Map.empty, sc_device_silent = False,
     sc_tampered = {}\<rparr>"

definition clear_verdict :: ai_verdict where
  "clear_verdict = \<lparr>ai_available = True, ai_confidence = None, ai_boxes = []\<rparr>"

definition night_draw :: flow_draw where
  "night_draw = \<lparr>draw_alarm = 41, draw_push_event = 42\<rparr>"

lemma night_not_covered:
  "\<not> suppressed (should_suppress ''person_detected'' site dev no_outages)"
  by (simp add: should_suppress_def no_outages_def)

lemma night_flow_context:
  "flow_context night_site night_event clear_verdict (Some ''c1'') = night_context"
  by (simp add: flow_context_def night_site_def night_event_def clear_verdict_def night_context_def
      text_or_empty_def)

lemma night_processed:
  obtains f w' where "process utc3 night_result night_site no_outages (Some clear_verdict) None night_draw
    new_dedup = (Inr f, w')" and "alarmed f" and "fo_alarm f = Some 41"
proof -
  obtain d where d: "evaluate utc3 person_rule night_context = Inr d" "matched d"
    by (rule night_evaluates)
  have cam: "resolve_camera night_site (ie_channel night_event) = (Some ''c1'', Some ''Kapi'')"
    by (simp add: resolve_camera_def night_site_def night_event_def)
  have "evaluate_all utc3 (sc_rules night_site) night_context = Inr d"
    using d by (simp add: evaluate_all_def night_site_def)
  then have "\<exists>f. decide utc3 night_result night_event night_site clear_verdict (20 * hour) night_draw = Inr f \<and>
      alarmed f \<and> fo_alarm f = Some 41"
    using d(2) by (simp add: decide_def cam night_flow_context alarmed_def stopped_at_def night_draw_def)
  moreover have "fst (process utc3 night_result night_site no_outages (Some clear_verdict) None night_draw new_dedup) =
      decide utc3 night_result night_event night_site clear_verdict (20 * hour) night_draw"
    using night_not_covered
    by (simp add: process_def night_result_def Let_def case_prod_unfold check_fresh new_dedup_def)
      (simp add: night_event_def)
  ultimately show thesis using that by (metis prod.collapse)
qed

theorem flow_alarms_iff_witness:
  "\<exists>f w'. process utc3 night_result night_site no_outages (Some clear_verdict) None night_draw
      new_dedup = (Inr f, w') \<and> alarmed f \<and>
    (\<exists>s. fo_escalation f = Some s \<and> opened_at s = 20 * hour \<and> \<not> is_stopped s)"
proof -
  obtain f w' where p: "process utc3 night_result night_site no_outages (Some clear_verdict) None night_draw
    new_dedup = (Inr f, w')" and a: "alarmed f" by (rule night_processed)
  have "ir_blocked night_result \<longleftrightarrow> ir_event night_result = None" by (simp add: night_result_def)
  from flow_alarms_iff [OF p this] a obtain e s where "ir_event night_result = Some e"
    "fo_escalation f = Some s" "\<not> is_stopped s"
    "opened_at s = (case None of Some t \<Rightarrow> t | None \<Rightarrow> ie_received e)" by blast
  with p a show ?thesis by (auto simp: night_result_def night_event_def)
qed

section \<open>Repeats inside a window\<close>

lemma folded_again:
  assumes "ir_blocked r = False" and "ir_event r = Some e"
    and "\<not> suppressed (should_suppress (ie_type e) (uuid_text (ie_site e)) (uuid_text (ie_device e)) outages)"
    and "\<not> is_duplicate (fst (check w (dedup_key e) t None))"
    and "process zones r ctx outages ai (Some t) dr w = (x, w')" and "window_seconds w = 60"
    and "ir_blocked r' = False" and "ir_event r' = Some e'" and "dedup_key e' = dedup_key e"
    and "\<not> suppressed (should_suppress (ie_type e') (uuid_text (ie_site e')) (uuid_text (ie_device e')) outages')"
    and "t' < t + minute"
  shows "\<exists>f. fst (process zones r' ctx' outages' ai' (Some t') dr' w') = Inr f \<and>
    fo_stage f = STAGE_DUPLICATE \<and> fo_persist f \<and> fo_alarm f = None \<and> fo_push f = None"
proof -
  have w': "w' = snd (check w (dedup_key e) t None)"
    using assms(1-5) by (auto simp: process_def Let_def case_prod_unfold)
  have len: "effective_window w None = minute"
    using assms(6) by (simp add: effective_window_def seconds_def)
  have opened: "map_of (dedup_entries w') (dedup_key e) =
      Some \<lparr>first_seen_at = t, last_seen = t, occurrences = 1\<rparr>"
    using assms(4) unfolding w' by (auto simp: check_def Let_def split: option.splits if_splits)
  have "window_seconds w' = 60"
    using assms(6) unfolding w' by (auto simp: check_def Let_def split: option.splits)
  then have len': "effective_window w' None = minute"
    by (simp add: effective_window_def seconds_def)
  have "is_duplicate (fst (check w' (dedup_key e') t' None))"
    using opened len' assms(9,11) by (simp add: check_def Let_def)
  then show ?thesis using assms(7,8,10)
    by (simp add: process_def Let_def case_prod_unfold stopped_at_def)
qed

text \<open>
  Once an event has been looked up in the dedup window, every later event with the same
  key inside the same sixty seconds is folded into it and raises nothing, whatever became of
  the first: this holds even when the first one's evaluation raised.
\<close>

theorem repeat_is_folded:
  assumes "ir_blocked r = False" and "ir_event r = Some e"
    and "\<not> suppressed (should_suppress (ie_type e) (uuid_text (ie_site e)) (uuid_text (ie_device e)) outages)"
    and "\<not> is_duplicate (fst (check w (dedup_key e) t None))"
    and "process zones r ctx outages ai (Some t) dr w = (x, w')" and "window_seconds w = 60"
    and "ir_blocked r' = False" and "ir_event r' = Some e'" and "dedup_key e' = dedup_key e"
    and "\<not> suppressed (should_suppress (ie_type e') (uuid_text (ie_site e')) (uuid_text (ie_device e')) outages')"
    and "t' < t + minute"
  shows "\<exists>f. fst (process zones r' ctx' outages' ai' (Some t') dr' w') = Inr f \<and>
    fo_stage f = STAGE_DUPLICATE \<and> fo_persist f \<and> fo_alarm f = None \<and> fo_push f = None"
  using assms by (rule folded_again)

theorem repeat_is_folded_witness:
  "\<exists>f. fst (process utc3 night_result night_site no_outages None (Some (20 * hour + 59 * second)) night_draw
      (snd (process utc3 night_result night_site no_outages None (Some (20 * hour)) night_draw new_dedup)))
    = Inr f \<and> fo_stage f = STAGE_DUPLICATE \<and> fo_alarm f = None"
proof -
  obtain x w' where p: "process utc3 night_result night_site no_outages None (Some (20 * hour)) night_draw
      new_dedup = (x, w')" by (cases "process utc3 night_result night_site no_outages None
        (Some (20 * hour)) night_draw new_dedup")
  have b: "ir_blocked night_result = False" "ir_event night_result = Some night_event"
    by (simp_all add: night_result_def)
  have s: "\<not> suppressed (should_suppress (ie_type night_event) (uuid_text (ie_site night_event))
      (uuid_text (ie_device night_event)) no_outages)"
    using night_not_covered by (simp add: night_event_def)
  have d: "\<not> is_duplicate (fst (check new_dedup (dedup_key night_event) (20 * hour) None))"
    by (simp add: check_fresh new_dedup_def)
  have w: "window_seconds new_dedup = 60" by (simp add: new_dedup_def default_window_seconds_def)
  have t: "20 * hour + 59 * second < 20 * hour + minute" by simp
  from repeat_is_folded [where zones = utc3 and ctx' = night_site and ai' = None and dr' = night_draw,
      OF b s d p w b refl s t] p show ?thesis
    by auto
qed

text \<open>
  The delivery label is not independent of the alarm outcome: a fully parsed message
  whose event was suppressed or folded is labelled as unparsed.
\<close>

theorem folded_mail_is_labelled_unparsed:
  assumes "process zones r ctx outages ai now dr w = (Inr f, w')"
    and "fo_stage f \<in> {STAGE_SUPPRESSED, STAGE_DUPLICATE}"
  shows "status_label f = ''UNPARSED''"
proof -
  have "fo_stage g \<notin> {STAGE_SUPPRESSED, STAGE_DUPLICATE}" if "decide zones r e ctx v m dr = Inr g" for e v m g
    using decide_stage [OF that] by auto
  with assms show ?thesis
    by (auto simp: process_def Let_def case_prod_unfold status_label_def stopped_at_def
        split: if_splits option.splits)
qed

theorem folded_mail_is_labelled_unparsed_witness:
  "\<exists>f. fst (process utc3 night_result night_site no_outages None (Some (20 * hour + second)) night_draw
      (snd (process utc3 night_result night_site no_outages None (Some (20 * hour)) night_draw new_dedup)))
    = Inr f \<and> status_label f = ''UNPARSED''"
proof -
  obtain x w' where p: "process utc3 night_result night_site no_outages None (Some (20 * hour)) night_draw
      new_dedup = (x, w')" by (cases "process utc3 night_result night_site no_outages None
        (Some (20 * hour)) night_draw new_dedup")
  have b: "ir_blocked night_result = False" "ir_event night_result = Some night_event"
    by (simp_all add: night_result_def)
  have s: "\<not> suppressed (should_suppress (ie_type night_event) (uuid_text (ie_site night_event))
      (uuid_text (ie_device night_event)) no_outages)"
    using night_not_covered by (simp add: night_event_def)
  have d: "\<not> is_duplicate (fst (check new_dedup (dedup_key night_event) (20 * hour) None))"
    by (simp add: check_fresh new_dedup_def)
  have w: "window_seconds new_dedup = 60" by (simp add: new_dedup_def default_window_seconds_def)
  have t: "20 * hour + second < 20 * hour + minute" by simp
  obtain f w'' where q: "process utc3 night_result night_site no_outages None (Some (20 * hour + second))
      night_draw w' = (Inr f, w'')" and st: "fo_stage f = STAGE_DUPLICATE"
    using folded_again [where zones = utc3 and ctx' = night_site and ai' = None and dr' = night_draw,
      OF b s d p w b refl s t] by (metis prod.collapse)
  from folded_mail_is_labelled_unparsed [OF q] st have "status_label f = ''UNPARSED''" by simp
  with p q show ?thesis by auto
qed

end
