(* ===== verification/Tables.thy ===== *)
theory Tables
  imports Prelude
begin

text \<open>
  The rows several components share, \<^verbatim>\<open>backend/app/db/models.py\<close>.  A table is the
  list of its rows in insertion order, which is also the order queries without an
  \<^verbatim>\<open>ORDER BY\<close> are taken to return; columns the modelled code neither reads nor
  writes are left out.
\<close>

record user_row =
  user_id :: uuid
  user_tenant :: uuid
  user_email :: string
  user_hash :: string
  user_name :: "string option"
  user_role :: string
  user_active :: bool

record push_device =
  pd_id :: uuid
  pd_tenant :: uuid
  pd_user :: uuid
  pd_platform :: string
  pd_token :: string

record alarm_delivery =
  ad_id :: uuid
  ad_tenant :: uuid
  ad_alarm :: uuid
  ad_user :: "uuid option"
  ad_channel :: string
  ad_step :: int
  ad_status :: string
  ad_sent_at :: "instant option"
  ad_error :: "string option"

record refresh_record =
  rt_id :: uuid
  rt_user :: uuid
  rt_tenant :: uuid
  rt_hash :: string
  rt_family :: uuid
  rt_issued :: instant
  rt_expires :: instant
  rt_revoked :: "instant option"
  rt_replaced_by :: "uuid option"

record alarm_row =
  al_id :: uuid
  al_tenant :: uuid
  al_site :: uuid
  al_event :: uuid
  al_severity :: string
  al_status :: string
  al_opened :: instant
  al_acked_at :: "instant option"
  al_acked_by :: "uuid option"
  al_resolved_at :: "instant option"
  al_resolved_by :: "uuid option"
  al_resolution :: "string option"
  al_note :: "string option"
  al_step :: int

record event_row =
  ev_id :: uuid
  ev_tenant :: uuid
  ev_site :: uuid
  ev_device :: uuid
  ev_camera :: "uuid option"
  ev_type :: string
  ev_vendor_label :: "string option"
  ev_channel :: "int option"
  ev_occurred :: instant
  ev_occurred_local :: "instant option"
  ev_source :: string
  ev_message :: "string option"
  ev_dedup_key :: string
  ev_count :: int
  ev_status :: string
  ev_risk :: int
  ev_severity :: string
  ev_reasons :: "string list"
  ev_parse_status :: string
  ev_warnings :: "string list"
  ev_profile :: "string option"

record silence_row =
  si_device :: uuid
  si_tenant :: uuid
  si_last_message :: "instant option"
  si_interval :: int
  si_state :: string
  si_changed_at :: "instant option"

text \<open>The first row with a given key, \<^verbatim>\<open>session.get\<close> and \<^verbatim>\<open>session.scalar\<close>.\<close>

definition lookup_row :: "('r \<Rightarrow> 'k) \<Rightarrow> 'k \<Rightarrow> 'r list \<Rightarrow> 'r option" where
  "lookup_row key k rows = find (\<lambda>r. key r = k) rows"

text \<open>Assigning to the columns of a loaded row.\<close>

definition update_row :: "('r \<Rightarrow> 'k) \<Rightarrow> 'k \<Rightarrow> ('r \<Rightarrow> 'r) \<Rightarrow> 'r list \<Rightarrow> 'r list" where
  "update_row key k f rows = map (\<lambda>r. if key r = k then f r else r) rows"

lemma lookup_row_Some: "lookup_row key k rows = Some r \<Longrightarrow> r \<in> set rows \<and> key r = k"
  by (auto simp: lookup_row_def find_Some_iff)

lemma lookup_row_None: "lookup_row key k rows = None \<longleftrightarrow> (\<forall>r \<in> set rows. key r \<noteq> k)"
  by (auto simp: lookup_row_def find_None_iff)

lemma lookup_row_unique:
  "distinct (map key rows) \<Longrightarrow> r \<in> set rows \<Longrightarrow> lookup_row key (key r) rows = Some r"
  by (induction rows) (auto simp: lookup_row_def rev_image_eqI)

lemma keys_update_row: "(\<And>r. key (f r) = key r) \<Longrightarrow> map key (update_row key k f rows) = map key rows"
  by (simp add: update_row_def)

lemma lookup_update: "(\<And>r. key (f r) = key r) \<Longrightarrow> lookup_row key i (update_row key k f rows) =
    (if i = k then map_option f (lookup_row key i rows) else lookup_row key i rows)"
  by (induction rows) (auto simp: lookup_row_def update_row_def)

lemma lookup_overwrite: "key row = i \<Longrightarrow> lookup_row key k (update_row key i (\<lambda>_. row) rows) =
    (if k = i then map_option (\<lambda>_. row) (lookup_row key k rows) else lookup_row key k rows)"
  by (induction rows) (auto simp: lookup_row_def update_row_def)

lemma set_update_row: "r \<in> set (update_row key k f rows) \<longleftrightarrow>
    (\<exists>q \<in> set rows. r = (if key q = k then f q else q))"
  unfolding update_row_def set_map image_iff by blast

text \<open>A key selects at most one row.\<close>

lemma filter_distinct_key: "distinct (map key xs) \<Longrightarrow> length (filter (\<lambda>x. key x = k \<and> Q x) xs) \<le> 1"
proof (induction xs)
  case (Cons x xs)
  have "key y \<noteq> key x" if "y \<in> set xs" for y using Cons.prems imageI [OF that, of key] by auto
  then have "filter (\<lambda>y. key y = key x \<and> Q y) xs = []" by (auto simp: filter_empty_conv)
  with Cons show ?case by auto
qed simp

section \<open>Grouping\<close>

text \<open>\<^verbatim>\<open>GROUP BY key\<close> with a count; a database leaves the order open.\<close>

definition count_by :: "('r \<Rightarrow> 'k) \<Rightarrow> 'r list \<Rightarrow> ('k \<times> nat) list" where
  "count_by key rows = map (\<lambda>k. (k, length (filter (\<lambda>r. key r = k) rows))) (remdups (map key rows))"

definition count_of :: "('k \<times> nat) list \<Rightarrow> 'k \<Rightarrow> nat" where
  "count_of groups k = (case map_of groups k of None \<Rightarrow> 0 | Some n \<Rightarrow> n)"

lemma count_partition:
  "finite K \<Longrightarrow> key ` set rows \<subseteq> K \<Longrightarrow> (\<Sum>k\<in>K. length (filter (\<lambda>r. key r = k) rows)) = length rows"
proof (induction rows)
  case (Cons r rows)
  have "(\<Sum>k\<in>K. length (filter (\<lambda>q. key q = k) (r # rows))) =
      (\<Sum>k\<in>K. (if k = key r then 1 else 0) + length (filter (\<lambda>q. key q = k) rows))"
    by (rule sum.cong) auto
  also have "\<dots> = 1 + length rows" using Cons by (simp add: sum.distrib sum.delta')
  finally show ?case by simp
qed simp

lemma count_by_total: "sum_list (map snd (count_by key rows)) = length rows"
proof -
  have "sum_list (map snd (count_by key rows)) = (\<Sum>k\<leftarrow>remdups (map key rows). length (filter (\<lambda>r. key r = k) rows))"
    by (simp add: count_by_def comp_def)
  also have "\<dots> = (\<Sum>k\<in>key ` set rows. length (filter (\<lambda>r. key r = k) rows))"
    by (simp add: sum_list_distinct_conv_sum_set)
  finally show ?thesis using count_partition [of "key ` set rows" key rows] by simp
qed

lemma count_by_keys: "distinct (map fst (count_by key rows))"
  by (simp add: count_by_def comp_def)

end
