(* ===== verification/Tokens.thy ===== *)
theory Tokens
  imports Identifiers Tables
begin

text \<open>
  Access and refresh tokens, \<^verbatim>\<open>backend/app/modules/auth/tokens.py\<close>.  The JWT library
  and SHA-256 are not part of the repository: \<open>enc\<close> encodes claims under a secret,
  \<open>dec\<close> decodes a token at an instant with a leeway, and \<open>h\<close> is the hex digest of a
  token.  What \<^verbatim>\<open>secrets\<close> and \<^verbatim>\<open>uuid4\<close> draw is the argument \<open>token_draw\<close>.
\<close>

section \<open>Claims\<close>

datatype claim = Text string | Moment instant

type_synonym claims = "(string \<times> claim) list"

datatype jwt_error = Expired_signature | Invalid_signature string

type_synonym jwt_encoder = "claims \<Rightarrow> string \<Rightarrow> string"
type_synonym jwt_decoder = "string \<Rightarrow> string \<Rightarrow> instant \<Rightarrow> duration \<Rightarrow> jwt_error + claims"

datatype token_error = Token_expired string | Token_invalid string | Token_reuse_detected string

definition leeway :: duration where
  "leeway = seconds 30"

record token_draw =
  draw_refresh :: string
  draw_record :: uuid
  draw_family :: uuid
  draw_jti :: uuid

definition access_claims :: "uuid \<Rightarrow> uuid \<Rightarrow> string \<Rightarrow> int \<Rightarrow> instant \<Rightarrow> uuid \<Rightarrow> claims" where
  "access_claims user tenant role ttl_minutes issued jti =
    [(''sub'', Text (uuid_text user)), (''tid'', Text (uuid_text tenant)), (''role'', Text role),
     (''typ'', Text ''access''), (''iat'', Moment issued),
     (''exp'', Moment (issued + ttl_minutes * minute)), (''jti'', Text (uuid_text jti))]"

definition create_access_token :: "jwt_encoder \<Rightarrow> uuid \<Rightarrow> uuid \<Rightarrow> string \<Rightarrow> string \<Rightarrow> int \<Rightarrow> instant
    \<Rightarrow> uuid \<Rightarrow> string" where
  "create_access_token enc user tenant role secret ttl_minutes issued jti =
     enc (access_claims user tenant role ttl_minutes issued jti) secret"

definition decode_access_token :: "jwt_decoder \<Rightarrow> string \<Rightarrow> string \<Rightarrow> instant \<Rightarrow> token_error + claims" where
  "decode_access_token dec token secret now =
    (case dec token secret now leeway of
       Inl Expired_signature \<Rightarrow> Inl (Token_expired ''access token expired'')
     | Inl (Invalid_signature m) \<Rightarrow> Inl (Token_invalid m)
     | Inr c \<Rightarrow> if map_of c ''typ'' \<noteq> Some (Text ''access'')
                then Inl (Token_invalid ''wrong token type'') else Inr c)"

section \<open>Refresh records\<close>

definition is_active :: "refresh_record \<Rightarrow> bool" where
  "is_active r \<longleftrightarrow> rt_revoked r = None"

definition is_expired :: "refresh_record \<Rightarrow> instant \<Rightarrow> bool" where
  "is_expired r now \<longleftrightarrow> rt_expires r \<le> now"

record issued_tokens =
  access_token :: string
  refresh_token :: string
  issued_record :: refresh_record
  expires_in :: int

record token_settings =
  jwt_secret :: string
  access_ttl_minutes :: int
  refresh_ttl_days :: int

definition default_ttls :: "string \<Rightarrow> token_settings" where
  "default_ttls secret = \<lparr>jwt_secret = secret, access_ttl_minutes = 15, refresh_ttl_days = 30\<rparr>"

definition issue_tokens :: "(string \<Rightarrow> string) \<Rightarrow> jwt_encoder \<Rightarrow> token_settings \<Rightarrow> uuid \<Rightarrow> uuid \<Rightarrow> string
    \<Rightarrow> uuid option \<Rightarrow> instant \<Rightarrow> token_draw \<Rightarrow> issued_tokens" where
  "issue_tokens h enc cfg user tenant role family issued d =
    \<lparr>access_token = create_access_token enc user tenant role (jwt_secret cfg)
       (access_ttl_minutes cfg) issued (draw_jti d),
     refresh_token = draw_refresh d,
     issued_record = \<lparr>rt_id = draw_record d, rt_user = user, rt_tenant = tenant,
       rt_hash = h (draw_refresh d),
       rt_family = (case family of Some f \<Rightarrow> f | None \<Rightarrow> draw_family d),
       rt_issued = issued, rt_expires = issued + refresh_ttl_days cfg * day,
       rt_revoked = None, rt_replaced_by = None\<rparr>,
     expires_in = access_ttl_minutes cfg * 60\<rparr>"

section \<open>The in-memory store\<close>

type_synonym token_store = "(string, refresh_record) dict"

definition add_record :: "refresh_record \<Rightarrow> token_store \<Rightarrow> token_store" where
  "add_record r s = dict_set (rt_hash r) r s"

definition find_record :: "(string \<Rightarrow> string) \<Rightarrow> string \<Rightarrow> token_store \<Rightarrow> refresh_record option" where
  "find_record h token s = map_of s (h token)"

definition revoke_family :: "uuid \<Rightarrow> instant \<Rightarrow> token_store \<Rightarrow> nat \<times> token_store" where
  "revoke_family f now s =
    (length (filter (\<lambda>(_, r). rt_family r = f \<and> is_active r) s),
     map (\<lambda>(k, r). (k, if rt_family r = f \<and> is_active r then r\<lparr>rt_revoked := Some now\<rparr> else r)) s)"

definition rotate :: "(string \<Rightarrow> string) \<Rightarrow> jwt_encoder \<Rightarrow> token_settings \<Rightarrow> string \<Rightarrow> string \<Rightarrow> instant
    \<Rightarrow> token_draw \<Rightarrow> token_store \<Rightarrow> (token_error + issued_tokens) \<times> token_store" where
  "rotate h enc cfg presented role now d s =
    (case find_record h presented s of
       None \<Rightarrow> (Inl (Token_invalid ''unknown refresh token''), s)
     | Some r \<Rightarrow>
         if \<not> is_active r
         then (Inl (Token_reuse_detected ''refresh token reuse; session family revoked''),
               snd (revoke_family (rt_family r) now s))
         else if is_expired r now
         then (Inl (Token_expired ''refresh token expired''),
               dict_set (h presented) (r\<lparr>rt_revoked := Some now\<rparr>) s)
         else let issued = issue_tokens h enc cfg (rt_user r) (rt_tenant r) role (Some (rt_family r)) now d
              in (Inr issued,
                  add_record (issued_record issued)
                    (dict_set (h presented)
                       (r\<lparr>rt_revoked := Some now, rt_replaced_by := Some (rt_id (issued_record issued))\<rparr>) s)))"

definition revoke :: "(string \<Rightarrow> string) \<Rightarrow> string \<Rightarrow> instant \<Rightarrow> token_store \<Rightarrow> bool \<times> token_store" where
  "revoke h token now s =
    (case find_record h token s of
       None \<Rightarrow> (False, s)
     | Some r \<Rightarrow> if \<not> is_active r then (False, s)
                else (True, dict_set (h token) (r\<lparr>rt_revoked := Some now\<rparr>) s))"

definition purge_expired :: "instant \<Rightarrow> token_store \<Rightarrow> nat \<times> token_store" where
  "purge_expired now s =
    (let stale = map fst (filter (\<lambda>(_, r). is_expired r now) s)
     in (length stale, fold dict_del stale s))"

section \<open>What a refresh store promises\<close>

text \<open>
  The contract of a refresh store: its records, an operation with its verdict on the token
  presented, the family of that token, and the families an operation may open.  Only a live
  token is accepted, a live record descends from a live record of its family unless its
  operation opened the family, and a replay leaves no live record in the family.
\<close>

locale refresh_store =
  fixes records :: "'s \<Rightarrow> refresh_record set"
    and step :: "'op \<Rightarrow> 's \<Rightarrow> 's"
    and accepted :: "'op \<Rightarrow> 's \<Rightarrow> bool"
    and presented :: "'op \<Rightarrow> 's \<Rightarrow> refresh_record option"
    and opens :: "'op \<Rightarrow> uuid set"
  assumes accepted_live: "accepted x s \<Longrightarrow> presented x s = Some r \<Longrightarrow> r \<in> records s \<and> is_active r"
    and live_descends: "r \<in> records (step x s) \<Longrightarrow> is_active r \<Longrightarrow>
      rt_family r \<in> opens x \<or> (\<exists>q \<in> records s. is_active q \<and> rt_family q = rt_family r)"
    and replay_revokes: "presented x s = Some r \<Longrightarrow> \<not> is_active r \<Longrightarrow> q \<in> records (step x s) \<Longrightarrow>
      rt_family q = rt_family r \<Longrightarrow> \<not> is_active q"
begin

definition dead :: "uuid \<Rightarrow> 's \<Rightarrow> bool" where
  "dead f s \<longleftrightarrow> (\<forall>r \<in> records s. rt_family r = f \<longrightarrow> \<not> is_active r)"

lemma dead_step: "dead f s \<Longrightarrow> f \<notin> opens x \<Longrightarrow> dead f (step x s)"
  unfolding dead_def using live_descends by metis

lemma dead_run: "dead f s \<Longrightarrow> \<forall>x \<in> set xs. f \<notin> opens x \<Longrightarrow> dead f (fold step xs s)"
  by (induction xs arbitrary: s) (auto intro: dead_step)

lemma replay_kills: "presented x s = Some r \<Longrightarrow> \<not> is_active r \<Longrightarrow> dead (rt_family r) (step x s)"
  unfolding dead_def using replay_revokes by blast

lemma family_stays_dead:
  assumes "presented x s = Some r" and "\<not> is_active r"
    and "\<forall>y \<in> set xs. rt_family r \<notin> opens y"
    and "presented z (fold step xs (step x s)) = Some q" and "rt_family q = rt_family r"
  shows "\<not> accepted z (fold step xs (step x s))"
proof
  assume "accepted z (fold step xs (step x s))"
  from accepted_live [OF this assms(4)] dead_run [OF replay_kills [OF assms(1,2)] assms(3)] assms(5)
  show False by (auto simp: dead_def)
qed

end

section \<open>The in-memory store keeps the contract\<close>

datatype store_op = Add refresh_record | Rotate string string instant token_draw
  | Revoke string instant | Purge instant

fun store_step :: "(string \<Rightarrow> string) \<Rightarrow> jwt_encoder \<Rightarrow> token_settings \<Rightarrow> store_op \<Rightarrow> token_store
    \<Rightarrow> token_store" where
  "store_step h enc cfg (Add r) s = add_record r s"
| "store_step h enc cfg (Rotate t role now d) s = snd (rotate h enc cfg t role now d s)"
| "store_step h enc cfg (Revoke t now) s = snd (revoke h t now s)"
| "store_step h enc cfg (Purge now) s = snd (purge_expired now s)"

fun store_accepts :: "(string \<Rightarrow> string) \<Rightarrow> jwt_encoder \<Rightarrow> token_settings \<Rightarrow> store_op \<Rightarrow> token_store \<Rightarrow> bool" where
  "store_accepts h enc cfg (Rotate t role now d) s \<longleftrightarrow> (\<exists>i. fst (rotate h enc cfg t role now d s) = Inr i)"
| "store_accepts h enc cfg _ s \<longleftrightarrow> False"

fun store_presents :: "(string \<Rightarrow> string) \<Rightarrow> store_op \<Rightarrow> token_store \<Rightarrow> refresh_record option" where
  "store_presents h (Rotate t role now d) s = find_record h t s"
| "store_presents h _ s = None"

fun store_opens :: "store_op \<Rightarrow> uuid set" where
  "store_opens (Add r) = {rt_family r}"
| "store_opens _ = {}"

definition store_records :: "token_store \<Rightarrow> refresh_record set" where
  "store_records s = snd ` set s"

lemma set_dict_set: "set (dict_set k v s) \<subseteq> insert (k, v) (set s)"
  by (induction s) (auto split: if_splits)

lemma records_dict_set: "r \<in> store_records (dict_set k v s) \<Longrightarrow> r = v \<or> r \<in> store_records s"
  using set_dict_set [of k v s] by (auto simp: store_records_def)

lemma records_dict_del: "r \<in> store_records (fold dict_del ks s) \<Longrightarrow> r \<in> store_records s"
proof (induction ks arbitrary: s)
  case (Cons k ks)
  from Cons.IH [of "dict_del k s"] Cons.prems show ?case
    by (auto simp: store_records_def dict_del_def)
qed simp

lemma find_record_in: "find_record h t s = Some r \<Longrightarrow> r \<in> store_records s"
  by (auto simp: find_record_def store_records_def dest!: map_of_SomeD intro: rev_image_eqI)

lemma records_revoke_family:
  "r \<in> store_records (snd (revoke_family f now s)) \<Longrightarrow>
     (rt_family r = f \<longrightarrow> \<not> is_active r) \<and>
     (is_active r \<longrightarrow> r \<in> store_records s)"
  by (auto simp: store_records_def revoke_family_def is_active_def split: if_splits intro: rev_image_eqI)

lemma records_rotate:
  assumes "r \<in> store_records (snd (rotate h enc cfg t role now d s))" and "is_active r"
  shows "\<exists>q \<in> store_records s. is_active q \<and> rt_family q = rt_family r"
proof (cases "find_record h t s")
  case None
  with assms show ?thesis by (auto simp: rotate_def)
next
  case (Some p)
  note p = find_record_in [OF Some]
  show ?thesis
  proof (cases "is_active p \<and> \<not> is_expired p now")
    case True
    let ?i = "issued_record (issue_tokens h enc cfg (rt_user p) (rt_tenant p) role (Some (rt_family p)) now d)"
    let ?p = "p\<lparr>rt_revoked := Some now, rt_replaced_by := Some (rt_id ?i)\<rparr>"
    from assms(1) True Some have "r \<in> store_records (dict_set (rt_hash ?i) ?i (dict_set (h t) ?p s))"
      by (simp add: rotate_def add_record_def Let_def)
    then consider "r = ?i" | "r = ?p" | "r \<in> store_records s"
      using records_dict_set by blast
    then show ?thesis
      using assms(2) p True by cases (auto simp: issue_tokens_def is_active_def)
  next
    case False
    show ?thesis
    proof (cases "is_active p")
      case True
      with False Some assms(1) have "r \<in> store_records (dict_set (h t) (p\<lparr>rt_revoked := Some now\<rparr>) s)"
        by (simp add: rotate_def)
      from records_dict_set [OF this] assms(2) show ?thesis by (auto simp: is_active_def)
    next
      case False
      with Some assms(1) have "r \<in> store_records (snd (revoke_family (rt_family p) now s))"
        by (simp add: rotate_def)
      from records_revoke_family [OF this] assms(2) show ?thesis by blast
    qed
  qed
qed

lemma records_revoke:
  "r \<in> store_records (snd (revoke h t now s)) \<Longrightarrow> is_active r \<Longrightarrow> r \<in> store_records s"
  by (auto simp: revoke_def is_active_def dest!: records_dict_set split: option.splits if_splits)

interpretation mem: refresh_store store_records "store_step h enc cfg" "store_accepts h enc cfg"
  "store_presents h" store_opens
  for h enc cfg
proof
  show "r \<in> store_records s \<and> is_active r"
    if "store_accepts h enc cfg x s" "store_presents h x s = Some r" for x s r
    using that by (cases x) (auto simp: rotate_def find_record_in split: if_splits)
  show "rt_family r \<in> store_opens x \<or> (\<exists>q \<in> store_records s. is_active q \<and> rt_family q = rt_family r)"
    if "r \<in> store_records (store_step h enc cfg x s)" "is_active r" for r x s
    using that
    by (cases x)
      (auto simp: add_record_def purge_expired_def Let_def
        dest: records_dict_set records_rotate records_revoke records_dict_del)
  show "\<not> is_active q"
    if "store_presents h x s = Some r" "\<not> is_active r" "q \<in> store_records (store_step h enc cfg x s)"
      "rt_family q = rt_family r" for x s r q
    using that records_revoke_family by (cases x) (auto simp: rotate_def)
qed

end
