(* ===== verification/Rbac.thy ===== *)
theory Rbac
  imports Prelude
begin

text \<open>
  Roles and permissions, \<^verbatim>\<open>backend/app/core/rbac.py\<close>: the permission matrix every
  endpoint asks, and tenant ownership, \<^verbatim>\<open>backend/app/core/tenancy.py\<close>.
\<close>

section \<open>The matrix\<close>

datatype role = OWNER | ADMIN | SECURITY_MANAGER | SITE_MANAGER | SUPERVISOR | GUARD | VIEWER
  | BILLING_ADMIN

fun role_value :: "role \<Rightarrow> string" where
  "role_value OWNER = ''OWNER''"
| "role_value ADMIN = ''ADMIN''"
| "role_value SECURITY_MANAGER = ''SECURITY_MANAGER''"
| "role_value SITE_MANAGER = ''SITE_MANAGER''"
| "role_value SUPERVISOR = ''SUPERVISOR''"
| "role_value GUARD = ''GUARD''"
| "role_value VIEWER = ''VIEWER''"
| "role_value BILLING_ADMIN = ''BILLING_ADMIN''"

definition all_roles :: "role list" where
  "all_roles = [OWNER, ADMIN, SECURITY_MANAGER, SITE_MANAGER, SUPERVISOR, GUARD, VIEWER, BILLING_ADMIN]"

text \<open>\<^verbatim>\<open>Role(text)\<close>; \<^const>\<open>None\<close> is its \<^verbatim>\<open>ValueError\<close>.\<close>

definition role_of :: "string \<Rightarrow> role option" where
  "role_of s = find (\<lambda>r. role_value r = s) all_roles"

datatype permission = SITES_VIEW | SITES_MANAGE | DEVICES_VIEW | DEVICES_MANAGE | CAMERAS_CONFIGURE
  | ZONES_MANAGE | EVENTS_VIEW | ALARMS_VIEW | ALARMS_ACKNOWLEDGE | ALARMS_RESOLVE | RULES_MANAGE
  | USERS_MANAGE | BILLING_MANAGE | ANALYTICS_VIEW | AUDIT_VIEW

definition viewer_perms :: "permission set" where
  "viewer_perms = {SITES_VIEW, EVENTS_VIEW, ALARMS_VIEW}"

definition guard_perms :: "permission set" where
  "guard_perms = viewer_perms \<union> {DEVICES_VIEW, ALARMS_ACKNOWLEDGE}"

definition supervisor_perms :: "permission set" where
  "supervisor_perms = guard_perms \<union> {ALARMS_RESOLVE}"

definition site_manager_perms :: "permission set" where
  "site_manager_perms = supervisor_perms \<union> {ZONES_MANAGE, CAMERAS_CONFIGURE, ANALYTICS_VIEW}"

definition security_manager_perms :: "permission set" where
  "security_manager_perms = site_manager_perms \<union> {RULES_MANAGE, DEVICES_MANAGE, AUDIT_VIEW}"

definition admin_perms :: "permission set" where
  "admin_perms = security_manager_perms \<union> {SITES_MANAGE, USERS_MANAGE}"

definition owner_perms :: "permission set" where
  "owner_perms = admin_perms \<union> {BILLING_MANAGE}"

fun role_permissions :: "role \<Rightarrow> permission set" where
  "role_permissions OWNER = owner_perms"
| "role_permissions ADMIN = admin_perms"
| "role_permissions SECURITY_MANAGER = security_manager_perms"
| "role_permissions SITE_MANAGER = site_manager_perms"
| "role_permissions SUPERVISOR = supervisor_perms"
| "role_permissions GUARD = guard_perms"
| "role_permissions VIEWER = viewer_perms"
| "role_permissions BILLING_ADMIN = {BILLING_MANAGE, ANALYTICS_VIEW}"

definition permissions_for :: "string \<Rightarrow> permission set" where
  "permissions_for r = (case role_of r of None \<Rightarrow> {} | Some x \<Rightarrow> role_permissions x)"

definition has_permission :: "string \<Rightarrow> permission \<Rightarrow> bool" where
  "has_permission r p \<longleftrightarrow> p \<in> permissions_for r"

lemmas perms_defs = viewer_perms_def guard_perms_def supervisor_perms_def site_manager_perms_def
  security_manager_perms_def admin_perms_def owner_perms_def

section \<open>Tenant ownership\<close>

record tenant_context =
  ctx_tenant :: uuid
  ctx_user :: uuid
  ctx_role :: string
  ctx_permissions :: "string set"

datatype tenancy_error = Missing_permission string | Tenant_isolation

definition require_ctx :: "tenant_context \<Rightarrow> string \<Rightarrow> tenancy_error + unit" where
  "require_ctx c p = (if p \<in> ctx_permissions c then Inr () else Inl (Missing_permission p))"

definition assert_owns_ctx :: "tenant_context \<Rightarrow> uuid \<Rightarrow> tenancy_error + unit" where
  "assert_owns_ctx c t = (if t \<noteq> ctx_tenant c then Inl Tenant_isolation else Inr ())"

section \<open>What the matrix grants\<close>

lemma role_value_inject [simp]: "role_value a = role_value b \<longleftrightarrow> a = b"
  by (cases a; cases b) simp_all

lemma role_of_value [simp]: "role_of (role_value r) = Some r"
  by (cases r) (simp_all add: role_of_def all_roles_def)

lemma role_of_Some: "role_of s = Some r \<longleftrightarrow> s = role_value r"
proof
  assume "role_of s = Some r"
  then show "s = role_value r" by (auto simp: role_of_def find_Some_iff)
qed simp

lemma permissions_for_role [simp]: "permissions_for (role_value r) = role_permissions r"
  by (simp add: permissions_for_def)

lemma permissions_for_iff:
  "p \<in> permissions_for s \<longleftrightarrow> (\<exists>r. s = role_value r \<and> p \<in> role_permissions r)"
  by (auto simp: permissions_for_def role_of_Some split: option.splits)

fun seniority :: "role \<Rightarrow> nat" where
  "seniority VIEWER = 1" | "seniority GUARD = 2" | "seniority SUPERVISOR = 3"
| "seniority SITE_MANAGER = 4" | "seniority SECURITY_MANAGER = 5" | "seniority ADMIN = 6"
| "seniority OWNER = 7" | "seniority BILLING_ADMIN = 0"

lemma ladder:
  "0 < seniority a \<Longrightarrow> seniority a \<le> seniority b \<Longrightarrow> role_permissions a \<subseteq> role_permissions b"
  by (cases a; cases b) (simp_all add: perms_defs)

text \<open>
  A text that names no role grants nothing; on the operational ladder from viewer to
  owner every role has all the permissions of the roles below it; and the billing role sees
  no site, event or alarm.
\<close>

theorem role_ladder:
  "(permissions_for s \<noteq> {} \<longrightarrow> (\<exists>r. s = role_value r)) \<and>
   (0 < seniority a \<and> seniority a \<le> seniority b \<longrightarrow>
      permissions_for (role_value a) \<subseteq> permissions_for (role_value b)) \<and>
   permissions_for (role_value BILLING_ADMIN) \<inter> permissions_for (role_value VIEWER) = {}"
proof (intro conjI impI)
  show "\<exists>r. s = role_value r" if "permissions_for s \<noteq> {}"
    using that permissions_for_iff by blast
  show "permissions_for (role_value a) \<subseteq> permissions_for (role_value b)"
    if "0 < seniority a \<and> seniority a \<le> seniority b"
    unfolding permissions_for_role using that by (intro ladder) simp_all
qed (unfold permissions_for_role, simp add: perms_defs)

theorem role_ladder_witness:
  "permissions_for ''GUARD'' \<subseteq> permissions_for ''SITE_MANAGER''"
  using role_ladder [of "''GUARD''" GUARD SITE_MANAGER] by simp

text \<open>
  Who may close an incident and who may change the rules: alarms are resolved by a
  supervisor or anyone above, never by a guard, and rules are changed by owner, admin and
  security manager.
\<close>

theorem incident_authority:
  "(has_permission s ALARMS_RESOLVE \<longleftrightarrow>
      s \<in> role_value ` {OWNER, ADMIN, SECURITY_MANAGER, SITE_MANAGER, SUPERVISOR}) \<and>
   (has_permission s ALARMS_ACKNOWLEDGE \<longleftrightarrow>
      s \<in> role_value ` {OWNER, ADMIN, SECURITY_MANAGER, SITE_MANAGER, SUPERVISOR, GUARD}) \<and>
   (has_permission s RULES_MANAGE \<longleftrightarrow> s \<in> role_value ` {OWNER, ADMIN, SECURITY_MANAGER})"
proof -
  have holders: "has_permission s p \<longleftrightarrow> s \<in> role_value ` R"
    if "\<And>r. p \<in> role_permissions r \<longleftrightarrow> r \<in> R" for p R
    using that by (auto simp: has_permission_def permissions_for_iff)
  have "ALARMS_RESOLVE \<in> role_permissions r \<longleftrightarrow>
      r \<in> {OWNER, ADMIN, SECURITY_MANAGER, SITE_MANAGER, SUPERVISOR}"
    "ALARMS_ACKNOWLEDGE \<in> role_permissions r \<longleftrightarrow>
      r \<in> {OWNER, ADMIN, SECURITY_MANAGER, SITE_MANAGER, SUPERVISOR, GUARD}"
    "RULES_MANAGE \<in> role_permissions r \<longleftrightarrow> r \<in> {OWNER, ADMIN, SECURITY_MANAGER}" for r
    by (cases r; simp add: perms_defs)+
  then show ?thesis by (intro conjI holders)
qed

end
