(* ===== verification/AuthRouter.thy ===== *)
theory AuthRouter
  imports Tokens Rbac
begin

text \<open>
  Signing in, \<^verbatim>\<open>backend/app/modules/auth/router.py\<close>, and the dependencies every
  other endpoint runs behind, \<^verbatim>\<open>backend/app/core/deps.py\<close>.  Argon2 is the parameter
  \<open>verify\<close>.  A request runs in one session: an exception rolls back what was not
  committed, so each operation returns its answer and the database it leaves committed.
\<close>

section \<open>Requests behind a bearer token\<close>

datatype http_error = Http int string | Server_error

record current_user =
  cu_user :: uuid
  cu_tenant :: uuid
  cu_role :: role
  cu_permissions :: "permission set"

definition can :: "current_user \<Rightarrow> permission \<Rightarrow> bool" where
  "can u p \<longleftrightarrow> p \<in> cu_permissions u"

definition assert_owns :: "current_user \<Rightarrow> uuid \<Rightarrow> http_error + unit" where
  "assert_owns u tenant = (if tenant \<noteq> cu_tenant u then Inl (Http 404 ''not found'') else Inr ())"

definition claim_role :: "claims \<Rightarrow> role" where
  "claim_role c = (case map_of c ''role'' of
     Some (Text r) \<Rightarrow> (case role_of r of Some x \<Rightarrow> x | None \<Rightarrow> VIEWER)
   | _ \<Rightarrow> VIEWER)"

text \<open>\<^verbatim>\<open>UUID(claims[key])\<close>: a missing or malformed claim escapes as a server error.\<close>

definition claim_uuid :: "string \<Rightarrow> claims \<Rightarrow> http_error + uuid" where
  "claim_uuid k c = (case map_of c k of
     Some (Text s) \<Rightarrow> (case parse_uuid s of Some u \<Rightarrow> Inr u | None \<Rightarrow> Inl Server_error)
   | _ \<Rightarrow> Inl Server_error)"

definition get_current_user :: "jwt_decoder \<Rightarrow> string \<Rightarrow> string option \<Rightarrow> instant \<Rightarrow> http_error + current_user" where
  "get_current_user dec secret credentials now =
    (case credentials of
       None \<Rightarrow> Inl (Http 401 ''authentication required'')
     | Some token \<Rightarrow>
         if token = [] then Inl (Http 401 ''authentication required'')
         else case decode_access_token dec token secret now of
           Inl (Token_expired _) \<Rightarrow> Inl (Http 401 ''token expired'')
         | Inl _ \<Rightarrow> Inl (Http 401 ''invalid token'')
         | Inr c \<Rightarrow>
             bind_err (claim_uuid ''sub'' c) (\<lambda>user.
             bind_err (claim_uuid ''tid'' c) (\<lambda>tenant.
               Inr \<lparr>cu_user = user, cu_tenant = tenant, cu_role = claim_role c,
                    cu_permissions = role_permissions (claim_role c)\<rparr>)))"

fun permission_value :: "permission \<Rightarrow> string" where
  "permission_value SITES_VIEW = ''sites.view''"
| "permission_value SITES_MANAGE = ''sites.manage''"
| "permission_value DEVICES_VIEW = ''devices.view''"
| "permission_value DEVICES_MANAGE = ''devices.manage''"
| "permission_value CAMERAS_CONFIGURE = ''cameras.configure''"
| "permission_value ZONES_MANAGE = ''zones.manage''"
| "permission_value EVENTS_VIEW = ''events.view''"
| "permission_value ALARMS_VIEW = ''alarms.view''"
| "permission_value ALARMS_ACKNOWLEDGE = ''alarms.acknowledge''"
| "permission_value ALARMS_RESOLVE = ''alarms.resolve''"
| "permission_value RULES_MANAGE = ''rules.manage''"
| "permission_value USERS_MANAGE = ''users.manage''"
| "permission_value BILLING_MANAGE = ''billing.manage''"
| "permission_value ANALYTICS_VIEW = ''analytics.view''"
| "permission_value AUDIT_VIEW = ''audit.view''"

definition require :: "permission \<Rightarrow> current_user \<Rightarrow> http_error + current_user" where
  "require p u = (if \<not> can u p then Inl (Http 403 (''missing permission: '' @ permission_value p))
                  else Inr u)"

section \<open>Signing in and out\<close>

record auth_db =
  users :: "user_row list"
  tokens :: "refresh_record list"

record auth_env =
  env_hash :: "string \<Rightarrow> string"
  env_encode :: jwt_encoder
  env_verify :: "string \<Rightarrow> string \<Rightarrow> bool"
  env_settings :: token_settings

definition invalid_credentials :: "http_error + 'a" where
  "invalid_credentials = Inl (Http 401 ''invalid credentials'')"

text \<open>The insert fails on the unique index when the hash is taken already.\<close>

definition store_refresh :: "refresh_record \<Rightarrow> auth_db \<Rightarrow> http_error + auth_db" where
  "store_refresh r db = (if rt_hash r \<in> rt_hash ` set (tokens db) then Inl Server_error
     else Inr (db\<lparr>tokens := tokens db @ [r]\<rparr>))"

definition issue :: "auth_env \<Rightarrow> uuid \<Rightarrow> uuid \<Rightarrow> string \<Rightarrow> uuid option \<Rightarrow> instant \<Rightarrow> token_draw \<Rightarrow> issued_tokens" where
  "issue e = issue_tokens (env_hash e) (env_encode e) (env_settings e)"

definition answer :: "auth_db \<Rightarrow> issued_tokens \<Rightarrow> http_error + auth_db
    \<Rightarrow> (http_error + issued_tokens) \<times> auth_db" where
  "answer before issued stored = (case stored of Inl e \<Rightarrow> (Inl e, before) | Inr db \<Rightarrow> (Inr issued, db))"

definition login :: "auth_env \<Rightarrow> string \<Rightarrow> string \<Rightarrow> instant \<Rightarrow> token_draw \<Rightarrow> auth_db
    \<Rightarrow> (http_error + issued_tokens) \<times> auth_db" where
  "login e email password now d db =
    (case lookup_row user_email (lower email) (users db) of
       None \<Rightarrow> (invalid_credentials, db)
     | Some u \<Rightarrow>
         if \<not> env_verify e password (user_hash u) then (invalid_credentials, db)
         else if \<not> user_active u then (invalid_credentials, db)
         else let issued = issue e (user_id u) (user_tenant u) (user_role u) None now d
              in answer db issued (store_refresh (issued_record issued) db))"

definition revoke_rows :: "uuid \<Rightarrow> instant \<Rightarrow> refresh_record list \<Rightarrow> refresh_record list" where
  "revoke_rows f now rows =
     map (\<lambda>r. if rt_family r = f \<and> rt_revoked r = None then r\<lparr>rt_revoked := Some now\<rparr> else r) rows"

definition refresh :: "auth_env \<Rightarrow> string \<Rightarrow> instant \<Rightarrow> token_draw \<Rightarrow> auth_db
    \<Rightarrow> (http_error + issued_tokens) \<times> auth_db" where
  "refresh e token now d db =
    (let k = env_hash e token in
     case lookup_row rt_hash k (tokens db) of
       None \<Rightarrow> (Inl (Http 401 ''invalid refresh token''), db)
     | Some r \<Rightarrow>
         if rt_revoked r \<noteq> None
         then (Inl (Http 401 ''refresh token reuse detected; please sign in again''),
               db\<lparr>tokens := revoke_rows (rt_family r) now (tokens db)\<rparr>)
         else if rt_expires r \<le> now
         then (Inl (Http 401 ''refresh token expired''),
               db\<lparr>tokens := update_row rt_hash k (\<lambda>r. r\<lparr>rt_revoked := Some now\<rparr>) (tokens db)\<rparr>)
         else case lookup_row user_id (rt_user r) (users db) of
           None \<Rightarrow> (invalid_credentials, db)
         | Some u \<Rightarrow>
             if \<not> user_active u then (invalid_credentials, db)
             else let issued = issue e (user_id u) (user_tenant u) (user_role u) (Some (rt_family r)) now d;
                      retired = (\<lambda>r. r\<lparr>rt_revoked := Some now,
                        rt_replaced_by := Some (rt_id (issued_record issued))\<rparr>)
                  in answer db issued (store_refresh (issued_record issued)
                       (db\<lparr>tokens := update_row rt_hash k retired (tokens db)\<rparr>)))"

definition logout :: "auth_env \<Rightarrow> string \<Rightarrow> instant \<Rightarrow> auth_db \<Rightarrow> auth_db" where
  "logout e token now db =
    (let k = env_hash e token in
     case lookup_row rt_hash k (tokens db) of
       None \<Rightarrow> db
     | Some r \<Rightarrow> if rt_revoked r = None
         then db\<lparr>tokens := update_row rt_hash k (\<lambda>r. r\<lparr>rt_revoked := Some now\<rparr>) (tokens db)\<rparr> else db)"

record me_response =
  me_id :: uuid
  me_tenant :: uuid
  me_email :: string
  me_name :: "string option"
  me_role :: string
  me_permissions :: "permission set"

definition me :: "auth_db \<Rightarrow> current_user \<Rightarrow> http_error + me_response" where
  "me db u = (case lookup_row user_id (cu_user u) (users db) of
     None \<Rightarrow> Inl (Http 404 ''not found'')
   | Some r \<Rightarrow> Inr \<lparr>me_id = user_id r, me_tenant = user_tenant r, me_email = user_email r,
       me_name = user_name r, me_role = user_role r, me_permissions = permissions_for (user_role r)\<rparr>)"

section \<open>The database keeps the store's contract\<close>

datatype auth_op = Login string string instant token_draw | Refresh string instant token_draw
  | Logout string instant

fun auth_step :: "auth_env \<Rightarrow> auth_op \<Rightarrow> auth_db \<Rightarrow> auth_db" where
  "auth_step e (Login em pw now d) db = snd (login e em pw now d db)"
| "auth_step e (Refresh t now d) db = snd (refresh e t now d db)"
| "auth_step e (Logout t now) db = logout e t now db"

fun auth_accepts :: "auth_env \<Rightarrow> auth_op \<Rightarrow> auth_db \<Rightarrow> bool" where
  "auth_accepts e (Refresh t now d) db \<longleftrightarrow> (\<exists>i. fst (refresh e t now d db) = Inr i)"
| "auth_accepts e _ db \<longleftrightarrow> False"

fun auth_presents :: "auth_env \<Rightarrow> auth_op \<Rightarrow> auth_db \<Rightarrow> refresh_record option" where
  "auth_presents e (Refresh t now d) db = lookup_row rt_hash (env_hash e t) (tokens db)"
| "auth_presents e _ db = None"

fun auth_opens :: "auth_op \<Rightarrow> uuid set" where
  "auth_opens (Login em pw now d) = {draw_family d}"
| "auth_opens _ = {}"

definition auth_records :: "auth_db \<Rightarrow> refresh_record set" where
  "auth_records db = set (tokens db)"

lemma revoked_rows:
  "q \<in> set (revoke_rows f now rows) \<Longrightarrow>
     (rt_family q = f \<longrightarrow> \<not> is_active q) \<and> (is_active q \<longrightarrow> q \<in> set rows)"
  by (auto simp: revoke_rows_def is_active_def split: if_splits)

lemma revoked_update:
  "q \<in> set (update_row rt_hash k f rows) \<Longrightarrow> is_active q \<Longrightarrow> (\<And>r. \<not> is_active (f r)) \<Longrightarrow> q \<in> set rows"
  by (auto simp: set_update_row split: if_splits)

lemma answer_tokens:
  "q \<in> set (tokens (snd (answer db issued (store_refresh r db')))) \<Longrightarrow>
     q \<in> set (tokens db) \<or> q = r \<or> q \<in> set (tokens db')"
  by (auto simp: answer_def store_refresh_def split: if_splits)

lemma login_tokens:
  "q \<in> set (tokens (snd (login e em pw now d db))) \<Longrightarrow> q \<in> set (tokens db) \<or> rt_family q = draw_family d"
  by (auto simp: login_def Let_def issue_def issue_tokens_def dest!: answer_tokens
      split: option.splits if_splits)

lemma refresh_tokens:
  assumes "q \<in> set (tokens (snd (refresh e t now d db)))" and "is_active q"
  shows "\<exists>p \<in> set (tokens db). is_active p \<and> rt_family p = rt_family q"
proof (cases "lookup_row rt_hash (env_hash e t) (tokens db)")
  case None
  with assms show ?thesis by (auto simp: refresh_def Let_def)
next
  case (Some r)
  note r = lookup_row_Some [OF Some]
  consider "rt_revoked r \<noteq> None" | "rt_revoked r = None" "rt_expires r \<le> now"
    | "rt_revoked r = None" "\<not> rt_expires r \<le> now" by blast
  then show ?thesis
  proof cases
    case 1
    with Some assms have "q \<in> set (revoke_rows (rt_family r) now (tokens db))"
      by (simp add: refresh_def)
    from revoked_rows [OF this] assms(2) show ?thesis by blast
  next
    case 2
    with Some assms have "q \<in> set (update_row rt_hash (env_hash e t) (\<lambda>r. r\<lparr>rt_revoked := Some now\<rparr>) (tokens db))"
      by (simp add: refresh_def)
    from revoked_update [OF this assms(2)] assms(2) show ?thesis by (auto simp: is_active_def)
  next
    case 3
    show ?thesis
    proof (cases "\<exists>u. lookup_row user_id (rt_user r) (users db) = Some u \<and> user_active u")
      case False
      with 3 Some assms show ?thesis
        by (auto simp: refresh_def Let_def split: option.splits if_splits)
    next
      case True
      then obtain u where u: "lookup_row user_id (rt_user r) (users db) = Some u" "user_active u" by blast
      let ?i = "issued_record (issue e (user_id u) (user_tenant u) (user_role u) (Some (rt_family r)) now d)"
      let ?f = "\<lambda>r. r\<lparr>rt_revoked := Some now, rt_replaced_by := Some (rt_id ?i)\<rparr>"
      from 3 Some u assms(1) have "q \<in> set (tokens (snd (answer db
          (issue e (user_id u) (user_tenant u) (user_role u) (Some (rt_family r)) now d)
          (store_refresh ?i (db\<lparr>tokens := update_row rt_hash (env_hash e t) ?f (tokens db)\<rparr>)))))"
        by (simp add: refresh_def Let_def)
      from answer_tokens [OF this] consider "q \<in> set (tokens db)" | "q = ?i"
        | "q \<in> set (update_row rt_hash (env_hash e t) ?f (tokens db))" by auto
      then show ?thesis
      proof cases
        case 2
        with r 3 show ?thesis by (auto simp: issue_def issue_tokens_def is_active_def)
      next
        case 3
        from revoked_update [OF this assms(2)] assms(2) show ?thesis by (auto simp: is_active_def)
      qed (use assms(2) in blast)
    qed
  qed
qed

lemma logout_tokens: "q \<in> set (tokens (logout e t now db)) \<Longrightarrow> is_active q \<Longrightarrow> q \<in> set (tokens db)"
  by (auto simp: logout_def Let_def is_active_def dest!: revoked_update split: option.splits if_splits)

interpretation db: refresh_store auth_records "auth_step e" "auth_accepts e" "auth_presents e" auth_opens
  for e
proof
  show "r \<in> auth_records s \<and> is_active r"
    if "auth_accepts e x s" "auth_presents e x s = Some r" for x s r
    using that
    by (cases x) (auto simp: refresh_def Let_def auth_records_def is_active_def
        dest: lookup_row_Some split: if_splits)
  show "rt_family r \<in> auth_opens x \<or> (\<exists>q \<in> auth_records s. is_active q \<and> rt_family q = rt_family r)"
    if "r \<in> auth_records (auth_step e x s)" "is_active r" for r x s
    using that
    by (cases x) (auto simp: auth_records_def dest: login_tokens refresh_tokens logout_tokens)
  show "\<not> is_active q"
    if "auth_presents e x s = Some r" "\<not> is_active r" "q \<in> auth_records (auth_step e x s)"
      "rt_family q = rt_family r" for x s r q
    using that
    by (cases x) (auto simp: auth_records_def refresh_def is_active_def Let_def dest: revoked_rows [unfolded is_active_def])
qed

section \<open>A replay ends the session\<close>

text \<open>
  C8. When a retired refresh token is presented again the request is refused, and from then
  on, whatever sign-ins, refreshes and sign-outs follow, as long as no sign-in draws the same
  family identifier, no token of that session family is ever exchanged again.
\<close>

theorem replay_ends_the_session:
  assumes "lookup_row rt_hash (env_hash e t) (tokens db) = Some r" and "rt_revoked r \<noteq> None"
    and "\<forall>x \<in> set ops. rt_family r \<notin> auth_opens x"
    and "later = fold (auth_step e) ops (snd (refresh e t now d db))"
    and "lookup_row rt_hash (env_hash e t') (tokens later) = Some q" and "rt_family q = rt_family r"
  shows "fst (refresh e t now d db) = Inl (Http 401 ''refresh token reuse detected; please sign in again'') \<and>
    (\<nexists>i. fst (refresh e t' now' d' later) = Inr i)"
proof
  show "fst (refresh e t now d db) = Inl (Http 401 ''refresh token reuse detected; please sign in again'')"
    using assms(1,2) by (simp add: refresh_def)
  have "auth_presents e (Refresh t now d) db = Some r" "\<not> is_active r"
    using assms(1,2) by (simp_all add: is_active_def)
  moreover have "auth_presents e (Refresh t' now' d') (fold (auth_step e) ops (auth_step e (Refresh t now d) db)) = Some q"
    using assms(4,5) by simp
  ultimately have "\<not> auth_accepts e (Refresh t' now' d') (fold (auth_step e) ops (auth_step e (Refresh t now d) db))"
    using db.family_stays_dead assms(3,6) by blast
  then show "\<nexists>i. fst (refresh e t' now' d' later) = Inr i" using assms(4) by simp
qed

definition plain_env :: auth_env where
  "plain_env = \<lparr>env_hash = id, env_encode = (\<lambda>_ _. ''jwt''), env_verify = (=),
     env_settings = default_ttls ''secret''\<rparr>"

definition session_token :: "string \<Rightarrow> instant option \<Rightarrow> refresh_record" where
  "session_token t revoked = \<lparr>rt_id = 1, rt_user = 3, rt_tenant = 1, rt_hash = t, rt_family = 5,
     rt_issued = 0, rt_expires = 30 * day, rt_revoked = revoked, rt_replaced_by = None\<rparr>"

definition signed_in :: auth_db where
  "signed_in = \<lparr>users = [\<lparr>user_id = 3, user_tenant = 1, user_email = ''a@b'', user_hash = ''pw'',
       user_name = None, user_role = ''GUARD'', user_active = True\<rparr>],
     tokens = [session_token ''old'' (Some 0), session_token ''new'' None]\<rparr>"

definition some_draw :: token_draw where
  "some_draw = \<lparr>draw_refresh = ''fresh'', draw_record = 8, draw_family = 9, draw_jti = 10\<rparr>"

theorem replay_ends_the_session_witness:
  "let db = snd (refresh plain_env ''old'' second some_draw signed_in)
   in \<nexists>i. fst (refresh plain_env ''new'' (2 * second) some_draw db) = Inr i"
proof -
  have 1: "lookup_row rt_hash (env_hash plain_env ''old'') (tokens signed_in) =
      Some (session_token ''old'' (Some 0))"
    by (simp add: lookup_row_def plain_env_def signed_in_def session_token_def)
  have 2: "rt_revoked (session_token ''old'' (Some 0)) \<noteq> None" by (simp add: session_token_def)
  have 4: "\<forall>x \<in> set []. rt_family (session_token ''old'' (Some 0)) \<notin> auth_opens x" by simp
  let ?db = "fold (auth_step plain_env) [] (snd (refresh plain_env ''old'' second some_draw signed_in))"
  have 5: "lookup_row rt_hash (env_hash plain_env ''new'') (tokens ?db) =
      Some (session_token ''new'' (Some second))"
    by (simp add: lookup_row_def plain_env_def signed_in_def session_token_def refresh_def revoke_rows_def)
  have 6: "rt_family (session_token ''new'' (Some second)) = rt_family (session_token ''old'' (Some 0))"
    by (simp add: session_token_def)
  from replay_ends_the_session [OF 1 2 4 refl 5 6] show ?thesis by (simp add: Let_def)
qed

section \<open>The endpoint and the in-memory store agree\<close>

definition store_of :: "refresh_record list \<Rightarrow> token_store" where
  "store_of rows = map (\<lambda>r. (rt_hash r, r)) rows"

lemma map_of_store_of: "map_of (store_of rows) k = lookup_row rt_hash k rows"
  by (induction rows) (auto simp: store_of_def lookup_row_def)

lemma store_of_append: "rt_hash r \<notin> rt_hash ` set rows \<Longrightarrow>
    dict_set (rt_hash r) r (store_of rows) = store_of (rows @ [r])"
  by (induction rows) (auto simp: store_of_def)

lemma store_of_update:
  assumes "distinct (map rt_hash rows)" and "r \<in> set rows" and "rt_hash (f r) = rt_hash r"
  shows "dict_set (rt_hash r) (f r) (store_of rows) = store_of (update_row rt_hash (rt_hash r) f rows)"
  using assms
proof (induction rows)
  case Nil
  then show ?case by simp
next
  case (Cons q rows)
  show ?case
  proof (cases "q = r")
    case True
    with Cons.prems have "update_row rt_hash (rt_hash r) f rows = rows"
      by (auto simp: update_row_def intro!: map_idI) (metis imageI)
    with True Cons.prems show ?thesis by (simp add: store_of_def update_row_def)
  next
    case False
    with Cons.prems have "rt_hash q \<noteq> rt_hash r" by (auto simp: rev_image_eqI)
    with False Cons show ?thesis by (auto simp: store_of_def update_row_def)
  qed
qed

lemma store_of_revoke: "snd (revoke_family f now (store_of rows)) = store_of (revoke_rows f now rows)"
  by (auto simp: revoke_family_def store_of_def revoke_rows_def is_active_def)

text \<open>
  C24. The refresh endpoint follows the rules of the in-memory store: on a token table with
  unique hashes, for a live session whose user is active and in the token's tenant, it
  answers with the same tokens exactly when the store does, and leaves the same records.
\<close>

theorem refresh_follows_the_store:
  assumes "distinct (map rt_hash (tokens db))" and "env_hash e (draw_refresh d) \<notin> rt_hash ` set (tokens db)"
    and "\<And>r. r \<in> set (tokens db) \<Longrightarrow> rt_hash r = env_hash e t \<Longrightarrow>
      \<exists>u. lookup_row user_id (rt_user r) (users db) = Some u \<and> user_active u \<and>
        user_tenant u = rt_tenant r \<and> user_role u = role"
  shows "store_of (tokens (snd (refresh e t now d db))) =
      snd (rotate (env_hash e) (env_encode e) (env_settings e) t role now d (store_of (tokens db))) \<and>
    (\<forall>i. fst (refresh e t now d db) = Inr i \<longleftrightarrow>
      fst (rotate (env_hash e) (env_encode e) (env_settings e) t role now d (store_of (tokens db))) = Inr i)"
proof (cases "lookup_row rt_hash (env_hash e t) (tokens db)")
  case None
  then show ?thesis by (simp add: refresh_def rotate_def find_record_def map_of_store_of)
next
  case (Some r)
  note r = lookup_row_Some [OF Some]
  from assms(3) [of r] r obtain u where u: "lookup_row user_id (rt_user r) (users db) = Some u"
    "user_active u" "user_tenant u = rt_tenant r" "user_role u = role" by blast
  have uid: "user_id u = rt_user r" using lookup_row_Some [OF u(1)] by simp
  have upd: "dict_set (env_hash e t) (f r) (store_of (tokens db)) =
      store_of (update_row rt_hash (env_hash e t) f (tokens db))" if "rt_hash (f r) = rt_hash r" for f
    using store_of_update [OF assms(1), of r f] r that by simp
  let ?i = "issue e (rt_user r) (rt_tenant r) role (Some (rt_family r)) now d"
  let ?f = "\<lambda>r. r\<lparr>rt_revoked := Some now, rt_replaced_by := Some (rt_id (issued_record ?i))\<rparr>"
  let ?rows = "update_row rt_hash (env_hash e t) ?f (tokens db)"
  have hash: "rt_hash (issued_record ?i) = env_hash e (draw_refresh d)"
    by (simp add: issue_def issue_tokens_def)
  have "rt_hash ` set ?rows = rt_hash ` set (tokens db)"
    by (simp only: flip: set_map) (simp add: keys_update_row)
  then have fresh: "rt_hash (issued_record ?i) \<notin> rt_hash ` set ?rows" using assms(2) hash by simp
  note rotated = refresh_def rotate_def find_record_def map_of_store_of is_active_def is_expired_def
  consider "rt_revoked r \<noteq> None" | "rt_revoked r = None" "rt_expires r \<le> now"
    | "rt_revoked r = None" "\<not> rt_expires r \<le> now" by blast
  then show ?thesis
  proof cases
    case 1
    with Some show ?thesis by (simp add: rotated store_of_revoke)
  next
    case 2
    with Some upd [of "\<lambda>r. r\<lparr>rt_revoked := Some now\<rparr>"] show ?thesis by (simp add: rotated)
  next
    case 3
    with Some u uid fresh show ?thesis
      using upd [of ?f] store_of_append [OF fresh]
      by (simp add: rotated Let_def answer_def store_refresh_def add_record_def issue_def)
  qed
qed

theorem refresh_follows_the_store_witness:
  "store_of (tokens (snd (refresh plain_env ''new'' second some_draw signed_in))) =
     snd (rotate id (\<lambda>_ _. ''jwt'') (default_ttls ''secret'') ''new'' ''GUARD'' second some_draw
       (store_of (tokens signed_in)))"
proof -
  have "distinct (map rt_hash (tokens signed_in))"
    "env_hash plain_env (draw_refresh some_draw) \<notin> rt_hash ` set (tokens signed_in)"
    "\<And>r. r \<in> set (tokens signed_in) \<Longrightarrow> rt_hash r = env_hash plain_env ''new'' \<Longrightarrow>
      \<exists>u. lookup_row user_id (rt_user r) (users signed_in) = Some u \<and> user_active u \<and>
        user_tenant u = rt_tenant r \<and> user_role u = ''GUARD''"
    by (auto simp: signed_in_def session_token_def plain_env_def some_draw_def lookup_row_def)
  from refresh_follows_the_store [where now = second, OF this] show ?thesis by (simp add: plain_env_def)
qed

section \<open>Access tokens name their user\<close>

text \<open>
  Behind a JWT library that decodes a token it encoded, text claims intact, while its
  expiry plus leeway lies ahead, a token minted for a user is accepted in that window and yields that user, that
  tenant, and exactly the permissions of the role it names, those of a viewer when the
  role's name is unknown.
\<close>

theorem access_token_names_its_user:
  assumes "\<And>t. issued \<le> t + leeway \<Longrightarrow> t < issued + ttl * minute + leeway \<Longrightarrow>
      \<exists>c. dec (enc (access_claims user tenant r ttl issued jti) secret) secret t leeway = Inr c \<and>
        (\<forall>f s. map_of (access_claims user tenant r ttl issued jti) f = Some (Text s) \<longrightarrow>
           map_of c f = Some (Text s))"
    and "enc (access_claims user tenant r ttl issued jti) secret \<noteq> []"
    and "user < 2 ^ 128" and "tenant < 2 ^ 128"
    and "issued \<le> now + leeway" and "now < issued + ttl * minute + leeway"
  shows "\<exists>u. get_current_user dec secret
      (Some (create_access_token enc user tenant r secret ttl issued jti)) now = Inr u \<and>
    cu_user u = user \<and> cu_tenant u = tenant \<and>
    cu_permissions u = (if role_of r = None then permissions_for ''VIEWER'' else permissions_for r)"
proof -
  let ?c = "access_claims user tenant r ttl issued jti"
  from assms(1) [OF assms(5,6)] obtain c' where
    c': "dec (enc ?c secret) secret now leeway = Inr c'"
      "\<And>f s. map_of ?c f = Some (Text s) \<Longrightarrow> map_of c' f = Some (Text s)" by blast
  have claims: "map_of c' ''typ'' = Some (Text ''access'')" "map_of c' ''sub'' = Some (Text (uuid_text user))"
    "map_of c' ''tid'' = Some (Text (uuid_text tenant))" "map_of c' ''role'' = Some (Text r)"
    by (rule c'(2), simp add: access_claims_def)+
  have "role_permissions VIEWER = permissions_for ''VIEWER''"
    using permissions_for_role [of VIEWER] by simp
  then have perms: "role_permissions (claim_role c') =
      (if role_of r = None then permissions_for ''VIEWER'' else permissions_for r)"
    using claims(4) by (auto simp: claim_role_def permissions_for_def)
  have uuids: "claim_uuid ''sub'' c' = Inr user" "claim_uuid ''tid'' c' = Inr tenant"
    using claims assms(3,4) by (simp_all add: claim_uuid_def parse_uuid_text)
  show ?thesis
    using c'(1) claims(1) uuids perms assms(2)
    by (simp add: get_current_user_def create_access_token_def decode_access_token_def)
qed

theorem access_token_names_its_user_witness:
  "\<exists>u. get_current_user (\<lambda>_ _ _ _. Inr (access_claims 3 1 ''GUARD'' 15 0 7)) ''k''
      (Some (create_access_token (\<lambda>_ _. ''jwt'') 3 1 ''GUARD'' ''k'' 15 0 7)) minute = Inr u \<and>
    cu_user u = 3 \<and> cu_tenant u = 1"
proof -
  have law: "\<exists>c. (\<lambda>_ _ _ _. Inr (access_claims 3 1 ''GUARD'' 15 0 7))
        ((\<lambda>_ _. ''jwt'') (access_claims 3 1 ''GUARD'' 15 0 7) ''k'') ''k'' t leeway = Inr c \<and>
      (\<forall>f s. map_of (access_claims 3 1 ''GUARD'' 15 0 7) f = Some (Text s) \<longrightarrow> map_of c f = Some (Text s))"
    for t :: instant by blast
  from access_token_names_its_user [where dec = "\<lambda>_ _ _ _. Inr (access_claims 3 1 ''GUARD'' 15 0 7)"
      and enc = "\<lambda>_ _. ''jwt''" and user = 3 and tenant = 1 and r = "''GUARD''" and ttl = 15
      and issued = 0 and jti = 7 and secret = "''k''" and now = minute, OF law]
  show ?thesis by (auto simp: leeway_def seconds_def)
qed

text \<open>
  The comment beside the fallback says an unknown role is granted nothing useful; the
  matrix indeed grants it nothing, but the request runs as a viewer and may read sites,
  events and alarms.
\<close>

theorem unknown_role_reads_alarms:
  assumes "role_of r = None" and "map_of c ''role'' = Some (Text r)"
  shows "permissions_for r = {} \<and> ALARMS_VIEW \<in> role_permissions (claim_role c)"
  using assms by (simp add: permissions_for_def claim_role_def viewer_perms_def)

theorem unknown_role_reads_alarms_witness:
  "permissions_for ''JANITOR'' = {} \<and>
   ALARMS_VIEW \<in> role_permissions (claim_role [(''role'', Text ''JANITOR'')])"
  by (rule unknown_role_reads_alarms) (simp_all add: role_of_def all_roles_def)

end
