(* ===== verification/Hub.thy ===== *)
theory Hub
  imports Identifiers
begin

text \<open>
  Live updates, \<^verbatim>\<open>backend/app/modules/realtime/hub.py\<close>: subscriptions by tenant, each
  with a queue of at most fifty frames, publishing that never waits, and the frames sent.
  \<open>isof\<close> renders an instant.
\<close>

section \<open>Subscribers\<close>

type_synonym frame = pyval

definition queue_limit :: nat where
  "queue_limit = 50"

record subscriber =
  sub_id :: uuid
  sub_tenant :: uuid
  sub_user :: uuid
  sub_queue :: "frame list"
  sub_dropped :: nat

definition new_subscriber :: "uuid \<Rightarrow> uuid \<Rightarrow> uuid \<Rightarrow> subscriber" where
  "new_subscriber i tenant user = \<lparr>sub_id = i, sub_tenant = tenant, sub_user = user, sub_queue = [],
     sub_dropped = 0\<rparr>"

definition offer :: "frame \<Rightarrow> subscriber \<Rightarrow> bool \<times> subscriber" where
  "offer f s = (if length (sub_queue s) < queue_limit then (True, s\<lparr>sub_queue := sub_queue s @ [f]\<rparr>)
     else (False, s\<lparr>sub_dropped := sub_dropped s + 1\<rparr>))"

section \<open>The hub\<close>

type_synonym group = "(uuid, subscriber) dict"
type_synonym hub = "(uuid, group) dict"

definition group_of :: "hub \<Rightarrow> uuid \<Rightarrow> group" where
  "group_of h tenant = (case map_of h tenant of None \<Rightarrow> [] | Some g \<Rightarrow> g)"

definition subscriber_count :: "hub \<Rightarrow> uuid option \<Rightarrow> nat" where
  "subscriber_count h tenant = (case tenant of
     Some t \<Rightarrow> length (group_of h t) | None \<Rightarrow> sum_list (map (length \<circ> snd) h))"

definition join :: "uuid \<Rightarrow> uuid \<Rightarrow> uuid \<Rightarrow> hub \<Rightarrow> hub" where
  "join i tenant user h =
     dict_set tenant (dict_set i (new_subscriber i tenant user) (group_of h tenant)) h"

text \<open>The \<^verbatim>\<open>finally\<close> of \<^verbatim>\<open>subscribe\<close>: an emptied group goes too.\<close>

definition leave :: "uuid \<Rightarrow> uuid \<Rightarrow> hub \<Rightarrow> hub" where
  "leave i tenant h =
    (let g = dict_del i (group_of h tenant)
     in if g = [] then dict_del tenant h else dict_set tenant g h)"

definition publish :: "uuid \<Rightarrow> frame \<Rightarrow> hub \<Rightarrow> nat \<times> hub" where
  "publish tenant f h =
    (let g = group_of h tenant
     in if g = [] then (0, h)
        else (length (filter (\<lambda>(_, s). fst (offer f s)) g),
              dict_set tenant (map (\<lambda>(i, s). (i, snd (offer f s))) g) h))"

text \<open>One turn of \<^verbatim>\<open>frames\<close> for a connection: the next frame, or the heartbeat.\<close>

definition make_frame :: "(instant \<Rightarrow> string) \<Rightarrow> instant \<Rightarrow> string \<Rightarrow> (string \<times> pyval) list \<Rightarrow> frame" where
  "make_frame isof now ty payload =
     PDict [(''type'', PStr ty), (''sent_at'', PStr (isof now)), (''data'', PDict payload)]"

definition next_frame :: "(instant \<Rightarrow> string) \<Rightarrow> instant \<Rightarrow> subscriber \<Rightarrow> frame \<times> subscriber" where
  "next_frame isof now s = (case sub_queue s of
     f # fs \<Rightarrow> (f, s\<lparr>sub_queue := fs\<rparr>)
   | [] \<Rightarrow> (make_frame isof now ''heartbeat'' [(''queued'', PInt 0)], s))"

definition alarm_frame :: "(instant \<Rightarrow> string) \<Rightarrow> instant \<Rightarrow> (string \<times> pyval) list \<Rightarrow> uuid option \<Rightarrow> frame" where
  "alarm_frame isof now payload event =
    (let e = (case event of Some u \<Rightarrow> PStr (uuid_text u)
              | None \<Rightarrow> (case map_of payload ''event_id'' of Some v \<Rightarrow> v | None \<Rightarrow> PStr ''None''))
     in make_frame isof now ''alarm.raised'' (dict_set ''event_id'' e payload))"

definition event_frame :: "(instant \<Rightarrow> string) \<Rightarrow> instant \<Rightarrow> uuid \<Rightarrow> string \<Rightarrow> string \<Rightarrow> string option \<Rightarrow> instant
    \<Rightarrow> frame" where
  "event_frame isof now event event_type severity camera occurred =
     make_frame isof now ''event.recorded''
       [(''event_id'', PStr (uuid_text event)), (''event_type'', PStr event_type),
        (''severity'', PStr severity),
        (''camera_name'', case camera of None \<Rightarrow> PNone | Some c \<Rightarrow> PStr c),
        (''occurred_at'', PStr (isof occurred))]"

definition alarm_status_frame :: "(instant \<Rightarrow> string) \<Rightarrow> instant \<Rightarrow> uuid \<Rightarrow> string \<Rightarrow> uuid option \<Rightarrow> frame" where
  "alarm_status_frame isof now alarm status actor =
     make_frame isof now ''alarm.updated''
       [(''alarm_id'', PStr (uuid_text alarm)), (''status'', PStr status),
        (''actor_id'', case actor of None \<Rightarrow> PNone | Some a \<Rightarrow> PStr (uuid_text a))]"

section \<open>Every history of the hub\<close>

datatype hub_op = Join uuid uuid uuid | Leave uuid uuid | Publish uuid frame | Take uuid uuid

definition take_frame :: "uuid \<Rightarrow> uuid \<Rightarrow> hub \<Rightarrow> hub" where
  "take_frame i tenant h = (case map_of (group_of h tenant) i of
     None \<Rightarrow> h
   | Some s \<Rightarrow> dict_set tenant (dict_set i (snd (next_frame (\<lambda>_. []) 0 s)) (group_of h tenant)) h)"

fun hub_step :: "hub_op \<Rightarrow> hub \<Rightarrow> hub" where
  "hub_step (Join i tenant user) h = join i tenant user h"
| "hub_step (Leave i tenant) h = leave i tenant h"
| "hub_step (Publish tenant f) h = snd (publish tenant f h)"
| "hub_step (Take i tenant) h = take_frame i tenant h"

definition hub_wf :: "hub \<Rightarrow> bool" where
  "hub_wf h \<longleftrightarrow> (\<forall>t g. map_of h t = Some g \<longrightarrow> g \<noteq> [] \<and>
     (\<forall>i s. map_of g i = Some s \<longrightarrow> sub_id s = i \<and> sub_tenant s = t \<and> length (sub_queue s) \<le> queue_limit))"

lemma group_of_set [simp]: "group_of (dict_set t g h) t' = (if t' = t then g else group_of h t')"
  by (simp add: group_of_def)

lemma group_wf: "hub_wf h \<Longrightarrow> map_of (group_of h t) i = Some s \<Longrightarrow>
    sub_id s = i \<and> sub_tenant s = t \<and> length (sub_queue s) \<le> queue_limit"
  by (auto simp: hub_wf_def group_of_def split: option.splits)

lemma hub_wf_set:
  assumes "hub_wf h" and "g \<noteq> []"
    and "\<And>i s. map_of g i = Some s \<Longrightarrow> sub_id s = i \<and> sub_tenant s = t \<and> length (sub_queue s) \<le> queue_limit"
  shows "hub_wf (dict_set t g h)"
  using assms unfolding hub_wf_def by auto

lemma map_of_map_snd: "map_of (map (\<lambda>(i, s). (i, f s)) g) i = map_option f (map_of g i)"
  by (induction g) auto

lemma offer_fields: "sub_id (snd (offer f s)) = sub_id s" "sub_tenant (snd (offer f s)) = sub_tenant s"
  "length (sub_queue s) \<le> queue_limit \<Longrightarrow> length (sub_queue (snd (offer f s))) \<le> queue_limit"
  by (simp_all add: offer_def)

lemma dict_set_ne [simp]: "dict_set k v d \<noteq> []"
  by (cases d) (auto split: if_splits)

lemma hub_wf_replace:
  assumes "hub_wf h" and "sub_id s' = i" "sub_tenant s' = t" "length (sub_queue s') \<le> queue_limit"
  shows "hub_wf (dict_set t (dict_set i s' (group_of h t)) h)"
proof (rule hub_wf_set [OF assms(1)])
  fix j s assume "map_of (dict_set i s' (group_of h t)) j = Some s"
  then show "sub_id s = j \<and> sub_tenant s = t \<and> length (sub_queue s) \<le> queue_limit"
    using assms group_wf [OF assms(1), of t j s] by (cases "j = i") auto
qed simp

lemma leave_wf: "hub_wf h \<Longrightarrow> hub_wf (leave i t h)"
proof (cases "dict_del i (group_of h t) = []")
  case True
  assume "hub_wf h"
  with True show ?thesis by (auto simp: leave_def hub_wf_def)
next
  case False
  assume wf: "hub_wf h"
  have "hub_wf (dict_set t (dict_del i (group_of h t)) h)"
  proof (rule hub_wf_set [OF wf False])
    fix j s assume "map_of (dict_del i (group_of h t)) j = Some s"
    then show "sub_id s = j \<and> sub_tenant s = t \<and> length (sub_queue s) \<le> queue_limit"
      using group_wf [OF wf, of t j s] by (cases "j = i") auto
  qed
  with False show ?thesis by (simp add: leave_def)
qed

lemma publish_wf: "hub_wf h \<Longrightarrow> hub_wf (snd (publish t f h))"
proof (cases "group_of h t = []")
  case True
  assume "hub_wf h"
  with True show ?thesis by (simp add: publish_def)
next
  case False
  assume wf: "hub_wf h"
  have "hub_wf (dict_set t (map (\<lambda>(i, s). (i, snd (offer f s))) (group_of h t)) h)"
  proof (rule hub_wf_set [OF wf])
    fix j s assume "map_of (map (\<lambda>(i, s). (i, snd (offer f s))) (group_of h t)) j = Some s"
    then obtain q where "map_of (group_of h t) j = Some q" "s = snd (offer f q)"
      by (auto simp: map_of_map_snd)
    with group_wf [OF wf this(1)] show "sub_id s = j \<and> sub_tenant s = t \<and> length (sub_queue s) \<le> queue_limit"
      by (simp add: offer_fields)
  qed (simp add: False)
  with False show ?thesis by (simp add: publish_def Let_def)
qed

lemma take_wf: "hub_wf h \<Longrightarrow> hub_wf (take_frame i t h)"
proof (cases "map_of (group_of h t) i")
  case None
  assume "hub_wf h"
  with None show ?thesis by (simp add: take_frame_def)
next
  case (Some s)
  assume wf: "hub_wf h"
  have "hub_wf (dict_set t (dict_set i (snd (next_frame (\<lambda>_. []) 0 s)) (group_of h t)) h)"
    using group_wf [OF wf Some]
    by (intro hub_wf_replace [OF wf]) (auto simp: next_frame_def split: list.splits)
  with Some show ?thesis by (simp add: take_frame_def)
qed

lemma hub_step_wf [inv_intros]: "hub_wf h \<Longrightarrow> hub_wf (hub_step x h)"
proof (cases x)
  case (Join i t u)
  assume "hub_wf h"
  then have "hub_wf (dict_set t (dict_set i (new_subscriber i t u) (group_of h t)) h)"
    by (rule hub_wf_replace) (simp_all add: new_subscriber_def)
  with Join show ?thesis by (simp add: join_def)
qed (simp_all add: leave_wf publish_wf take_wf)

lemma hub_run_wf: "hub_wf h \<Longrightarrow> hub_wf (fold hub_step xs h)"
  by (induction xs arbitrary: h) (auto intro: hub_step_wf)

text \<open>
  C21. In every hub reached from the empty one, publishing to a tenant changes no other
  tenant's connections, and each connection of that tenant either has the frame appended
  behind what it already had, when fewer than fifty frames wait, or loses exactly this frame
  and counts it; the result is the number that got it, and no queue ever exceeds fifty.
\<close>

theorem publish_reaches_its_tenant_only:
  assumes "h = fold hub_step xs []" and "publish t f h = (n, h')"
  shows "(\<forall>t'. t' \<noteq> t \<longrightarrow> group_of h' t' = group_of h t') \<and>
    (\<forall>i. map_of (group_of h' t) i = map_option (\<lambda>s.
        if length (sub_queue s) < 50 then s\<lparr>sub_queue := sub_queue s @ [f]\<rparr>
        else s\<lparr>sub_dropped := sub_dropped s + 1\<rparr>) (map_of (group_of h t) i)) \<and>
    n = length (filter (\<lambda>(_, s). length (sub_queue s) < 50) (group_of h t)) \<and>
    (\<forall>t i s. map_of (group_of h' t) i = Some s \<longrightarrow> sub_tenant s = t \<and> length (sub_queue s) \<le> 50)"
proof -
  have "hub_wf []" by (simp add: hub_wf_def)
  then have wf: "hub_wf h" unfolding assms(1) by (rule hub_run_wf)
  from hub_step_wf [OF this, of "Publish t f"] assms(2) have "hub_wf h'" by simp
  note after = group_wf [OF this]
  have off: "offer f = (\<lambda>s. if length (sub_queue s) < 50 then (True, s\<lparr>sub_queue := sub_queue s @ [f]\<rparr>)
      else (False, s\<lparr>sub_dropped := sub_dropped s + 1\<rparr>))"
    by (simp add: fun_eq_iff offer_def queue_limit_def)
  have one: "(\<lambda>(i, s). fst (offer f s)) = (\<lambda>(i, s). length (sub_queue s) < 50)"
    by (auto simp: fun_eq_iff off)
  have two: "(\<lambda>s. snd (offer f s)) = (\<lambda>s. if length (sub_queue s) < 50
      then s\<lparr>sub_queue := sub_queue s @ [f]\<rparr> else s\<lparr>sub_dropped := sub_dropped s + 1\<rparr>)"
    by (auto simp: fun_eq_iff off)
  show ?thesis
  proof (cases "group_of h t = []")
    case True
    with assms(2) have "h' = h" "n = 0" by (simp_all add: publish_def)
    with True after show ?thesis by (auto simp: queue_limit_def)
  next
    case False
    with assms(2) have h': "h' = dict_set t (map (\<lambda>(i, s). (i, snd (offer f s))) (group_of h t)) h"
      and n: "n = length (filter (\<lambda>(i, s). fst (offer f s)) (group_of h t))"
      by (auto simp: publish_def Let_def)
    have "map_of (group_of h' t) i = map_option (\<lambda>s. snd (offer f s)) (map_of (group_of h t) i)" for i
      unfolding h' by (simp add: map_of_map_snd)
    with n after show ?thesis unfolding one two by (auto simp: h' queue_limit_def)
  qed
qed

theorem publish_reaches_its_tenant_only_witness:
  "let h = fold hub_step [Join 1 10 100, Join 2 20 200] []
   in fst (publish 10 PNone h) = 1 \<and> group_of (snd (publish 10 PNone h)) 20 = group_of h 20"
proof -
  let ?h = "fold hub_step [Join 1 10 100, Join 2 20 200] []"
  obtain n h' where p: "publish 10 PNone ?h = (n, h')" by (cases "publish 10 PNone ?h")
  from publish_reaches_its_tenant_only [OF refl p] have
    "group_of h' 20 = group_of ?h 20" "n = length (filter (\<lambda>(_, s). length (sub_queue s) < 50) (group_of ?h 10))"
    by simp_all
  then show ?thesis unfolding Let_def p
    by (simp add: join_def group_of_def new_subscriber_def)
qed

end
