(* ===== verification/AlarmsApi.thy ===== *)
theory AlarmsApi
  imports AuthRouter Hub Lifecycle
begin

text \<open>
  The event and alarm endpoints, \<^verbatim>\<open>backend/app/modules/alarms/router.py\<close>: listings,
  acknowledgement and resolution, each behind its permission and inside the caller's tenant.
  A request that raises leaves the tables as they were; one that returns commits.
\<close>

section \<open>State and answers\<close>

record audit_row =
  au_tenant :: uuid
  au_actor :: uuid
  au_action :: string
  au_target_type :: string
  au_target :: string
  au_detail :: "(string \<times> string) list"

record alarm_db =
  db_events :: "event_row list"
  db_alarms :: "alarm_row list"
  db_audit :: "audit_row list"
  db_hub :: hub

record event_out =
  eo_id :: uuid
  eo_type :: string
  eo_severity :: string
  eo_risk :: int
  eo_status :: string
  eo_camera :: "uuid option"
  eo_channel :: "int option"
  eo_occurred :: instant
  eo_count :: int
  eo_reasons :: "string list"
  eo_parse :: string

record alarm_out =
  ao_id :: uuid
  ao_event :: uuid
  ao_severity :: string
  ao_status :: string
  ao_opened :: instant
  ao_acked :: "instant option"
  ao_resolved :: "instant option"
  ao_resolution :: "string option"

definition event_out_of :: "event_row \<Rightarrow> event_out" where
  "event_out_of r = \<lparr>eo_id = ev_id r, eo_type = ev_type r, eo_severity = ev_severity r, eo_risk = ev_risk r,
     eo_status = ev_status r, eo_camera = ev_camera r, eo_channel = ev_channel r, eo_occurred = ev_occurred r,
     eo_count = ev_count r, eo_reasons = ev_reasons r, eo_parse = ev_parse_status r\<rparr>"

definition alarm_out_of :: "alarm_row \<Rightarrow> alarm_out" where
  "alarm_out_of r = \<lparr>ao_id = al_id r, ao_event = al_event r, ao_severity = al_severity r,
     ao_status = al_status r, ao_opened = al_opened r, ao_acked = al_acked_at r,
     ao_resolved = al_resolved_at r, ao_resolution = al_resolution r\<rparr>"

section \<open>Listings\<close>

definition max_page :: int where
  "max_page = 200"

definition page_limit :: "int \<Rightarrow> http_error + nat" where
  "page_limit n = (if 1 \<le> n \<and> n \<le> max_page then Inr (nat n) else Inl (Http 422 ''limit''))"

definition upper_char :: "char \<Rightarrow> char" where
  "upper_char c = (let n = of_char c :: nat in if 97 \<le> n \<and> n \<le> 122 then char_of (n - 32) else c)"

definition upper :: "string \<Rightarrow> string" where
  "upper s = map upper_char s"

text \<open>An absent filter, or an empty one, selects everything.\<close>

definition selects :: "(string \<Rightarrow> string) \<Rightarrow> string option \<Rightarrow> string \<Rightarrow> bool" where
  "selects fold_case f v \<longleftrightarrow> (case f of None \<Rightarrow> True | Some s \<Rightarrow> s = [] \<or> v = fold_case s)"

definition list_events :: "current_user \<Rightarrow> int \<Rightarrow> string option \<Rightarrow> string option \<Rightarrow> uuid option \<Rightarrow> alarm_db
    \<Rightarrow> http_error + event_out list" where
  "list_events u limit event_type severity site db =
    bind_err (require EVENTS_VIEW u) (\<lambda>_.
    bind_err (page_limit limit) (\<lambda>n.
      Inr (map event_out_of (take n (sort_key (\<lambda>r. - ev_occurred r)
        (filter (\<lambda>r. ev_tenant r = cu_tenant u \<and> selects id event_type (ev_type r) \<and>
           selects upper severity (ev_severity r) \<and> (case site of None \<Rightarrow> True | Some s \<Rightarrow> ev_site r = s))
          (db_events db)))))))"

definition get_event :: "current_user \<Rightarrow> uuid \<Rightarrow> alarm_db \<Rightarrow> http_error + event_out" where
  "get_event u i db =
    bind_err (require EVENTS_VIEW u) (\<lambda>_.
      case lookup_row ev_id i (db_events db) of
        None \<Rightarrow> Inl (Http 404 ''not found'')
      | Some r \<Rightarrow> bind_err (assert_owns u (ev_tenant r)) (\<lambda>_. Inr (event_out_of r)))"

definition list_alarms :: "current_user \<Rightarrow> int \<Rightarrow> string option \<Rightarrow> string option \<Rightarrow> alarm_db
    \<Rightarrow> http_error + alarm_out list" where
  "list_alarms u limit wanted severity db =
    bind_err (require ALARMS_VIEW u) (\<lambda>_.
    bind_err (page_limit limit) (\<lambda>n.
      Inr (map alarm_out_of (take n (sort_key (\<lambda>r. - al_opened r)
        (filter (\<lambda>r. al_tenant r = cu_tenant u \<and> selects upper wanted (al_status r) \<and>
           selects upper severity (al_severity r)) (db_alarms db)))))))"

definition load_alarm :: "alarm_db \<Rightarrow> uuid \<Rightarrow> current_user \<Rightarrow> http_error + alarm_row" where
  "load_alarm db i u = (case lookup_row al_id i (db_alarms db) of
     None \<Rightarrow> Inl (Http 404 ''not found'')
   | Some a \<Rightarrow> bind_err (assert_owns u (al_tenant a)) (\<lambda>_. Inr a))"

definition get_alarm :: "current_user \<Rightarrow> uuid \<Rightarrow> alarm_db \<Rightarrow> http_error + alarm_out" where
  "get_alarm u i db = bind_err (require ALARMS_VIEW u) (\<lambda>_.
     bind_err (load_alarm db i u) (\<lambda>a. Inr (alarm_out_of a)))"

section \<open>Acknowledge and resolve\<close>

definition audit :: "current_user \<Rightarrow> string \<Rightarrow> uuid \<Rightarrow> (string \<times> string) list \<Rightarrow> alarm_db \<Rightarrow> alarm_db" where
  "audit u action target detail db = db\<lparr>db_audit := db_audit db @ [\<lparr>au_tenant = cu_tenant u, au_actor = cu_user u,
     au_action = action, au_target_type = ''alarm'', au_target = uuid_text target, au_detail = detail\<rparr>]\<rparr>"

definition tell_guards :: "(instant \<Rightarrow> string) \<Rightarrow> instant \<Rightarrow> current_user \<Rightarrow> alarm_row \<Rightarrow> alarm_db \<Rightarrow> alarm_db" where
  "tell_guards isof now u a db = db\<lparr>db_hub := snd (publish (cu_tenant u)
     (alarm_status_frame isof now (al_id a) (al_status a) (Some (cu_user u))) (db_hub db))\<rparr>"

definition acknowledge_alarm :: "(instant \<Rightarrow> string) \<Rightarrow> current_user \<Rightarrow> uuid \<Rightarrow> instant \<Rightarrow> alarm_db
    \<Rightarrow> (http_error + alarm_out) \<times> alarm_db" where
  "acknowledge_alarm isof u i now db =
    (case bind_err (require ALARMS_ACKNOWLEDGE u) (\<lambda>_. load_alarm db i u) of
       Inl e \<Rightarrow> (Inl e, db)
     | Inr a \<Rightarrow>
         if al_acked_at a \<noteq> None then (Inr (alarm_out_of a), db)
         else if al_resolved_at a \<noteq> None then (Inl (Http 409 ''alarm is already resolved''), db)
         else
           let a' = a\<lparr>al_acked_at := Some now, al_acked_by := Some (cu_user u), al_status := ''ACKNOWLEDGED''\<rparr>;
               db1 = db\<lparr>db_alarms := update_row al_id i (\<lambda>_. a') (db_alarms db)\<rparr>
           in (Inr (alarm_out_of a'),
               tell_guards isof now u a' (audit u ''alarm_acknowledged'' (al_id a) [] db1)))"

definition max_note :: nat where
  "max_note = 2000"

definition resolved_event_status :: "resolution_code \<Rightarrow> string" where
  "resolved_event_status c =
    (if \<not> is_true_positive c \<and> c = RC_FALSE_POSITIVE then ''FALSE_POSITIVE'' else ''RESOLVED'')"

definition resolved_row :: "current_user \<Rightarrow> resolution_code \<Rightarrow> string option \<Rightarrow> instant \<Rightarrow> alarm_row \<Rightarrow> alarm_row" where
  "resolved_row u code written now a =
    (let a1 = a\<lparr>al_resolved_at := Some now, al_resolved_by := Some (cu_user u),
           al_resolution := Some (resolution_value code), al_note := written, al_status := ''RESOLVED''\<rparr>
     in if al_acked_at a1 = None then a1\<lparr>al_acked_at := Some now, al_acked_by := Some (cu_user u)\<rparr> else a1)"

definition resolve_alarm :: "(instant \<Rightarrow> string) \<Rightarrow> current_user \<Rightarrow> uuid \<Rightarrow> resolution_code \<Rightarrow> string option \<Rightarrow> instant
    \<Rightarrow> alarm_db \<Rightarrow> (http_error + alarm_out) \<times> alarm_db" where
  "resolve_alarm isof u i code written now db =
    (case bind_err (require ALARMS_RESOLVE u) (\<lambda>_.
            if max_note < py_len (case written of None \<Rightarrow> [] | Some s \<Rightarrow> s) then Inl (Http 422 ''note'')
            else load_alarm db i u) of
       Inl e \<Rightarrow> (Inl e, db)
     | Inr a \<Rightarrow>
         if al_resolved_at a \<noteq> None then (Inl (Http 409 ''alarm is already resolved''), db)
         else
           let a' = resolved_row u code written now a;
               db1 = db\<lparr>db_alarms := update_row al_id i (\<lambda>_. a') (db_alarms db),
                        db_events := update_row ev_id (al_event a)
                          (\<lambda>e. e\<lparr>ev_status := resolved_event_status code\<rparr>) (db_events db)\<rparr>
           in (Inr (alarm_out_of a'), tell_guards isof now u a'
                (audit u ''alarm_resolved'' (al_id a) [(''code'', resolution_value code)] db1)))"

section \<open>Every sequence of requests\<close>

datatype api_op = Acknowledge current_user uuid instant | Resolve current_user uuid resolution_code "string option" instant

fun api_step :: "(instant \<Rightarrow> string) \<Rightarrow> api_op \<Rightarrow> alarm_db \<Rightarrow> alarm_db" where
  "api_step isof (Acknowledge u i now) db = snd (acknowledge_alarm isof u i now db)"
| "api_step isof (Resolve u i c n now) db = snd (resolve_alarm isof u i c n now db)"

text \<open>
  The three columns of an alarm agree, a resolved alarm is acknowledged, its event is its own
  tenant's, and the event of an open alarm still stands as it was raised.
\<close>

definition alarm_consistent :: "event_row list \<Rightarrow> alarm_row \<Rightarrow> bool" where
  "alarm_consistent evs a \<longleftrightarrow> (\<forall>e \<in> set evs. ev_id e = al_event a \<longrightarrow> ev_tenant e = al_tenant a) \<and>
     (al_resolved_at a \<noteq> None \<longrightarrow> al_acked_at a \<noteq> None) \<and>
     al_status a = (if al_resolved_at a \<noteq> None then ''RESOLVED'' else if al_acked_at a \<noteq> None then ''ACKNOWLEDGED''
       else ''ALERTED'') \<and>
     (al_resolved_at a = None \<longrightarrow> (\<forall>e \<in> set evs. ev_id e = al_event a \<longrightarrow> ev_status e = ''ALERTED''))"

definition alarm_db_wf :: "alarm_db \<Rightarrow> bool" where
  "alarm_db_wf db \<longleftrightarrow> distinct (map al_id (db_alarms db)) \<and> distinct (map al_event (db_alarms db)) \<and>
     (\<forall>a \<in> set (db_alarms db). alarm_consistent (db_events db) a)"

text \<open>What one request does to the tables: nothing, or one alarm acknowledged, or one resolved.\<close>

lemma load_alarm_Inr:
  "load_alarm db i u = Inr a \<longleftrightarrow> lookup_row al_id i (db_alarms db) = Some a \<and> al_tenant a = cu_tenant u"
  by (auto simp: load_alarm_def assert_owns_def bind_err_Inr_iff split: option.splits)

lemma require_Inr [simp]: "require p u = Inr v \<longleftrightarrow> can u p \<and> v = u"
  by (auto simp: require_def)

lemma tables_after [simp]:
  "db_events (tell_guards isof now u a (audit u s t d db)) = db_events db"
  "db_alarms (tell_guards isof now u a (audit u s t d db)) = db_alarms db"
  by (simp_all add: tell_guards_def audit_def)

lemma acknowledge_cases:
  assumes "acknowledge_alarm isof u i now db = (x, db')"
  obtains (same) "db' = db" "\<And>y. x = Inr y \<Longrightarrow> \<exists>a. lookup_row al_id i (db_alarms db) = Some a \<and> al_acked_at a \<noteq> None \<and>
      al_tenant a = cu_tenant u \<and> y = alarm_out_of a"
    | (acked) a a' where "can u ALARMS_ACKNOWLEDGE" "lookup_row al_id i (db_alarms db) = Some a" "al_tenant a = cu_tenant u"
      "al_acked_at a = None" "al_resolved_at a = None"
      "a' = a\<lparr>al_acked_at := Some now, al_acked_by := Some (cu_user u), al_status := ''ACKNOWLEDGED''\<rparr>"
      "x = Inr (alarm_out_of a')" "db_alarms db' = update_row al_id i (\<lambda>_. a') (db_alarms db)"
      "db_events db' = db_events db"
proof (cases "bind_err (require ALARMS_ACKNOWLEDGE u) (\<lambda>_. load_alarm db i u)")
  case (Inl e)
  with assms show thesis by (intro same) (auto simp: acknowledge_alarm_def)
next
  case (Inr a)
  then have a: "can u ALARMS_ACKNOWLEDGE" "lookup_row al_id i (db_alarms db) = Some a" "al_tenant a = cu_tenant u"
    by (simp_all add: bind_err_Inr_iff load_alarm_Inr)
  consider "al_acked_at a \<noteq> None" | "al_acked_at a = None" "al_resolved_at a \<noteq> None"
    | "al_acked_at a = None" "al_resolved_at a = None" by blast
  then show thesis
  proof cases
    case 1
    with Inr assms a show thesis by (intro same) (auto simp: acknowledge_alarm_def)
  next
    case 2
    with Inr assms show thesis by (intro same) (auto simp: acknowledge_alarm_def)
  next
    case 3
    with Inr assms a show thesis by (intro acked [OF a 3 refl]) (auto simp: acknowledge_alarm_def Let_def)
  qed
qed

lemma resolve_cases:
  assumes "resolve_alarm isof u i c n now db = (x, db')"
  obtains (same) "db' = db" "\<nexists>y. x = Inr y"
    | (resolved) a a' where "can u ALARMS_RESOLVE" "lookup_row al_id i (db_alarms db) = Some a" "al_tenant a = cu_tenant u"
      "al_resolved_at a = None"
      "al_id a' = al_id a \<and> al_tenant a' = al_tenant a \<and> al_event a' = al_event a \<and> al_resolved_at a' = Some now \<and>
        al_status a' = ''RESOLVED'' \<and> al_resolution a' = Some (resolution_value c) \<and>
        al_acked_at a' = (if al_acked_at a = None then Some now else al_acked_at a) \<and>
        al_acked_by a' = (if al_acked_at a = None then Some (cu_user u) else al_acked_by a)"
      "x = Inr (alarm_out_of a')" "db_alarms db' = update_row al_id i (\<lambda>_. a') (db_alarms db)"
      "db_events db' = update_row ev_id (al_event a) (\<lambda>e. e\<lparr>ev_status := resolved_event_status c\<rparr>) (db_events db)"
proof (cases "bind_err (require ALARMS_RESOLVE u) (\<lambda>_.
    if max_note < py_len (case n of None \<Rightarrow> [] | Some s \<Rightarrow> s) then Inl (Http 422 ''note'') else load_alarm db i u)")
  case (Inl e)
  with assms show thesis by (intro same) (auto simp: resolve_alarm_def)
next
  case (Inr a)
  then have a: "can u ALARMS_RESOLVE" "lookup_row al_id i (db_alarms db) = Some a" "al_tenant a = cu_tenant u"
    by (auto simp: bind_err_Inr_iff load_alarm_Inr split: if_splits)
  show thesis
  proof (cases "al_resolved_at a")
    case None
    show thesis
      by (rule resolved [OF a None, where a' = "resolved_row u c n now a"])
        (use Inr assms None in \<open>auto simp: resolve_alarm_def Let_def resolved_row_def\<close>)
  next
    case (Some t)
    with Inr assms show thesis by (intro same) (auto simp: resolve_alarm_def)
  qed
qed

text \<open>What any request changes: at most one alarm of its caller's tenant, and that alarm's event.\<close>

definition alarm_moves :: "alarm_row \<Rightarrow> alarm_row \<Rightarrow> bool" where
  "alarm_moves a a' \<longleftrightarrow> al_id a' = al_id a \<and> al_tenant a' = al_tenant a \<and> al_event a' = al_event a \<and>
     (al_acked_at a \<noteq> None \<longrightarrow> al_acked_at a' = al_acked_at a \<and> al_acked_by a' = al_acked_by a) \<and>
     (al_resolved_at a \<noteq> None \<longrightarrow> a' = a)"

lemma alarm_moves_refl [simp]: "alarm_moves a a"
  by (simp add: alarm_moves_def)

lemma alarm_moves_trans: "alarm_moves a b \<Longrightarrow> alarm_moves b c \<Longrightarrow> alarm_moves a c"
  by (auto simp: alarm_moves_def)

definition event_moves :: "event_row \<Rightarrow> event_row \<Rightarrow> bool" where
  "event_moves e e' \<longleftrightarrow> e' = e \<or> (ev_status e = status_value ALERTED \<and>
     (\<exists>s. can_transition ALERTED s \<and> e' = e\<lparr>ev_status := status_value s\<rparr>))"

lemma resolved_is_legal: "\<exists>s. can_transition ALERTED s \<and> resolved_event_status c = status_value s"
proof (cases "c = RC_FALSE_POSITIVE")
  case True
  then show ?thesis
    by (intro exI [of _ FALSE_POSITIVE])
      (simp add: resolved_event_status_def can_transition_def is_true_positive_def)
next
  case False
  then show ?thesis by (intro exI [of _ RESOLVED])
      (simp add: resolved_event_status_def can_transition_def is_true_positive_def)
qed

lemma wf_alarm_only:
  assumes "alarm_db_wf db" and "lookup_row al_id i (db_alarms db) = Some a" and "b \<in> set (db_alarms db)"
  shows "al_id b = i \<Longrightarrow> b = a" "al_event b = al_event a \<Longrightarrow> b = a"
proof -
  have a: "a \<in> set (db_alarms db)" "al_id a = i" using lookup_row_Some [OF assms(2)] by simp_all
  have inj: "inj_on al_id (set (db_alarms db))" "inj_on al_event (set (db_alarms db))"
    using assms(1) by (simp_all add: alarm_db_wf_def distinct_map)
  show "b = a" if "al_id b = i" using inj_onD [OF inj(1) _ assms(3) a(1)] that a(2) by simp
  show "b = a" if "al_event b = al_event a" using inj_onD [OF inj(2) that assms(3) a(1)] .
qed

lemma update_one:
  assumes "alarm_db_wf db" and "lookup_row al_id i (db_alarms db) = Some a"
    and "al_id a' = al_id a" and "al_event a' = al_event a"
  shows "set (update_row al_id i (\<lambda>_. a') (db_alarms db)) = insert a' (set (db_alarms db) - {a})"
    "map al_id (update_row al_id i (\<lambda>_. a') (db_alarms db)) = map al_id (db_alarms db)"
    "map al_event (update_row al_id i (\<lambda>_. a') (db_alarms db)) = map al_event (db_alarms db)"
proof -
  have a: "a \<in> set (db_alarms db)" "al_id a = i" using lookup_row_Some [OF assms(2)] by simp_all
  have only: "b = a" if "b \<in> set (db_alarms db)" "al_id b = i" for b
    by (rule wf_alarm_only(1) [OF assms(1,2) that])
  have row: "(if al_id b = i then a' else b) = (if b = a then a' else b)" if "b \<in> set (db_alarms db)" for b
    using only [OF that] a(2) by metis
  have upd: "update_row al_id i (\<lambda>_. a') (db_alarms db) = map (\<lambda>b. if b = a then a' else b) (db_alarms db)"
    unfolding update_row_def by (rule map_cong [OF refl row])
  show "set (update_row al_id i (\<lambda>_. a') (db_alarms db)) = insert a' (set (db_alarms db) - {a})"
    unfolding upd using a(1) by auto
  show "map al_id (update_row al_id i (\<lambda>_. a') (db_alarms db)) = map al_id (db_alarms db)"
    "map al_event (update_row al_id i (\<lambda>_. a') (db_alarms db)) = map al_event (db_alarms db)"
    unfolding upd by (simp_all add: assms(3,4))
qed

text \<open>One request, in one statement.\<close>

definition touched_only :: "uuid \<Rightarrow> alarm_db \<Rightarrow> alarm_db \<Rightarrow> bool" where
  "touched_only t db db' \<longleftrightarrow>
     list_all2 (\<lambda>a a'. alarm_moves a a' \<and> (al_tenant a \<noteq> t \<longrightarrow> a' = a)) (db_alarms db) (db_alarms db') \<and>
     list_all2 (\<lambda>e e'. event_moves e e' \<and> (ev_tenant e \<noteq> t \<longrightarrow> e' = e)) (db_events db) (db_events db')"

lemma touched_only_refl [simp]: "touched_only t db db"
  by (simp add: touched_only_def list_all2_refl event_moves_def)

lemma list_all2_update_row:
  "(\<And>r. r \<in> set rs \<Longrightarrow> P r (if key r = k then f r else r)) \<Longrightarrow> list_all2 P rs (update_row key k f rs)"
  by (simp add: update_row_def list_all2_map2 list_all2_same)

lemma touch_alarm:
  assumes "alarm_db_wf db" and "lookup_row al_id i (db_alarms db) = Some a" and "al_tenant a = t" and "alarm_moves a a'"
  shows "list_all2 (\<lambda>a a'. alarm_moves a a' \<and> (al_tenant a \<noteq> t \<longrightarrow> a' = a)) (db_alarms db)
    (update_row al_id i (\<lambda>_. a') (db_alarms db))"
  by (rule list_all2_update_row) (use assms wf_alarm_only(1) [OF assms(1,2)] in auto)

lemma consistent_after:
  assumes wf: "alarm_db_wf db" and a: "lookup_row al_id i (db_alarms db) = Some a"
    and kept: "al_id a' = al_id a" "al_event a' = al_event a"
    and rows: "db_alarms db' = update_row al_id i (\<lambda>_. a') (db_alarms db)"
    and new: "alarm_consistent (db_events db') a'"
    and others: "\<And>b. b \<in> set (db_alarms db) \<Longrightarrow> al_event b \<noteq> al_event a \<Longrightarrow> alarm_consistent (db_events db) b \<Longrightarrow>
      alarm_consistent (db_events db') b"
  shows "alarm_db_wf db'"
proof -
  have "alarm_consistent (db_events db') b" if "b \<in> set (db_alarms db')" for b
  proof (cases "b = a'")
    case False
    then have b: "b \<in> set (db_alarms db)" "b \<noteq> a"
      using that update_one(1) [OF wf a kept] by (simp_all add: rows)
    then have "al_event b \<noteq> al_event a" using wf_alarm_only(2) [OF wf a] by blast
    with b wf show ?thesis by (intro others) (simp_all add: alarm_db_wf_def)
  qed (simp add: new)
  with wf update_one(2,3) [OF wf a kept] show ?thesis by (simp add: alarm_db_wf_def rows)
qed

lemma acknowledge_step:
  assumes wf: "alarm_db_wf db" and run: "acknowledge_alarm isof u i now db = (x, db')"
  shows "alarm_db_wf db' \<and> touched_only (cu_tenant u) db db'"
  using run
proof (cases rule: acknowledge_cases)
  case same
  with wf show ?thesis by simp
next
  case (acked a a')
  have a: "alarm_consistent (db_events db) a"
    using wf lookup_row_Some [OF acked(2)] by (simp add: alarm_db_wf_def)
  have "alarm_db_wf db'"
    by (rule consistent_after [OF wf acked(2) _ _ acked(8)]) (use a acked in \<open>simp_all add: alarm_consistent_def\<close>)
  moreover have "alarm_moves a a'" using acked by (simp add: alarm_moves_def)
  ultimately show ?thesis
    using touch_alarm [OF wf acked(2,3)] acked by (simp add: touched_only_def event_moves_def list_all2_same)
qed

lemma consistent_elsewhere:
  assumes "alarm_consistent evs b" and "al_event b \<noteq> k"
  shows "alarm_consistent (update_row ev_id k (\<lambda>e. e\<lparr>ev_status := s\<rparr>) evs) b"
proof -
  have "e \<in> set (update_row ev_id k (\<lambda>e. e\<lparr>ev_status := s\<rparr>) evs) \<Longrightarrow> ev_id e = al_event b \<Longrightarrow> e \<in> set evs" for e
    using assms(2) by (auto simp: set_update_row)
  with assms(1) show ?thesis unfolding alarm_consistent_def by blast
qed

lemma consistent_resolved:
  assumes "alarm_consistent evs a" and "al_event a' = al_event a" "al_tenant a' = al_tenant a" "al_acked_at a' \<noteq> None"
    "al_resolved_at a' \<noteq> None" "al_status a' = ''RESOLVED''"
  shows "alarm_consistent (update_row ev_id k (\<lambda>e. e\<lparr>ev_status := s\<rparr>) evs) a'"
  using assms by (auto simp: alarm_consistent_def set_update_row split: if_splits)

lemma resolve_step:
  assumes wf: "alarm_db_wf db" and run: "resolve_alarm isof u i c n now db = (x, db')"
  shows "alarm_db_wf db' \<and> touched_only (cu_tenant u) db db'"
  using run
proof (cases rule: resolve_cases)
  case same
  with wf show ?thesis by simp
next
  case (resolved a a')
  have a: "alarm_consistent (db_events db) a"
    using wf lookup_row_Some [OF resolved(2)] by (simp add: alarm_db_wf_def)
  have new: "al_acked_at a' \<noteq> None" "al_resolved_at a' \<noteq> None" "al_status a' = ''RESOLVED''"
    "al_event a' = al_event a" "al_tenant a' = al_tenant a" "al_id a' = al_id a"
    using resolved(5) by simp_all
  have "alarm_db_wf db'"
    by (rule consistent_after [OF wf resolved(2) new(6,4) resolved(7)])
      (simp_all add: resolved(8) consistent_elsewhere consistent_resolved [OF a new(4,5,1-3)])
  moreover have "alarm_moves a a'" using resolved by (simp add: alarm_moves_def)
  moreover have "event_moves e (if ev_id e = al_event a then e\<lparr>ev_status := resolved_event_status c\<rparr> else e) \<and>
      (ev_tenant e \<noteq> cu_tenant u \<longrightarrow> (if ev_id e = al_event a then e\<lparr>ev_status := resolved_event_status c\<rparr> else e) = e)"
    if "e \<in> set (db_events db)" for e
    using that a resolved(3,4) resolved_is_legal [of c] by (auto simp: alarm_consistent_def event_moves_def)
  ultimately show ?thesis
    using touch_alarm [OF wf resolved(2,3)] by (simp add: touched_only_def resolved(7,8) list_all2_update_row)
qed

fun op_tenant :: "api_op \<Rightarrow> uuid" where
  "op_tenant (Acknowledge u _ _) = cu_tenant u"
| "op_tenant (Resolve u _ _ _ _) = cu_tenant u"

lemma api_step_wf:
  "alarm_db_wf db \<Longrightarrow> alarm_db_wf (api_step isof p db) \<and> touched_only (op_tenant p) db (api_step isof p db)"
  by (cases p)
    (simp_all add: acknowledge_step [OF _ surjective_pairing] resolve_step [OF _ surjective_pairing])

lemma event_moves_trans: "event_moves a b \<Longrightarrow> event_moves b c \<Longrightarrow> event_moves a c"
  by (auto simp: event_moves_def)

text \<open>
  C2. Whatever guards do to the alarms, in whatever order, an alarm that was acknowledged keeps
  the time and the name of its first acknowledgement, a resolved one never changes again, the
  columns stay consistent, every event moves only along a transition its state machine allows, and
  a tenant none of the callers belongs to keeps all its rows.
\<close>

theorem alarms_move_one_way:
  assumes "alarm_db_wf db"
  shows "alarm_db_wf (fold (api_step isof) ps db) \<and>
    list_all2 (\<lambda>a a'. alarm_moves a a' \<and> (al_tenant a \<notin> op_tenant ` set ps \<longrightarrow> a' = a))
      (db_alarms db) (db_alarms (fold (api_step isof) ps db)) \<and>
    list_all2 (\<lambda>e e'. event_moves e e' \<and> (ev_tenant e \<notin> op_tenant ` set ps \<longrightarrow> e' = e))
      (db_events db) (db_events (fold (api_step isof) ps db))"
  using assms
proof (induction ps arbitrary: db)
  case Nil
  then show ?case by (simp add: list_all2_same event_moves_def)
next
  case (Cons p ps)
  let ?db = "api_step isof p db"
  have step: "alarm_db_wf ?db" "touched_only (op_tenant p) db ?db" using api_step_wf [OF Cons.prems] by simp_all
  note IH = Cons.IH [OF step(1)]
  have "list_all2 (\<lambda>a a'. alarm_moves a a' \<and> (al_tenant a \<notin> op_tenant ` set (p # ps) \<longrightarrow> a' = a))
      (db_alarms db) (db_alarms (fold (api_step isof) ps ?db))"
    by (rule list_all2_trans [OF _ step(2) [unfolded touched_only_def, THEN conjunct1] IH [THEN conjunct2, THEN conjunct1]])
      (auto intro: alarm_moves_trans)
  moreover have "list_all2 (\<lambda>e e'. event_moves e e' \<and> (ev_tenant e \<notin> op_tenant ` set (p # ps) \<longrightarrow> e' = e))
      (db_events db) (db_events (fold (api_step isof) ps ?db))"
    by (rule list_all2_trans [OF _ step(2) [unfolded touched_only_def, THEN conjunct2] IH [THEN conjunct2, THEN conjunct2]])
      (auto intro: event_moves_trans)
  ultimately show ?case using IH by simp
qed

section \<open>What a tenant can learn\<close>

lemma own_row:
  assumes "distinct (map key rows)"
  shows "(case lookup_row key i rows of None \<Rightarrow> e | Some r \<Rightarrow> if ten r \<noteq> t then e else f r) =
    (case lookup_row key i (filter (\<lambda>r. ten r = t) rows) of None \<Rightarrow> e | Some r \<Rightarrow> f r)"
proof (cases "lookup_row key i rows")
  case None
  then have "lookup_row key i (filter (\<lambda>r. ten r = t) rows) = None" by (simp add: lookup_row_None)
  with None show ?thesis by simp
next
  case (Some r)
  note r = lookup_row_Some [OF Some]
  show ?thesis
  proof (cases "ten r = t")
    case True
    then have "lookup_row key i (filter (\<lambda>r. ten r = t) rows) = Some r"
      using r lookup_row_unique [of key "filter (\<lambda>r. ten r = t) rows" r] distinct_map_filter [OF assms] by auto
    with Some True show ?thesis by simp
  next
    case False
    have "q = r" if "q \<in> set rows" "key q = i" for q
      using that r assms by (simp add: distinct_map inj_on_def)
    with False have "lookup_row key i (filter (\<lambda>r. ten r = t) rows) = None"
      by (auto simp: lookup_row_None)
    with Some False show ?thesis by simp
  qed
qed

definition own_events :: "current_user \<Rightarrow> alarm_db \<Rightarrow> event_row list" where
  "own_events u db = filter (\<lambda>r. ev_tenant r = cu_tenant u) (db_events db)"

definition own_alarms :: "current_user \<Rightarrow> alarm_db \<Rightarrow> alarm_row list" where
  "own_alarms u db = filter (\<lambda>r. al_tenant r = cu_tenant u) (db_alarms db)"

definition keyed :: "alarm_db \<Rightarrow> bool" where
  "keyed db \<longleftrightarrow> distinct (map ev_id (db_events db)) \<and> distinct (map al_id (db_alarms db))"

lemma bind_assert_owns: "bind_err (assert_owns u t) (\<lambda>_. x) =
    (if t \<noteq> cu_tenant u then Inl (Http 404 ''not found'') else x)"
  by (simp add: assert_owns_def)

lemma load_alarm_own:
  assumes "keyed db"
  shows "load_alarm db i u = (case lookup_row al_id i (own_alarms u db) of
    None \<Rightarrow> Inl (Http 404 ''not found'') | Some a \<Rightarrow> Inr a)"
  using own_row [of al_id "db_alarms db" "Inl (Http 404 ''not found'')" al_tenant "cu_tenant u" Inr i] assms
  by (simp add: load_alarm_def bind_assert_owns own_alarms_def keyed_def cong: option.case_cong)

lemma get_event_own:
  assumes "keyed db"
  shows "get_event u i db = bind_err (require EVENTS_VIEW u) (\<lambda>_. case lookup_row ev_id i (own_events u db) of
    None \<Rightarrow> Inl (Http 404 ''not found'') | Some r \<Rightarrow> Inr (event_out_of r))"
  using own_row [of ev_id "db_events db" "Inl (Http 404 ''not found'')" ev_tenant "cu_tenant u" "\<lambda>r. Inr (event_out_of r)" i] assms
  by (simp add: get_event_def bind_assert_owns own_events_def keyed_def cong: option.case_cong)

lemma list_events_own:
  "list_events u l s v k db = bind_err (require EVENTS_VIEW u) (\<lambda>_. bind_err (page_limit l) (\<lambda>n.
     Inr (map event_out_of (take n (sort_key (\<lambda>r. - ev_occurred r)
       (filter (\<lambda>r. selects id s (ev_type r) \<and> selects upper v (ev_severity r) \<and>
          (case k of None \<Rightarrow> True | Some x \<Rightarrow> ev_site r = x)) (own_events u db)))))))"
  by (simp add: list_events_def own_events_def conj_commute)

lemma list_alarms_own:
  "list_alarms u l s v db = bind_err (require ALARMS_VIEW u) (\<lambda>_. bind_err (page_limit l) (\<lambda>n.
     Inr (map alarm_out_of (take n (sort_key (\<lambda>r. - al_opened r)
       (filter (\<lambda>r. selects upper s (al_status r) \<and> selects upper v (al_severity r)) (own_alarms u db)))))))"
  by (simp add: list_alarms_def own_alarms_def conj_commute)

lemma acknowledge_answer: "fst (acknowledge_alarm isof u i now db) =
    bind_err (bind_err (require ALARMS_ACKNOWLEDGE u) (\<lambda>_. load_alarm db i u)) (\<lambda>a.
      if al_acked_at a \<noteq> None then Inr (alarm_out_of a)
      else if al_resolved_at a \<noteq> None then Inl (Http 409 ''alarm is already resolved'')
      else Inr (alarm_out_of (a\<lparr>al_acked_at := Some now, al_acked_by := Some (cu_user u), al_status := ''ACKNOWLEDGED''\<rparr>)))"
  by (auto simp: acknowledge_alarm_def Let_def split: sum.splits)

lemma resolve_answer: "fst (resolve_alarm isof u i c w now db) =
    bind_err (bind_err (require ALARMS_RESOLVE u) (\<lambda>_.
        if max_note < py_len (case w of None \<Rightarrow> [] | Some s \<Rightarrow> s) then Inl (Http 422 ''note'') else load_alarm db i u))
      (\<lambda>a. if al_resolved_at a \<noteq> None then Inl (Http 409 ''alarm is already resolved'')
        else Inr (alarm_out_of (resolved_row u c w now a)))"
  by (auto simp: resolve_alarm_def Let_def split: sum.splits)

text \<open>
  C15. A caller cannot tell two databases apart that hold the same rows of the caller's own tenant:
  every listing, every lookup and every answer to an acknowledgement or a resolution is the same,
  status codes included, so the rows of other tenants leak neither by value nor by an error.
\<close>

theorem answers_depend_on_own_rows:
  assumes "keyed db" and "keyed db'"
    and "own_events u db = own_events u db'" and "own_alarms u db = own_alarms u db'"
  shows "list_events u l s v k db = list_events u l s v k db' \<and> get_event u i db = get_event u i db' \<and>
    list_alarms u l s v db = list_alarms u l s v db' \<and> get_alarm u i db = get_alarm u i db' \<and>
    fst (acknowledge_alarm isof u i now db) = fst (acknowledge_alarm isof u i now db') \<and>
    fst (resolve_alarm isof u i c w now db) = fst (resolve_alarm isof u i c w now db')"
  using assms by (simp add: list_events_own get_event_own list_alarms_own get_alarm_def load_alarm_own
    acknowledge_answer resolve_answer)

lemma lookup_after_update:
  "lookup_row key k rows = Some r \<Longrightarrow> key r' = k \<Longrightarrow> lookup_row key k (update_row key k (\<lambda>_. r') rows) = Some r'"
  by (induction rows) (auto simp: lookup_row_def update_row_def split: if_splits)

text \<open>
  The first acknowledgement wins: a colleague of the same tenant who acknowledges the alarm
  afterwards gets exactly the answer the first one got, and writes nothing: no row, no audit
  entry, no frame.
\<close>

theorem first_acknowledgement_wins:
  assumes "acknowledge_alarm isof u i now db = (Inr r, db')"
    and "can v ALARMS_ACKNOWLEDGE" and "cu_tenant v = cu_tenant u"
  shows "acknowledge_alarm isof v i later db' = (Inr r, db') \<and> ao_acked r \<noteq> None"
  using assms(1)
proof (cases rule: acknowledge_cases)
  case same
  then obtain a where "lookup_row al_id i (db_alarms db') = Some a" "al_acked_at a \<noteq> None" "al_tenant a = cu_tenant u"
    "r = alarm_out_of a" by auto
  with assms(2,3) show ?thesis
    by (simp add: acknowledge_alarm_def load_alarm_def assert_owns_def require_def alarm_out_of_def)
next
  case (acked a a')
  have "al_id a' = i" using acked(6) lookup_row_Some [OF acked(2)] by simp
  then have "lookup_row al_id i (db_alarms db') = Some a'"
    unfolding acked(8) by (rule lookup_after_update [OF acked(2)])
  moreover have "al_acked_at a' \<noteq> None" "al_tenant a' = cu_tenant u" "r = alarm_out_of a'"
    using acked by simp_all
  ultimately show ?thesis using assms(2,3)
    by (simp add: acknowledge_alarm_def load_alarm_def assert_owns_def require_def alarm_out_of_def)
qed

section \<open>A shift\<close>

definition guard_user :: current_user where
  "guard_user = \<lparr>cu_user = 100, cu_tenant = 10, cu_role = GUARD, cu_permissions = {ALARMS_ACKNOWLEDGE, ALARMS_VIEW}\<rparr>"

definition manager_user :: current_user where
  "manager_user = \<lparr>cu_user = 101, cu_tenant = 10, cu_role = SITE_MANAGER,
     cu_permissions = {ALARMS_ACKNOWLEDGE, ALARMS_RESOLVE, ALARMS_VIEW}\<rparr>"

definition shift_event :: "uuid \<Rightarrow> uuid \<Rightarrow> event_row" where
  "shift_event i t = \<lparr>ev_id = i, ev_tenant = t, ev_site = 30, ev_device = 40, ev_camera = None,
     ev_type = ''human_detected'', ev_vendor_label = None, ev_channel = None, ev_occurred = 5, ev_occurred_local = None,
     ev_source = ''smtp'', ev_message = None, ev_dedup_key = ''k'', ev_count = 1, ev_status = ''ALERTED'', ev_risk = 80,
     ev_severity = ''HIGH'', ev_reasons = [], ev_parse_status = ''PARSED'', ev_warnings = [], ev_profile = None\<rparr>"

definition shift_alarm :: "uuid \<Rightarrow> uuid \<Rightarrow> uuid \<Rightarrow> alarm_row" where
  "shift_alarm i e t = \<lparr>al_id = i, al_tenant = t, al_site = 30, al_event = e, al_severity = ''HIGH'',
     al_status = ''ALERTED'', al_opened = 5, al_acked_at = None, al_acked_by = None, al_resolved_at = None,
     al_resolved_by = None, al_resolution = None, al_note = None, al_step = 0\<rparr>"

definition shift_db :: alarm_db where
  "shift_db = \<lparr>db_events = [shift_event 1 10, shift_event 2 20], db_alarms = [shift_alarm 51 1 10, shift_alarm 52 2 20],
     db_audit = [], db_hub = []\<rparr>"

definition shift_ops :: "api_op list" where
  "shift_ops = [Acknowledge guard_user 51 9, Acknowledge manager_user 51 12, Acknowledge manager_user 52 13,
     Resolve manager_user 51 RC_FALSE_POSITIVE None 20, Resolve manager_user 51 RC_FALSE_POSITIVE None 21]"

lemmas shift_defs = shift_db_def shift_ops_def shift_event_def shift_alarm_def guard_user_def manager_user_def

lemma shift_wf: "alarm_db_wf shift_db" "keyed shift_db"
  by (simp_all add: alarm_db_wf_def alarm_consistent_def keyed_def shift_defs)

lemmas api_run = acknowledge_alarm_def resolve_alarm_def load_alarm_def assert_owns_def require_def can_def
  lookup_row_def update_row_def resolved_row_def tell_guards_def audit_def Let_def max_note_def py_len_def continues_def
  resolved_event_status_def is_true_positive_def

theorem alarms_move_one_way_witness:
  "(let db = fold (api_step (\<lambda>_. [])) shift_ops shift_db
    in alarm_db_wf db \<and> al_acked_at (hd (db_alarms db)) = Some 9 \<and> al_acked_by (hd (db_alarms db)) = Some 100 \<and>
       al_resolved_at (hd (db_alarms db)) = Some 20 \<and> ev_status (hd (db_events db)) = ''FALSE_POSITIVE'' \<and>
       tl (db_alarms db) = [shift_alarm 52 2 20])"
proof -
  let ?db = "fold (api_step (\<lambda>_. [])) shift_ops shift_db"
  have "al_acked_at (hd (db_alarms ?db)) = Some 9 \<and> al_acked_by (hd (db_alarms ?db)) = Some 100 \<and>
     al_resolved_at (hd (db_alarms ?db)) = Some 20 \<and> ev_status (hd (db_events ?db)) = ''FALSE_POSITIVE'' \<and>
     tl (db_alarms ?db) = [shift_alarm 52 2 20]"
    by (simp add: shift_defs api_run)
  moreover have "alarm_db_wf ?db"
    using alarms_move_one_way [OF shift_wf(1), of "\<lambda>_. []" shift_ops] by blast
  ultimately show ?thesis by (simp add: Let_def)
qed

theorem answers_depend_on_own_rows_witness:
  "get_alarm guard_user 52 shift_db = Inl (Http 404 ''not found'') \<and>
   get_alarm guard_user 52 shift_db =
     get_alarm guard_user 52 (shift_db\<lparr>db_events := [shift_event 1 10], db_alarms := [shift_alarm 51 1 10]\<rparr>)"
proof
  show "get_alarm guard_user 52 shift_db = Inl (Http 404 ''not found'')"
    by (simp add: get_alarm_def shift_defs api_run)
  let ?db = "shift_db\<lparr>db_events := [shift_event 1 10], db_alarms := [shift_alarm 51 1 10]\<rparr>"
  have "keyed ?db" "own_events guard_user shift_db = own_events guard_user ?db"
    "own_alarms guard_user shift_db = own_alarms guard_user ?db"
    by (simp_all add: keyed_def own_events_def own_alarms_def shift_defs)
  from answers_depend_on_own_rows [OF shift_wf(2) this, THEN conjunct2, THEN conjunct2, THEN conjunct2, THEN conjunct1]
  show "get_alarm guard_user 52 shift_db = get_alarm guard_user 52 ?db" .
qed

theorem first_acknowledgement_wins_witness:
  "let db = snd (acknowledge_alarm (\<lambda>_. []) guard_user 51 9 shift_db)
   in acknowledge_alarm (\<lambda>_. []) manager_user 51 12 db = (Inr (alarm_out_of (hd (db_alarms db))), db)"
proof -
  let ?x = "acknowledge_alarm (\<lambda>_. []) guard_user 51 9 shift_db"
  have fst_x: "fst ?x = Inr (alarm_out_of (hd (db_alarms (snd ?x))))"
    by (simp add: shift_defs api_run)
  then have run: "?x = (Inr (alarm_out_of (hd (db_alarms (snd ?x)))), snd ?x)" by (metis prod.collapse)
  have "can manager_user ALARMS_ACKNOWLEDGE" "cu_tenant manager_user = cu_tenant guard_user"
    by (simp_all add: shift_defs can_def)
  from first_acknowledgement_wins [OF run this, of 12] show ?thesis by (simp add: Let_def)
qed

end
