(* ===== verification/MediaStore.thy ===== *)
theory MediaStore
  imports Identifiers
begin

text \<open>
  Media storage, \<^verbatim>\<open>backend/app/integrations/object_storage/media_store.py\<close>: content
  checks, retention, and the object key of one media of one event.  The S3 client is a map
  from keys to contents and a predicate saying which uploads the service accepts.
\<close>

definition min_jpeg_bytes :: nat where
  "min_jpeg_bytes = 1024"

definition max_object_bytes :: nat where
  "max_object_bytes = 64 * 1024 * 1024"

definition retention_days :: "(string \<times> int) list" where
  "retention_days = [(''starter'', 7), (''business'', 30), (''pro'', 90), (''enterprise'', 365)]"

definition extension_of :: "string \<Rightarrow> string" where
  "extension_of kind = (case map_of [(''snapshot'', ''jpg''), (''annotated'', ''jpg''),
     (''thumbnail'', ''jpg''), (''clip'', ''mp4'')] kind of Some e \<Rightarrow> e | None \<Rightarrow> ''bin'')"

section \<open>Calendar dates\<close>

text \<open>\<^verbatim>\<open>%Y/%m/%d\<close> of a UTC instant, by the proleptic Gregorian calendar.\<close>

definition civil_date :: "int \<Rightarrow> int \<times> int \<times> int" where
  "civil_date days =
    (let z = days + 719468; era = z div 146097; doe = z mod 146097;
         yoe = (doe - doe div 1460 + doe div 36524 - doe div 146096) div 365;
         doy = doe - (365 * yoe + yoe div 4 - yoe div 100);
         mp = (5 * doy + 2) div 153;
         d = doy - (153 * mp + 2) div 5 + 1;
         m = (if mp < 10 then mp + 3 else mp - 9)
     in (yoe + era * 400 + (if m \<le> 2 then 1 else 0), m, d))"

lemma civil_epoch: "civil_date 0 = (1970, 1, 1)" "civil_date 19782 = (2024, 2, 29)"
  by code_simp+

definition two_digits :: "int \<Rightarrow> string" where
  "two_digits n = (if n < 10 then ''0'' else []) @ show_int n"

definition date_path :: "instant \<Rightarrow> string" where
  "date_path t = (case civil_date (t div day) of (y, m, d) \<Rightarrow>
     show_int y @ ''/'' @ two_digits m @ ''/'' @ two_digits d)"

section \<open>Keys, checks, retention\<close>

definition build_key :: "uuid \<Rightarrow> uuid \<Rightarrow> uuid \<Rightarrow> string \<Rightarrow> instant \<Rightarrow> string" where
  "build_key tenant site event kind occurred =
     uuid_text tenant @ ''/'' @ uuid_text site @ ''/'' @ date_path occurred @ ''/'' @
     uuid_text event @ ''/'' @ kind @ ''.'' @ extension_of kind"

definition expiry_for :: "string \<Rightarrow> instant \<Rightarrow> instant" where
  "expiry_for plan t = t + (case map_of retention_days (lower plan) of Some n \<Rightarrow> n | None \<Rightarrow> 30) * day"

definition media_validate :: "string \<Rightarrow> string \<Rightarrow> string + string" where
  "media_validate content kind =
    (if content = [] then Inl ''empty object''
     else if max_object_bytes < length content then Inl ''object exceeds 67108864 bytes''
     else if kind \<in> {''snapshot'', ''annotated'', ''thumbnail''}
     then (if length content < min_jpeg_bytes \<or> take 3 content \<noteq> [CHR 0xFF, CHR 0xD8, CHR 0xFF]
           then Inl ''content is not a JPEG'' else Inr ''image/jpeg'')
     else if kind = ''clip''
     then (if \<not> contains_sub ''ftyp'' (take 32 content) then Inl ''content is not an MP4''
           else Inr ''video/mp4'')
     else Inl (''unknown media kind: '' @ kind))"

datatype put_error = Media_rejected string | Storage_failed

record stored_media =
  stored_key :: string
  stored_type :: string
  stored_size :: nat
  stored_digest :: string
  stored_expires :: instant

record object_store =
  objects :: "string \<rightharpoonup> string"
  accepts :: "string \<Rightarrow> string \<Rightarrow> bool"

definition put :: "(string \<Rightarrow> string) \<Rightarrow> string \<Rightarrow> uuid \<Rightarrow> uuid \<Rightarrow> uuid \<Rightarrow> string \<Rightarrow> instant \<Rightarrow> string
    \<Rightarrow> object_store \<Rightarrow> (put_error + stored_media) \<times> object_store" where
  "put digest content tenant site event kind occurred plan s =
    (case media_validate content kind of
       Inl m \<Rightarrow> (Inl (Media_rejected m), s)
     | Inr ty \<Rightarrow>
         let key = build_key tenant site event kind occurred
         in if \<not> accepts s key content then (Inl Storage_failed, s)
            else (Inr \<lparr>stored_key = key, stored_type = ty, stored_size = length content,
                       stored_digest = digest content, stored_expires = expiry_for plan occurred\<rparr>,
                  s\<lparr>objects := (objects s)(key \<mapsto> content)\<rparr>))"

text \<open>
  The key depends on the event and the kind, not on the content: a second snapshot of one
  event replaces the first.
\<close>

lemma put_key: "put digest c tenant site event kind t plan s = (Inr m, s') \<Longrightarrow>
    stored_key m = build_key tenant site event kind t \<and>
    objects s' = (objects s)(build_key tenant site event kind t \<mapsto> c)"
  by (auto simp: put_def Let_def split: sum.splits if_splits)

end
