(* ===== verification/Persistence.thy ===== *)
theory Persistence
  imports AlarmFlow Tables MediaStore
begin

text \<open>
  The database side of the alarm flow, \<^verbatim>\<open>backend/app/services/persistence.py\<close>: the
  site context a recorder's mail is judged in, the heartbeat, and the rows one processed
  message leaves.  A write that breaks a unique index raises, and its session is rolled back.
\<close>

section \<open>Site tables\<close>

record site_row =
  site_id :: uuid
  site_tenant :: uuid
  site_name :: string
  site_tz :: string
  site_armed :: bool

record device_row =
  device_id :: uuid
  device_tenant :: uuid
  device_site :: uuid
  device_profile :: "uuid option"

record camera_row =
  cam_id :: uuid
  cam_device :: uuid
  cam_name :: string
  cam_channel :: int
  cam_enabled :: bool

record zone_row =
  zr_camera :: uuid
  zr_name :: string
  zr_type :: string
  zr_points :: "(rat \<times> rat) list"

record raw_schedule =
  raw_timezone :: "string option"
  raw_start :: "string option"
  raw_end :: "string option"
  raw_days :: "int list option"

record rule_row =
  rr_tenant :: uuid
  rr_site :: "uuid option"
  rr_name :: string
  rr_enabled :: bool
  rr_event_types :: "string list"
  rr_cameras :: "string list"
  rr_zones :: "string list"
  rr_schedule :: raw_schedule
  rr_min_confidence :: rat
  rr_min_severity :: "string option"
  rr_actions :: "string list"
  rr_weights :: "(string \<times> int) list"

record account_row =
  ac_username :: string
  ac_device :: uuid
  ac_active :: bool
  ac_hash :: string

record site_tables =
  sites :: "site_row list"
  devices :: "device_row list"
  cameras :: "camera_row list"
  zone_rows :: "zone_row list"
  rule_rows :: "rule_row list"
  accounts :: "account_row list"
  verified_profiles :: "uuid set"

section \<open>Rules as the engine sees them\<close>

definition split_colon :: "string \<Rightarrow> string \<times> string" where
  "split_colon s = (takeWhile (\<lambda>c. c \<noteq> CHR '':'') s, tl (dropWhile (\<lambda>c. c \<noteq> CHR '':'') s))"

definition parse_clock :: "string \<Rightarrow> duration option" where
  "parse_clock s = (case split_colon s of (h, m) \<Rightarrow>
     case (py_int h, if m = [] then Some 0 else py_int m) of
       (Some hh, Some mm) \<Rightarrow>
         if 0 \<le> hh \<and> hh < 24 \<and> 0 \<le> mm \<and> mm < 60 then Some (clock hh mm) else None
     | _ \<Rightarrow> None)"

definition falsy_text :: "string option \<Rightarrow> bool" where
  "falsy_text s \<longleftrightarrow> s = None \<or> s = Some []"

definition or_text :: "string option \<Rightarrow> string \<Rightarrow> string" where
  "or_text s d = (if falsy_text s then d else the s)"

text \<open>An unusable schedule arms the rule around the clock.\<close>

definition row_schedule :: "zone_db \<Rightarrow> raw_schedule \<Rightarrow> string \<Rightarrow> schedule" where
  "row_schedule zones raw tz =
    (if falsy_text (raw_start raw) \<or> falsy_text (raw_end raw) then always
     else case (parse_clock (the (raw_start raw)), parse_clock (the (raw_end raw))) of
       (Some s, Some e) \<Rightarrow>
         (case make_schedule zones (or_text (raw_timezone raw) tz) s e
            (case raw_days raw of Some ds \<Rightarrow> if ds = [] then all_days else set ds | None \<Rightarrow> all_days) of
            Inr sch \<Rightarrow> sch | Inl _ \<Rightarrow> always)
     | _ \<Rightarrow> always)"

fun action_of :: "string \<Rightarrow> action option" where
  "action_of s = (if s = ''push'' then Some PUSH else if s = ''snapshot'' then Some SNAPSHOT
     else if s = ''escalate'' then Some ESCALATE else if s = ''log_only'' then Some LOG_ONLY else None)"

datatype load_error = Bad_action string | Bad_severity string | Bad_factor string

definition or_raise :: "'e \<Rightarrow> 'a option \<Rightarrow> 'e + 'a" where
  "or_raise e x = (case x of Some y \<Rightarrow> Inr y | None \<Rightarrow> Inl e)"

definition row_weights :: "(string \<times> int) list \<Rightarrow> load_error + weights" where
  "row_weights ws =
     bind_err (map_err (\<lambda>(k, v). bind_err (or_raise (Bad_factor k) (factor_of_value k)) (\<lambda>f. Inr (f, v))) ws)
       (\<lambda>xs. Inr (map_of (rev xs)))"

definition rule_from_row :: "zone_db \<Rightarrow> rule_row \<Rightarrow> string \<Rightarrow> load_error + rule" where
  "rule_from_row zones row tz =
    (let sch = row_schedule zones (rr_schedule row) tz in
     bind_err (map_err (\<lambda>a. or_raise (Bad_action a) (action_of a))
       (if rr_actions row = [] then [''push'', ''snapshot''] else rr_actions row)) (\<lambda>acts.
     bind_err (or_raise (Bad_severity (or_text (rr_min_severity row) ''LOW''))
       (severity_of_value (or_text (rr_min_severity row) ''LOW''))) (\<lambda>sev.
     bind_err (row_weights (rr_weights row)) (\<lambda>ws.
     Inr \<lparr>rule_name = rr_name row, event_types = set (rr_event_types row), rule_schedule = sch,
          camera_ids = set (rr_cameras row), zone_names = set (rr_zones row),
          min_ai_confidence = rr_min_confidence row, rule_actions = set acts,
          if_ai_unavailable = ALERT_ON_VENDOR_EVENT, min_severity = sev, enabled = rr_enabled row,
          rule_weights = ws\<rparr>))))"

section \<open>The context of one recorder\<close>

definition resolve_device :: "email_profile \<Rightarrow> site_tables \<Rightarrow> string \<Rightarrow> device_identity option" where
  "resolve_device prof db username =
    first_some (\<lambda>a.
      if ac_username a = username \<and> ac_active a
      then (case lookup_row device_id (ac_device a) (devices db) of
          None \<Rightarrow> None
        | Some d \<Rightarrow> Some \<lparr>id_device = device_id d, id_tenant = device_tenant d, id_site = device_site d,
            id_username = ac_username a, id_profile = prof,
            id_capture = (case device_profile d of None \<Rightarrow> True | Some p \<Rightarrow> p \<notin> verified_profiles db)\<rparr>)
      else None) (accounts db)"

definition zone_of_row :: "zone_row \<Rightarrow> zone option" where
  "zone_of_row row = (case zone_type_of_value (zr_type row) of
     None \<Rightarrow> None
   | Some ty \<Rightarrow> (case make_zone (zr_name row) ty (zr_points row) of Inr z \<Rightarrow> Some z | Inl _ \<Rightarrow> None))"

definition device_cameras :: "site_tables \<Rightarrow> uuid \<Rightarrow> camera_row list" where
  "device_cameras db dev = filter (\<lambda>c. cam_device c = dev \<and> cam_enabled c) (cameras db)"

definition zones_of_camera :: "site_tables \<Rightarrow> uuid \<Rightarrow> string \<Rightarrow> zone list option" where
  "zones_of_camera db dev cid =
    (let zs = List.map_filter zone_of_row (filter (\<lambda>z. uuid_text (zr_camera z) = cid \<and>
        zr_camera z \<in> cam_id ` set (device_cameras db dev)) (zone_rows db))
     in if zs = [] then None else Some zs)"

definition site_rules :: "site_tables \<Rightarrow> device_row \<Rightarrow> site_row \<Rightarrow> rule_row list" where
  "site_rules db d st = filter (\<lambda>r. rr_tenant r = device_tenant d \<and> rr_enabled r \<and>
     (rr_site r = Some (site_id st) \<or> rr_site r = None)) (rule_rows db)"

definition load_site_context :: "zone_db \<Rightarrow> site_tables \<Rightarrow> silence_row list \<Rightarrow> uuid
    \<Rightarrow> load_error + site_context option" where
  "load_site_context zones db silence dev =
    (case lookup_row device_id dev (devices db) of
       None \<Rightarrow> Inr None
     | Some d \<Rightarrow> (case lookup_row site_id (device_site d) (sites db) of
         None \<Rightarrow> Inr None
       | Some st \<Rightarrow>
           bind_err (map_err (\<lambda>r. rule_from_row zones r (site_tz st)) (site_rules db d st)) (\<lambda>rules.
           Inr (Some \<lparr>sc_name = site_name st, sc_timezone = site_tz st, sc_rules = rules,
             sc_cameras = map_of (rev (map (\<lambda>c. (cam_channel c, (uuid_text (cam_id c), cam_name c)))
               (device_cameras db dev))),
             sc_zones = zones_of_camera db dev,
             sc_device_silent = (case lookup_row si_device dev silence of
               None \<Rightarrow> False | Some s \<Rightarrow> si_state s = ''SILENT''),
             sc_tampered = {}\<rparr>))))"

section \<open>Rows of one message\<close>

record email_message =
  em_id :: uuid
  em_tenant :: uuid
  em_device :: uuid
  em_message_id :: string
  em_user :: string
  em_subject :: "string option"
  em_size :: nat
  em_status :: string
  em_profile :: string
  em_warnings :: "string list"

record email_sample =
  es_id :: uuid
  es_device :: uuid
  es_profile :: string
  es_raw :: string

record media_asset =
  ma_id :: uuid
  ma_tenant :: uuid
  ma_event :: uuid
  ma_key :: string
  ma_type :: string
  ma_size :: nat
  ma_digest :: string

record flow_db =
  fd_messages :: "email_message list"
  fd_samples :: "email_sample list"
  fd_silence :: "silence_row list"
  fd_events :: "event_row list"
  fd_media :: "media_asset list"
  fd_alarms :: "alarm_row list"

record persist_draw =
  new_message :: uuid
  new_sample :: uuid
  new_event :: uuid
  new_media :: "nat \<Rightarrow> uuid"
  new_alarm :: uuid

record persisted_flow =
  pf_event :: "uuid option"
  pf_alarm :: "uuid option"
  pf_media :: "uuid list"
  pf_message :: "uuid option"

datatype persist_error = Media_key_taken string | Bad_camera_id string

definition touch_device_heartbeat :: "uuid \<Rightarrow> uuid \<Rightarrow> instant \<Rightarrow> silence_row list \<Rightarrow> silence_row list" where
  "touch_device_heartbeat tenant dev moment rows =
    (case lookup_row si_device dev rows of
       None \<Rightarrow> rows @ [\<lparr>si_device = dev, si_tenant = tenant, si_last_message = Some moment,
         si_interval = 1800, si_state = ''OK'', si_changed_at = Some moment\<rparr>]
     | Some st \<Rightarrow> update_row si_device dev
         (\<lambda>r. (if si_state r \<noteq> ''OK'' then r\<lparr>si_state := ''OK'', si_changed_at := Some moment\<rparr> else r)
           \<lparr>si_last_message := Some moment\<rparr>) rows)"

definition existing_event_id :: "event_row list \<Rightarrow> string \<Rightarrow> uuid option" where
  "existing_event_id events message =
    (if message = [] then None
     else map_option ev_id (lookup_row ev_message (Some message) events))"

definition record_message :: "ingest_result \<Rightarrow> flow_outcome \<Rightarrow> persist_draw \<Rightarrow> flow_db \<Rightarrow> uuid \<times> flow_db" where
  "record_message r f dr db =
    (let i = ir_identity r; m = ir_message r in
     case lookup_row em_message_id (msg_id m) (fd_messages db) of
       Some row \<Rightarrow> (em_id row, db)
     | None \<Rightarrow> (new_message dr, db\<lparr>
         fd_messages := fd_messages db @ [\<lparr>em_id = new_message dr, em_tenant = id_tenant i,
           em_device = id_device i, em_message_id = msg_id m, em_user = id_username i,
           em_subject = (if msg_subject m = [] then None else Some (py_take 500 (msg_subject m))),
           em_size = msg_size m, em_status = status_label f, em_profile = pb_profile (ir_body r),
           em_warnings = msg_warnings m\<rparr>],
         fd_samples := (case ir_sample r of None \<Rightarrow> fd_samples db
           | Some raw \<Rightarrow> fd_samples db @ [\<lparr>es_id = new_sample dr, es_device = id_device i,
               es_profile = pb_profile (ir_body r), es_raw = raw\<rparr>])\<rparr>))"

definition event_row_of :: "ingest_result \<Rightarrow> ingested_event \<Rightarrow> flow_outcome \<Rightarrow> uuid \<Rightarrow> uuid option \<Rightarrow> event_row" where
  "event_row_of r e f eid cam = \<lparr>ev_id = eid, ev_tenant = id_tenant (ir_identity r),
     ev_site = id_site (ir_identity r), ev_device = id_device (ir_identity r), ev_camera = cam,
     ev_type = ie_type e, ev_vendor_label = ie_label e, ev_channel = ie_channel e,
     ev_occurred = ie_received e, ev_occurred_local = ie_occurred_local e, ev_source = ie_source e,
     ev_message = Some (ie_message_id e), ev_dedup_key = dedup_key e, ev_count = fo_count f,
     ev_status = (case fo_event_status f of Some st \<Rightarrow> status_value st | None \<Rightarrow> ''NEW''),
     ev_risk = (case fo_decision f of Some d \<Rightarrow> score (decision_risk d) | None \<Rightarrow> 0),
     ev_severity = (case fo_decision f of Some d \<Rightarrow> severity_value (decision_severity d) | None \<Rightarrow> ''INFO''),
     ev_reasons = (case fo_decision f of Some d \<Rightarrow> map reason_label (risk_reasons (decision_risk d)) | None \<Rightarrow> []),
     ev_parse_status = parse_status_value (ie_status e), ev_warnings = ie_warnings e,
     ev_profile = Some (ie_profile e)\<rparr>"

text \<open>Inserting media rows: the storage key is unique, so a key used twice raises.\<close>

fun insert_media :: "uuid \<Rightarrow> uuid \<Rightarrow> (string, string) dict \<Rightarrow> (nat \<Rightarrow> uuid) \<Rightarrow> nat \<Rightarrow> ingested_media list
    \<Rightarrow> media_asset list \<Rightarrow> persist_error + uuid list \<times> media_asset list" where
  "insert_media tenant eid keys ids n [] rows = Inr ([], rows)"
| "insert_media tenant eid keys ids n (m # ms) rows =
    (case map_of keys (media_digest m) of
       None \<Rightarrow> insert_media tenant eid keys ids n ms rows
     | Some k \<Rightarrow>
         if k \<in> ma_key ` set rows then Inl (Media_key_taken k)
         else bind_err (insert_media tenant eid keys ids (Suc n) ms
             (rows @ [\<lparr>ma_id = ids n, ma_tenant = tenant, ma_event = eid, ma_key = k,
                ma_type = media_type m, ma_size = length (media_content m), ma_digest = media_digest m\<rparr>]))
           (\<lambda>(is, rows'). Inr (ids n # is, rows')))"

definition alarm_row_of :: "ingest_result \<Rightarrow> flow_outcome \<Rightarrow> decision \<Rightarrow> uuid \<Rightarrow> uuid \<Rightarrow> instant \<Rightarrow> alarm_row" where
  "alarm_row_of r f d aid eid now = \<lparr>al_id = aid, al_tenant = id_tenant (ir_identity r),
     al_site = id_site (ir_identity r), al_event = eid, al_severity = severity_value (decision_severity d),
     al_status = ''ALERTED'', al_opened = now, al_acked_at = None, al_acked_by = None,
     al_resolved_at = None, al_resolved_by = None, al_resolution = None, al_note = None, al_step = 0\<rparr>"

definition camera_uuid :: "flow_outcome \<Rightarrow> persist_error + uuid option" where
  "camera_uuid f = (case fo_camera f of
     None \<Rightarrow> Inr None
   | Some c \<Rightarrow> if c = [] then Inr None
       else (case parse_uuid c of Some u \<Rightarrow> Inr (Some u) | None \<Rightarrow> Inl (Bad_camera_id c)))"

definition store_alarm :: "ingest_result \<Rightarrow> flow_outcome \<Rightarrow> uuid \<Rightarrow> persist_draw \<Rightarrow> instant \<Rightarrow> flow_db
    \<Rightarrow> uuid option \<times> flow_db" where
  "store_alarm r f eid dr now db =
    (case fo_decision f of
       Some d \<Rightarrow>
         if fo_stage f = STAGE_ALARMED
         then let aid = (case fo_alarm f of Some a \<Rightarrow> a | None \<Rightarrow> new_alarm dr)
              in (Some aid, db\<lparr>fd_alarms := fd_alarms db @ [alarm_row_of r f d aid eid now]\<rparr>)
         else (None, db)
     | None \<Rightarrow> (None, db))"

text \<open>\<^verbatim>\<open>persist_flow\<close>; the session's rollback on an exception is the caller's.\<close>

definition persist_flow :: "ingest_result \<Rightarrow> flow_outcome \<Rightarrow> (string, string) dict \<Rightarrow> uuid option
    \<Rightarrow> persist_draw \<Rightarrow> instant \<Rightarrow> flow_db \<Rightarrow> persist_error + persisted_flow \<times> flow_db" where
  "persist_flow r f keys event_id dr now db =
    (let (mid, db1) = record_message r f dr db;
         i = ir_identity r;
         db2 = db1\<lparr>fd_silence := touch_device_heartbeat (id_tenant i) (id_device i) now (fd_silence db1)\<rparr>;
         p = \<lparr>pf_event = None, pf_alarm = None, pf_media = [], pf_message = Some mid\<rparr>
     in if ir_blocked r \<or> \<not> fo_persist f then Inr (p, db2)
        else case ir_event r of
          None \<Rightarrow> Inr (p, db2)
        | Some e \<Rightarrow> (case existing_event_id (fd_events db2) (ie_message_id e) of
            Some old \<Rightarrow> Inr (p\<lparr>pf_event := Some old\<rparr>, db2)
          | None \<Rightarrow>
              let eid = (case event_id of Some u \<Rightarrow> u | None \<Rightarrow> new_event dr) in
              bind_err (camera_uuid f) (\<lambda>cam.
              bind_err (insert_media (id_tenant i) eid keys (new_media dr) 0 (ir_media r) (fd_media db2))
                (\<lambda>(mids, media).
              let db3 = db2\<lparr>fd_events := fd_events db2 @ [event_row_of r e f eid cam], fd_media := media\<rparr>;
                  (aid, db4) = store_alarm r f eid dr now db3
              in Inr (p\<lparr>pf_event := Some eid, pf_alarm := aid, pf_media := mids\<rparr>, db4)))))"

section \<open>What loading a site guarantees\<close>

lemma always_decidable: "decidable_schedule zones always"
  by (simp add: decidable_schedule_def is_always_on_def always_def)

lemma make_schedule_timezone:
  "make_schedule zones tz s e ds = Inr sch \<Longrightarrow> zones (sched_timezone sch) \<noteq> None"
  by (auto simp: make_schedule_def resolve_timezone_def bind_err_Inr_iff split: option.splits if_splits)

lemma made_schedule_decidable:
  "make_schedule zones tz s e ds = Inr sch \<Longrightarrow> decidable_schedule zones sch"
  by (auto simp: decidable_schedule_def dest: make_schedule_timezone)

lemma row_schedule_decidable: "decidable_schedule zones (row_schedule zones raw tz)"
  unfolding row_schedule_def
  by (auto simp: always_decidable split: option.splits sum.splits intro: made_schedule_decidable)

lemma rule_from_row_schedule:
  "rule_from_row zones row tz = Inr r \<Longrightarrow> decidable_schedule zones (rule_schedule r)"
  by (auto simp: rule_from_row_def Let_def bind_err_Inr_iff row_schedule_decidable)

lemma make_zone_valid: "make_zone n ty ps = Inr z \<Longrightarrow> valid_zones [z]"
  by (auto simp: make_zone_def valid_zones_def bind_err_Inr_iff validate_polygon_iff)

lemma zone_of_row_valid: "zone_of_row row = Some z \<Longrightarrow> valid_zones [z]"
  using make_zone_valid by (fastforce simp: zone_of_row_def split: option.splits sum.splits)

lemma map_filter_member: "y \<in> set (List.map_filter f xs) \<Longrightarrow> \<exists>x. f x = Some y"
  by (auto simp: List.map_filter_def)

lemma zones_of_camera_valid:
  assumes "zones_of_camera db dev cid = Some zs"
  shows "valid_zones zs"
proof -
  have "\<exists>row. zone_of_row row = Some z" if "z \<in> set zs" for z
    using assms that map_filter_member unfolding zones_of_camera_def Let_def
    by (metis (no_types, lifting) option.distinct(1) option.sel)
  then show ?thesis
    using zone_of_row_valid unfolding valid_zones_def by (metis list.set_intros(1))
qed

lemma map_err_members: "map_err f xs = Inr ys \<Longrightarrow> y \<in> set ys \<Longrightarrow> \<exists>x \<in> set xs. f x = Inr y"
  by (induction xs arbitrary: ys) (auto simp: bind_err_Inr_iff)

lemma load_site_contextD:
  assumes "load_site_context zones db silence dev = Inr (Some ctx)"
  obtains d st where "lookup_row device_id dev (devices db) = Some d"
    "lookup_row site_id (device_site d) (sites db) = Some st"
    "sc_timezone ctx = site_tz st" "sc_zones ctx = zones_of_camera db dev"
    "map_err (\<lambda>r. rule_from_row zones r (site_tz st)) (site_rules db d st) = Inr (sc_rules ctx)"
    "sc_tampered ctx = {}"
    "sc_device_silent ctx = (case lookup_row si_device dev silence of
       None \<Rightarrow> False | Some s \<Rightarrow> si_state s = ''SILENT'')"
proof -
  obtain d where d: "lookup_row device_id dev (devices db) = Some d"
    using assms by (cases "lookup_row device_id dev (devices db)") (simp_all add: load_site_context_def)
  obtain st where st: "lookup_row site_id (device_site d) (sites db) = Some st"
    using assms d by (cases "lookup_row site_id (device_site d) (sites db)") (simp_all add: load_site_context_def)
  show thesis
    by (rule that [OF d st]) (use assms d st in \<open>auto simp: load_site_context_def bind_err_Inr_iff\<close>)
qed

lemma loaded_rules_decidable:
  "load_site_context zones db silence dev = Inr (Some ctx) \<Longrightarrow> r \<in> set (sc_rules ctx) \<Longrightarrow>
   decidable_schedule zones (rule_schedule r)"
  by (elim load_site_contextD) (blast dest: map_err_members rule_from_row_schedule)

lemma loaded_site_returns:
  assumes "load_site_context zones db silence dev = Inr (Some ctx)"
    and "zones (sc_timezone ctx) = Some off"
  shows "\<exists>f. fst (process zones r ctx outages ai now dr w) = Inr f"
proof -
  have "sc_zones ctx = zones_of_camera db dev" using assms(1) by (elim load_site_contextD)
  then have zs: "valid_zones (case sc_zones ctx k of None \<Rightarrow> [] | Some zs \<Rightarrow> zs)" for k
    using zones_of_camera_valid [of db dev k]
    by (cases "zones_of_camera db dev k") (simp_all add: valid_zones_def)
  have "\<exists>d. evaluate_all zones (sc_rules ctx) (flow_context ctx e v cam) = Inr d" for e v cam
    by (rule evaluate_all_returns, rule evaluate_returns)
      (use assms loaded_rules_decidable zs in \<open>auto simp: flow_context_def\<close>)
  then have "\<exists>f. decide zones r e ctx v m dr = Inr f" for e v m
    by (auto simp: decide_def case_prod_unfold bind_err_Inr_iff)
       (metis (mono_tags, lifting))
  then show ?thesis
    by (auto simp: process_def Let_def case_prod_unfold split: option.splits)
qed

section \<open>The rows of one message\<close>

text \<open>
  What the tables promise each other: unique delivery and storage keys, one silence row per
  recorder, one event per source message, and no alarm or picture without its event.
\<close>

definition flow_db_wf :: "flow_db \<Rightarrow> bool" where
  "flow_db_wf db \<longleftrightarrow> distinct (map em_message_id (fd_messages db)) \<and>
     distinct (map ma_key (fd_media db)) \<and> distinct (map si_device (fd_silence db)) \<and>
     distinct (map ev_message (fd_events db)) \<and>
     al_event ` set (fd_alarms db) \<subseteq> ev_id ` set (fd_events db) \<and>
     ma_event ` set (fd_media db) \<subseteq> ev_id ` set (fd_events db)"

lemma lookup_row_append: "lookup_row key k (xs @ ys) =
    (case lookup_row key k xs of Some r \<Rightarrow> Some r | None \<Rightarrow> lookup_row key k ys)"
  by (induction xs) (auto simp: lookup_row_def)

lemma lookup_row_single: "lookup_row key k [r] = (if key r = k then Some r else None)"
  by (simp add: lookup_row_def)

lemma record_message_tables:
  assumes "record_message r f dr db = (mid, db')"
  shows "fd_silence db' = fd_silence db" "fd_events db' = fd_events db" "fd_media db' = fd_media db"
    "fd_alarms db' = fd_alarms db"
    "\<exists>row. lookup_row em_message_id (msg_id (ir_message r)) (fd_messages db') = Some row \<and> em_id row = mid"
    "distinct (map em_message_id (fd_messages db)) \<Longrightarrow> distinct (map em_message_id (fd_messages db'))"
proof -
  let ?k = "msg_id (ir_message r)"
  have "fd_silence db' = fd_silence db \<and> fd_events db' = fd_events db \<and> fd_media db' = fd_media db \<and>
      fd_alarms db' = fd_alarms db \<and> ((db' = db \<and> (\<exists>row. lookup_row em_message_id ?k (fd_messages db) = Some row \<and> em_id row = mid)) \<or>
      (lookup_row em_message_id ?k (fd_messages db) = None \<and>
       (\<exists>row. em_message_id row = ?k \<and> em_id row = mid \<and> fd_messages db' = fd_messages db @ [row])))"
    using assms by (cases "lookup_row em_message_id ?k (fd_messages db)") (auto simp: record_message_def Let_def)
  note cases = this
  then show "fd_silence db' = fd_silence db" "fd_events db' = fd_events db" "fd_media db' = fd_media db"
    "fd_alarms db' = fd_alarms db"
    "\<exists>row. lookup_row em_message_id ?k (fd_messages db') = Some row \<and> em_id row = mid"
    by (auto simp: lookup_row_append lookup_row_single)
  show "distinct (map em_message_id (fd_messages db'))" if "distinct (map em_message_id (fd_messages db))"
    using that cases lookup_row_None [of em_message_id ?k "fd_messages db"] by force
qed

lemma record_message_again:
  assumes "lookup_row em_message_id (msg_id (ir_message r)) (fd_messages db) = Some row"
  shows "record_message r f dr db = (em_id row, db)"
  using assms by (simp add: record_message_def)

lemma record_message_new:
  assumes "record_message r f dr db = (mid, db')" and "lookup_row em_message_id (msg_id (ir_message r)) (fd_messages db) = None"
  shows "\<exists>row. fd_messages db' = fd_messages db @ [row] \<and> em_message_id row = msg_id (ir_message r) \<and>
    em_tenant row = id_tenant (ir_identity r) \<and> em_device row = id_device (ir_identity r) \<and>
    em_user row = id_username (ir_identity r)"
  using assms by (auto simp: record_message_def Let_def)

lemma touch_distinct:
  "distinct (map si_device rows) \<Longrightarrow> distinct (map si_device (touch_device_heartbeat tn dev t rows))"
  by (auto simp: touch_device_heartbeat_def lookup_row_None keys_update_row split: option.splits)

lemma insert_media_appends:
  "insert_media tenant eid keys ids n ms rows = Inr (is, rows') \<Longrightarrow>
    \<exists>new. rows' = rows @ new \<and> map ma_id new = is \<and> (\<forall>m \<in> set new. ma_event m = eid \<and> ma_tenant m = tenant) \<and>
      (distinct (map ma_key rows) \<longrightarrow> distinct (map ma_key rows'))"
proof (induction ms arbitrary: n rows "is" rows')
  case (Cons m ms)
  show ?case
  proof (cases "map_of keys (media_digest m)")
    case None
    with Cons.prems Cons.IH show ?thesis by simp
  next
    case (Some k)
    let ?row = "\<lparr>ma_id = ids n, ma_tenant = tenant, ma_event = eid, ma_key = k,
      ma_type = media_type m, ma_size = length (media_content m), ma_digest = media_digest m\<rparr>"
    from Some Cons.prems obtain is' where k: "k \<notin> ma_key ` set rows"
      and rest: "insert_media tenant eid keys ids (Suc n) ms (rows @ [?row]) = Inr (is', rows')" and i: "is = ids n # is'"
      by (auto simp: bind_err_Inr_iff split: if_splits)
    from Cons.IH [OF rest] obtain new where new: "rows' = (rows @ [?row]) @ new" "map ma_id new = is'"
      "\<forall>m \<in> set new. ma_event m = eid \<and> ma_tenant m = tenant"
      "distinct (map ma_key (rows @ [?row])) \<longrightarrow> distinct (map ma_key rows')" by blast
    have "rows' = rows @ (?row # new)" "map ma_id (?row # new) = is" using new(1,2) i by simp_all
    moreover have "\<forall>m \<in> set (?row # new). ma_event m = eid \<and> ma_tenant m = tenant" using new(3) by simp
    moreover have "distinct (map ma_key rows) \<longrightarrow> distinct (map ma_key rows')" using new(4) k by auto
    ultimately show ?thesis by blast
  qed
qed auto

lemma store_alarm_tables:
  assumes "store_alarm r f eid dr now db = (a, db')"
  shows "fd_messages db' = fd_messages db" "fd_silence db' = fd_silence db" "fd_events db' = fd_events db"
    "fd_media db' = fd_media db"
    "(a = None \<and> fd_alarms db' = fd_alarms db \<and> (fo_stage f = STAGE_ALARMED \<longrightarrow> fo_decision f = None)) \<or>
     (\<exists>row. a = Some (al_id row) \<and> fd_alarms db' = fd_alarms db @ [row] \<and> al_event row = eid \<and>
       al_tenant row = id_tenant (ir_identity r) \<and> al_status row = ''ALERTED'' \<and>
       (\<forall>i. fo_alarm f = Some i \<longrightarrow> al_id row = i))"
  using assms by (auto simp: store_alarm_def alarm_row_of_def Let_def split: option.splits if_splits)

text \<open>The two ways of writing a message: nothing but its delivery, or one new event.\<close>

lemma persist_flow_cases:
  assumes "persist_flow r f keys event_id dr now db = Inr (p, db')"
  obtains (delivery) mid db1 where "record_message r f dr db = (mid, db1)"
      "db' = db1\<lparr>fd_silence := touch_device_heartbeat (id_tenant (ir_identity r)) (id_device (ir_identity r)) now (fd_silence db)\<rparr>"
      "pf_message p = Some mid" "pf_alarm p = None" "pf_media p = []"
      "ir_blocked r \<or> \<not> fo_persist f \<or> ir_event r = None \<or>
        (\<exists>e. ir_event r = Some e \<and> pf_event p \<noteq> None \<and> pf_event p = existing_event_id (fd_events db) (ie_message_id e))"
    | (event) mid db1 e eid cam media aid where "record_message r f dr db = (mid, db1)"
      "\<not> ir_blocked r" "fo_persist f" "ir_event r = Some e"
      "existing_event_id (fd_events db) (ie_message_id e) = None"
      "eid = (case event_id of Some u \<Rightarrow> u | None \<Rightarrow> new_event dr)"
      "insert_media (id_tenant (ir_identity r)) eid keys (new_media dr) 0 (ir_media r) (fd_media db) = Inr (pf_media p, media)"
      "store_alarm r f eid dr now (db1\<lparr>fd_silence := touch_device_heartbeat (id_tenant (ir_identity r)) (id_device (ir_identity r)) now (fd_silence db),
         fd_events := fd_events db @ [event_row_of r e f eid cam], fd_media := media\<rparr>) = (aid, db')"
      "pf_message p = Some mid" "pf_event p = Some eid" "pf_alarm p = aid"
proof -
  obtain mid db1 where rm: "record_message r f dr db = (mid, db1)" by (cases "record_message r f dr db")
  note t = record_message_tables(1-4) [OF rm]
  let ?db2 = "db1\<lparr>fd_silence := touch_device_heartbeat (id_tenant (ir_identity r))
    (id_device (ir_identity r)) now (fd_silence db)\<rparr>"
  show thesis
  proof (cases "ir_blocked r \<or> \<not> fo_persist f \<or> ir_event r = None")
    case True
    then have "Inr (p, db') = (Inr (\<lparr>pf_event = None, pf_alarm = None, pf_media = [], pf_message = Some mid\<rparr>, ?db2)
        :: persist_error + persisted_flow \<times> flow_db)"
      using assms rm t
      by (cases "ir_blocked r \<or> \<not> fo_persist f"; cases "ir_event r") (simp_all add: persist_flow_def Let_def)
    with True show thesis by (intro delivery [OF rm]) auto
  next
    case False
    then obtain e where e: "\<not> ir_blocked r" "fo_persist f" "ir_event r = Some e" by auto
    show thesis
    proof (cases "existing_event_id (fd_events db) (ie_message_id e)")
      case (Some old)
      have "Inr (p, db') = (Inr (\<lparr>pf_event = Some old, pf_alarm = None, pf_media = [], pf_message = Some mid\<rparr>, ?db2)
          :: persist_error + persisted_flow \<times> flow_db)"
        using assms rm t e Some by (simp add: persist_flow_def Let_def)
      with Some e show thesis by (intro delivery [OF rm]) auto
    next
      case None
      define eid where "eid = (case event_id of Some u \<Rightarrow> u | None \<Rightarrow> new_event dr)"
      define db3 where "db3 = (\<lambda>cam media. ?db2\<lparr>fd_events := fd_events db @ [event_row_of r e f eid cam], fd_media := media\<rparr>)"
      have "bind_err (camera_uuid f) (\<lambda>cam.
          bind_err (insert_media (id_tenant (ir_identity r)) eid keys (new_media dr) 0 (ir_media r) (fd_media db))
            (\<lambda>(mids, media). case store_alarm r f eid dr now (db3 cam media) of (aid, db4) \<Rightarrow>
              Inr (\<lparr>pf_event = Some eid, pf_alarm = aid, pf_media = mids, pf_message = Some mid\<rparr>, db4)))
        = Inr (p, db')"
        using assms rm t e None by (simp add: persist_flow_def Let_def eid_def db3_def)
      then obtain cam x where x: "insert_media (id_tenant (ir_identity r)) eid keys (new_media dr) 0 (ir_media r)
            (fd_media db) = Inr x"
          "(case x of (mids, media) \<Rightarrow> case store_alarm r f eid dr now (db3 cam media) of (aid, db4) \<Rightarrow>
              Inr (\<lparr>pf_event = Some eid, pf_alarm = aid, pf_media = mids, pf_message = Some mid\<rparr>, db4))
            = (Inr (p, db') :: persist_error + persisted_flow \<times> flow_db)"
        unfolding bind_err_Inr_iff by blast
      obtain mids media where xm: "x = (mids, media)" by (cases x)
      obtain aid db4 where s: "store_alarm r f eid dr now (db3 cam media) = (aid, db4)"
        by (cases "store_alarm r f eid dr now (db3 cam media)")
      have p: "p = \<lparr>pf_event = Some eid, pf_alarm = aid, pf_media = mids, pf_message = Some mid\<rparr>" "db4 = db'"
        using x(2) by (simp_all add: xm s)
      show thesis
        by (rule event [OF rm e None eid_def, where media = media and cam = cam and aid = aid])
          (use x(1) s p in \<open>simp_all add: xm db3_def\<close>)
    qed
  qed
qed

text \<open>Whatever the flow decided, its message is recorded and its recorder's heartbeat is set.\<close>

lemma persist_flow_message:
  assumes "persist_flow r f keys event_id dr now db = Inr (p, db')"
  obtains mid db1 where "record_message r f dr db = (mid, db1)" "fd_messages db' = fd_messages db1"
    "fd_silence db' = touch_device_heartbeat (id_tenant (ir_identity r)) (id_device (ir_identity r)) now (fd_silence db)"
  using assms
proof (cases rule: persist_flow_cases)
  case (delivery mid db1)
  then show thesis by (intro that) simp_all
next
  case (event mid db1 e eid cam media aid)
  from store_alarm_tables(1,2) [OF event(8)] show thesis by (intro that [OF event(1)]) simp_all
qed

lemma existing_event_None:
  "existing_event_id events m = None \<Longrightarrow> m \<noteq> [] \<Longrightarrow> Some m \<notin> ev_message ` set events"
  by (auto simp: existing_event_id_def lookup_row_None)

lemma existing_event_Some: "existing_event_id events m = Some i \<Longrightarrow> i \<in> ev_id ` set events"
  by (auto simp: existing_event_id_def dest: lookup_row_Some split: if_splits)

lemma event_row_fields [simp]:
  "ev_id (event_row_of r e f eid cam) = eid" "ev_message (event_row_of r e f eid cam) = Some (ie_message_id e)"
  by (simp_all add: event_row_of_def)

lemma persist_flow_books:
  assumes wf: "flow_db_wf db" and p: "persist_flow r f keys event_id dr now db = Inr (p, db')"
    and named: "\<And>e. ir_event r = Some e \<Longrightarrow> ie_message_id e \<noteq> []"
  shows "flow_db_wf db' \<and> set (fd_events db) \<subseteq> set (fd_events db') \<and> set (fd_alarms db) \<subseteq> set (fd_alarms db') \<and>
    (\<forall>a. pf_alarm p = Some a \<longrightarrow> (\<exists>row \<in> set (fd_alarms db'). al_id row = a \<and> pf_event p = Some (al_event row) \<and>
       al_status row = ''ALERTED'' \<and> (\<forall>i. fo_alarm f = Some i \<longrightarrow> a = i)))"
  using p
proof (cases rule: persist_flow_cases)
  case (delivery mid db1)
  with wf record_message_tables [OF delivery(1)] show ?thesis
    by (simp add: flow_db_wf_def touch_distinct)
next
  case (event mid db1 e eid cam media aid)
  note t = record_message_tables [OF event(1)] and s = store_alarm_tables [OF event(8)]
  obtain new where new: "media = fd_media db @ new" "\<forall>m \<in> set new. ma_event m = eid"
      "distinct (map ma_key (fd_media db)) \<longrightarrow> distinct (map ma_key media)"
    using insert_media_appends [OF event(7)] by blast
  have ev: "fd_events db' = fd_events db @ [event_row_of r e f eid cam]" and md: "fd_media db' = media"
    using s(3,4) by simp_all
  have al: "fd_alarms db' = fd_alarms db \<and> aid = None \<or>
      (\<exists>row. aid = Some (al_id row) \<and> fd_alarms db' = fd_alarms db @ [row] \<and> al_event row = eid \<and>
       al_status row = ''ALERTED'' \<and> (\<forall>i. fo_alarm f = Some i \<longrightarrow> al_id row = i))"
    using s(5) t(4) by auto
  have fresh: "Some (ie_message_id e) \<notin> ev_message ` set (fd_events db)"
    using existing_event_None [OF event(5)] named [OF event(4)] by blast
  have "distinct (map em_message_id (fd_messages db'))" "distinct (map si_device (fd_silence db'))"
    using t(6) wf s(1,2) touch_distinct by (simp_all add: flow_db_wf_def)
  moreover have "distinct (map ev_message (fd_events db'))" using wf fresh by (auto simp: ev flow_db_wf_def)
  moreover have "al_event ` set (fd_alarms db') \<subseteq> ev_id ` set (fd_events db')"
  proof -
    have "al_event ` set (fd_alarms db') \<subseteq> insert eid (al_event ` set (fd_alarms db))" using al by auto
    also have "\<dots> \<subseteq> insert eid (ev_id ` set (fd_events db))" using wf by (auto simp: flow_db_wf_def)
    finally show ?thesis by (simp add: ev)
  qed
  moreover have "ma_event ` set (fd_media db') \<subseteq> ev_id ` set (fd_events db')"
  proof -
    have "ma_event ` set (fd_media db') \<subseteq> insert eid (ma_event ` set (fd_media db))" using new(1,2) md by auto
    also have "\<dots> \<subseteq> insert eid (ev_id ` set (fd_events db))" using wf by (auto simp: flow_db_wf_def)
    finally show ?thesis by (simp add: ev)
  qed
  moreover have "distinct (map ma_key (fd_media db'))" using new(3) wf by (simp add: md flow_db_wf_def)
  ultimately have wf': "flow_db_wf db'" by (simp add: flow_db_wf_def)
  have row: "\<exists>row \<in> set (fd_alarms db'). al_id row = a \<and> pf_event p = Some (al_event row) \<and>
       al_status row = ''ALERTED'' \<and> (\<forall>i. fo_alarm f = Some i \<longrightarrow> a = i)" if "pf_alarm p = Some a" for a
    using al that event(10,11) by auto
  have "set (fd_alarms db) \<subseteq> set (fd_alarms db')" using al by auto
  moreover have "set (fd_events db) \<subseteq> set (fd_events db')" by (simp add: ev subset_insertI)
  ultimately show ?thesis using wf' row by blast
qed

lemma existing_event_kept:
  "existing_event_id evs m = Some i \<Longrightarrow> existing_event_id (evs @ new) m = Some i"
  by (auto simp: existing_event_id_def lookup_row_append split: option.splits if_splits)

lemma persisted_event_found:
  assumes "persist_flow r f keys event_id dr now db = Inr (p, db')" and "ir_event r = Some e"
    and "\<not> ir_blocked r" and "fo_persist f" and "ie_message_id e \<noteq> []"
  shows "pf_event p \<noteq> None \<and> existing_event_id (fd_events db') (ie_message_id e) = pf_event p \<and>
    (\<exists>row. lookup_row em_message_id (msg_id (ir_message r)) (fd_messages db') = Some row \<and> pf_message p = Some (em_id row))"
  using assms(1)
proof (cases rule: persist_flow_cases)
  case (delivery mid db1)
  obtain e' where "ir_event r = Some e'" "pf_event p \<noteq> None"
      "pf_event p = existing_event_id (fd_events db) (ie_message_id e')"
    using delivery(6) assms(2-4) by (metis option.distinct(1))
  then have "pf_event p \<noteq> None" "pf_event p = existing_event_id (fd_events db) (ie_message_id e)"
    using assms(2) by simp_all
  with delivery(2,3) record_message_tables [OF delivery(1)] show ?thesis by auto
next
  case (event mid db1 e1 eid cam media aid)
  note t = record_message_tables [OF event(1)] and s = store_alarm_tables [OF event(8)]
  have "existing_event_id (fd_events db') (ie_message_id e) = Some eid"
    using event(4,5) assms(2,5) s(3) by (simp add: existing_event_id_def lookup_row_append lookup_row_single)
  with t(5) s(1) event(9,10) show ?thesis by auto
qed

section \<open>Properties\<close>

text \<open>
  C10. Every message, written in any order, leaves the tables consistent: delivery and storage
  keys stay unique, a source message has one event, no alarm and no picture is without its
  event, nothing already stored is lost, and an alarm reported as stored is there, open,
  under the identifier the flow gave it.
\<close>

theorem rows_stay_consistent:
  assumes "flow_db_wf db" and "persist_flow r f keys event_id dr now db = Inr (p, db')"
    and "\<And>e. ir_event r = Some e \<Longrightarrow> ie_message_id e \<noteq> []"
  shows "flow_db_wf db' \<and> set (fd_events db) \<subseteq> set (fd_events db') \<and> set (fd_alarms db) \<subseteq> set (fd_alarms db') \<and>
    (\<forall>a. pf_alarm p = Some a \<longrightarrow> (\<exists>row \<in> set (fd_alarms db'). al_id row = a \<and> pf_event p = Some (al_event row) \<and>
       al_status row = ''ALERTED'' \<and> (\<forall>i. fo_alarm f = Some i \<longrightarrow> a = i)))"
  using assms by (rule persist_flow_books)

definition empty_flow_db :: flow_db where
  "empty_flow_db = \<lparr>fd_messages = [], fd_samples = [], fd_silence = [], fd_events = [], fd_media = [],
     fd_alarms = []\<rparr>"

definition night_rows :: persist_draw where
  "night_rows = \<lparr>new_message = 31, new_sample = 32, new_event = 33, new_media = (\<lambda>n. 40 + n), new_alarm = 34\<rparr>"

definition folded_outcome :: flow_outcome where
  "folded_outcome = stopped_at STAGE_DUPLICATE (Folded_into 0 2)\<lparr>fo_persist := True, fo_count := 2\<rparr>"

lemma night_persists:
  "\<exists>p db'. persist_flow night_result folded_outcome [] (Some 33) night_rows 0 empty_flow_db = Inr (p, db') \<and>
    pf_event p = Some 33"
  by (simp add: persist_flow_def Let_def empty_flow_db_def record_message_def lookup_row_def night_result_def
      folded_outcome_def stopped_at_def existing_event_id_def night_event_def camera_uuid_def store_alarm_def
      case_prod_unfold)

theorem rows_stay_consistent_witness:
  "\<exists>p db'. persist_flow night_result folded_outcome [] (Some 33) night_rows 0 empty_flow_db = Inr (p, db') \<and>
    flow_db_wf db'"
proof -
  obtain p db' where p: "persist_flow night_result folded_outcome [] (Some 33) night_rows 0 empty_flow_db = Inr (p, db')"
    using night_persists by blast
  have wf: "flow_db_wf empty_flow_db" by (simp add: flow_db_wf_def empty_flow_db_def)
  have n: "ir_event night_result = Some e \<Longrightarrow> ie_message_id e \<noteq> []" for e
    by (auto simp: night_result_def night_event_def)
  from rows_stay_consistent [OF wf p n] p show ?thesis by blast
qed

text \<open>
  A recorder that sends a message again changes nothing: once an event was stored for a
  message, storing the same message again, whatever the flow now says about it, answers with
  the same event and delivery, creates no alarm, picture or row, and only renews the
  heartbeat.
\<close>

theorem redelivery_writes_nothing:
  assumes "persist_flow r f keys event_id dr now db = Inr (p, db')" and "ir_event r = Some e"
    and "\<not> ir_blocked r" and "fo_persist f" and "ie_message_id e \<noteq> []"
    and "ir_event r' = Some e'" and "ie_message_id e' = ie_message_id e"
    and "msg_id (ir_message r') = msg_id (ir_message r)" and "\<not> ir_blocked r'" and "fo_persist f'"
  shows "\<exists>q. persist_flow r' f' keys' event_id' dr' now' db' = Inr (q, db'\<lparr>fd_silence :=
      touch_device_heartbeat (id_tenant (ir_identity r')) (id_device (ir_identity r')) now' (fd_silence db')\<rparr>) \<and>
    pf_event q = pf_event p \<and> pf_message q = pf_message p \<and> pf_alarm q = None \<and> pf_media q = []"
proof -
  from persisted_event_found [OF assms(1-5)] obtain row where
    f: "pf_event p \<noteq> None" "existing_event_id (fd_events db') (ie_message_id e) = pf_event p"
      "lookup_row em_message_id (msg_id (ir_message r)) (fd_messages db') = Some row"
      "pf_message p = Some (em_id row)" by blast
  from f(3) have "record_message r' f' dr' db' = (em_id row, db')"
    by (intro record_message_again) (simp add: assms(8))
  with f assms(6,7,9,10) show ?thesis
    by (auto simp: persist_flow_def Let_def)
qed

theorem redelivery_writes_nothing_witness:
  "\<exists>p db' q db''. persist_flow night_result folded_outcome [] (Some 33) night_rows 0 empty_flow_db = Inr (p, db') \<and>
    persist_flow night_result folded_outcome [] (Some 35) night_rows 9 db' = Inr (q, db'') \<and>
    pf_event q = pf_event p \<and> pf_alarm q = None"
proof -
  obtain p db' where p: "persist_flow night_result folded_outcome [] (Some 33) night_rows 0 empty_flow_db = Inr (p, db')"
    using night_persists by blast
  have e: "ir_event night_result = Some night_event" "\<not> ir_blocked night_result" "ie_message_id night_event \<noteq> []"
    by (simp_all add: night_result_def night_event_def)
  have f: "fo_persist folded_outcome" by (simp add: folded_outcome_def)
  from redelivery_writes_nothing [OF p e(1,2) f e(3) e(1) refl refl e(2) f] p show ?thesis by blast
qed

text \<open>
  Stored rules cannot break the flow of a site whose time zone is known: whatever schedules,
  zones and days the rows hold, a loaded site decides every message.
\<close>

theorem loaded_site_decides:
  assumes "load_site_context zones db silence dev = Inr (Some ctx)"
    and "zones (sc_timezone ctx) = Some off"
  shows "\<exists>f. fst (process zones r ctx outages ai now dr w) = Inr f"
  using assms by (rule loaded_site_returns)

definition night_tables :: site_tables where
  "night_tables = \<lparr>
     sites = [\<lparr>site_id = 3, site_tenant = 2, site_name = ''Depo'', site_tz = istanbul, site_armed = True\<rparr>],
     devices = [\<lparr>device_id = 4, device_tenant = 2, device_site = 3, device_profile = None\<rparr>],
     cameras = [\<lparr>cam_id = 5, cam_device = 4, cam_name = ''Kapi'', cam_channel = 2, cam_enabled = True\<rparr>],
     zone_rows = [\<lparr>zr_camera = 5, zr_name = ''yard'', zr_type = ''RESTRICTED'', zr_points = [(0, 0)]\<rparr>],
     rule_rows = [\<lparr>rr_tenant = 2, rr_site = None, rr_name = ''night'', rr_enabled = True,
       rr_event_types = [''person_detected''], rr_cameras = [], rr_zones = [],
       rr_schedule = \<lparr>raw_timezone = None, raw_start = Some ''19:00'', raw_end = Some ''66:00'', raw_days = None\<rparr>,
       rr_min_confidence = 0, rr_min_severity = None, rr_actions = [], rr_weights = []\<rparr>],
     accounts = [], verified_profiles = {}\<rparr>"

lemma night_tables_load:
  "\<exists>ctx. load_site_context utc3 night_tables [] 4 = Inr (Some ctx) \<and> sc_timezone ctx = istanbul"
  by (simp add: load_site_context_def night_tables_def lookup_row_def site_rules_def rule_from_row_def Let_def
      or_raise_def action_of.simps or_text_def falsy_text_def severity_of_value_def row_weights_def)

theorem loaded_site_decides_witness:
  "\<exists>ctx. load_site_context utc3 night_tables [] 4 = Inr (Some ctx) \<and>
    (\<exists>f. fst (process utc3 night_result ctx no_outages None None night_draw new_dedup) = Inr f)"
proof -
  obtain ctx where c: "load_site_context utc3 night_tables [] 4 = Inr (Some ctx)" "sc_timezone ctx = istanbul"
    using night_tables_load by blast
  have z: "utc3 (sc_timezone ctx) = Some (\<lambda>_. 3 * hour)" by (simp add: c(2) utc3_def istanbul_def)
  from loaded_site_decides [OF c(1) z] c(1) show ?thesis by blast
qed

end
