(* ===== verification/Transport.thy ===== *)
theory Transport
  imports Payload Rbac Tables
begin

text \<open>
  Push transport, \<^verbatim>\<open>backend/app/modules/notifications/transport.py\<close>: the retry policy
  of one send, the fan-out of one alarm with its delivery rows, and the queries that choose
  the recipients.  A provider is what it answers at each attempt; random jitter is the
  value it draws at each attempt.
\<close>

section \<open>One send\<close>

datatype platform = IOS | ANDROID

fun platform_value :: "platform \<Rightarrow> string" where
  "platform_value IOS = ''ios''"
| "platform_value ANDROID = ''android''"

definition platform_of :: "string \<Rightarrow> platform option" where
  "platform_of s = find (\<lambda>p. platform_value p = s) [IOS, ANDROID]"

datatype delivery_status = SENT | FAILED | UNREGISTERED | UNCONFIGURED

fun delivery_value :: "delivery_status \<Rightarrow> string" where
  "delivery_value SENT = ''SENT''"
| "delivery_value FAILED = ''FAILED''"
| "delivery_value UNREGISTERED = ''UNREGISTERED''"
| "delivery_value UNCONFIGURED = ''UNCONFIGURED''"

record delivery_result =
  dr_status :: delivery_status
  dr_detail :: "string option"
  dr_attempts :: nat
  dr_provider_id :: "string option"

definition dr_sent :: "delivery_result \<Rightarrow> bool" where
  "dr_sent r \<longleftrightarrow> dr_status r = SENT"

text \<open>The ways \<^verbatim>\<open>transport.send\<close> under its timeout can end.\<close>

datatype send_outcome = Accepted "string option" | Token_unregistered string
  | Transport_error string bool | Timed_out | Crashed string

definition max_attempts :: nat where
  "max_attempts = 4"

definition backoff_base :: rat where
  "backoff_base = 1 / 2"

definition finished :: "delivery_status \<Rightarrow> string option \<Rightarrow> nat \<Rightarrow> string option \<Rightarrow> delivery_result" where
  "finished st detail n pid =
     \<lparr>dr_status = st, dr_detail = detail, dr_attempts = n, dr_provider_id = pid\<rparr>"

text \<open>
  The loop with \<open>left\<close> attempts to go; the second component lists the seconds slept.
\<close>

fun send_loop :: "(nat \<Rightarrow> send_outcome) \<Rightarrow> (nat \<Rightarrow> rat) \<Rightarrow> nat \<Rightarrow> nat \<Rightarrow> string option
    \<Rightarrow> delivery_result \<times> rat list" where
  "send_loop provider jitter maxn 0 last_detail = (finished FAILED last_detail maxn None, [])"
| "send_loop provider jitter maxn (Suc left) last_detail =
    (let attempt = maxn - left;
         pause = (\<lambda>detail. case send_loop provider jitter maxn left (Some detail) of
           (r, ds) \<Rightarrow> (r, backoff_base * 2 ^ (attempt - 1) * (1 / 2 + jitter attempt) # ds))
     in case provider attempt of
          Token_unregistered d \<Rightarrow> (finished UNREGISTERED (Some d) attempt None, [])
        | Transport_error d retryable \<Rightarrow>
            if \<not> retryable \<or> attempt = maxn then (finished FAILED (Some d) attempt None, [])
            else pause d
        | Timed_out \<Rightarrow>
            if attempt = maxn then (finished FAILED (Some ''timed out after 10s'') attempt None, [])
            else pause ''timed out after 10s''
        | Crashed d \<Rightarrow> (finished FAILED (Some d) attempt None, [])
        | Accepted pid \<Rightarrow> (finished SENT None attempt pid, []))"

definition send_with_retry :: "(nat \<Rightarrow> send_outcome) \<Rightarrow> (nat \<Rightarrow> rat) \<Rightarrow> nat \<Rightarrow> delivery_result \<times> rat list" where
  "send_with_retry provider jitter maxn = send_loop provider jitter maxn maxn None"

section \<open>The fan-out\<close>

record recipient =
  rc_user :: uuid
  rc_token :: string
  rc_platform :: platform
  rc_device :: uuid

record dispatch_report =
  rep_alarm :: uuid
  rep_sent :: nat
  rep_failed :: nat
  rep_pruned :: nat
  rep_results :: "(recipient \<times> delivery_result) list"

definition reached_anyone :: "dispatch_report \<Rightarrow> bool" where
  "reached_anyone r \<longleftrightarrow> 0 < rep_sent r"

record push_db =
  push_devices :: "push_device list"
  deliveries :: "alarm_delivery list"

datatype dispatch_error = Device_row_missing uuid

text \<open>
  What the providers answer is \<open>send recipient attempt\<close>; a platform without a transport
  is one the dispatcher was not built with.
\<close>

definition send_one :: "platform set \<Rightarrow> (recipient \<Rightarrow> nat \<Rightarrow> send_outcome) \<Rightarrow> (nat \<Rightarrow> rat)
    \<Rightarrow> recipient \<Rightarrow> delivery_result" where
  "send_one platforms send jitter rc =
    (if rc_platform rc \<notin> platforms
     then finished UNCONFIGURED (Some (''no transport for '' @ platform_value (rc_platform rc))) 0 None
     else fst (send_with_retry (send rc) jitter max_attempts))"

definition delivery_row :: "uuid \<Rightarrow> uuid \<Rightarrow> uuid \<Rightarrow> int \<Rightarrow> instant \<Rightarrow> recipient \<Rightarrow> delivery_result
    \<Rightarrow> alarm_delivery" where
  "delivery_row i tenant alarm step now rc r =
    \<lparr>ad_id = i, ad_tenant = tenant, ad_alarm = alarm, ad_user = Some (rc_user rc),
     ad_channel = (if rc_platform rc = IOS then ''apns'' else ''fcm''),
     ad_step = step, ad_status = delivery_value (dr_status r),
     ad_sent_at = (if dr_sent r then Some now else None),
     ad_error = (case dr_detail r of None \<Rightarrow> None
                 | Some d \<Rightarrow> if d = [] then None else Some (py_take 1000 d))\<rparr>"

text \<open>One turn of the bookkeeping loop; \<open>ids\<close> are the primary keys drawn.\<close>

definition record_result :: "uuid \<Rightarrow> int \<Rightarrow> instant \<Rightarrow> uuid \<times> recipient \<times> delivery_result
    \<Rightarrow> dispatch_report \<times> push_db \<Rightarrow> dispatch_error + dispatch_report \<times> push_db" where
  "record_result tenant step now x s =
    (case (x, s) of ((i, rc, r), (rep, db)) \<Rightarrow>
     let rep1 = rep\<lparr>rep_results := rep_results rep @ [(rc, r)]\<rparr>;
         db1 = db\<lparr>deliveries := deliveries db @ [delivery_row i tenant (rep_alarm rep) step now rc r]\<rparr>
     in if dr_sent r then Inr (rep1\<lparr>rep_sent := rep_sent rep1 + 1\<rparr>, db1)
        else if dr_status r = UNREGISTERED then
          (case lookup_row pd_id (rc_device rc) (push_devices db1) of
             None \<Rightarrow> Inl (Device_row_missing (rc_device rc))
           | Some _ \<Rightarrow> Inr (rep1\<lparr>rep_pruned := rep_pruned rep1 + 1\<rparr>,
               db1\<lparr>push_devices := filter (\<lambda>d. pd_id d \<noteq> rc_device rc) (push_devices db1)\<rparr>))
        else Inr (rep1\<lparr>rep_failed := rep_failed rep1 + 1\<rparr>, db1))"

fun record_all :: "uuid \<Rightarrow> int \<Rightarrow> instant \<Rightarrow> (uuid \<times> recipient \<times> delivery_result) list
    \<Rightarrow> dispatch_report \<times> push_db \<Rightarrow> dispatch_error + dispatch_report \<times> push_db" where
  "record_all tenant step now [] s = Inr s"
| "record_all tenant step now (x # xs) s =
     bind_err (record_result tenant step now x s) (record_all tenant step now xs)"

definition dispatch :: "platform set \<Rightarrow> (recipient \<Rightarrow> nat \<Rightarrow> send_outcome) \<Rightarrow> (nat \<Rightarrow> rat)
    \<Rightarrow> (nat \<Rightarrow> uuid) \<Rightarrow> instant \<Rightarrow> uuid \<Rightarrow> uuid \<Rightarrow> recipient list \<Rightarrow> int \<Rightarrow> push_db
    \<Rightarrow> dispatch_error + dispatch_report \<times> push_db" where
  "dispatch platforms send jitter ids now alarm tenant rcs step db =
    (let rep = \<lparr>rep_alarm = alarm, rep_sent = 0, rep_failed = 0, rep_pruned = 0, rep_results = []\<rparr>
     in if rcs = [] then Inr (rep, db)
        else record_all tenant step now
               (zip (map ids [0..<length rcs]) (map (\<lambda>rc. (rc, send_one platforms send jitter rc)) rcs)) (rep, db))"

section \<open>Who is told\<close>

definition joined :: "push_device list \<Rightarrow> user_row list \<Rightarrow> uuid \<Rightarrow> (user_row \<Rightarrow> bool)
    \<Rightarrow> (push_device \<times> user_row) list" where
  "joined ds us tenant clause =
    [(d, u). d \<leftarrow> ds, u \<leftarrow> us, user_id u = pd_user d \<and> pd_tenant d = tenant \<and> user_active u \<and> clause u]"

definition to_recipient :: "push_device \<times> user_row \<Rightarrow> recipient option" where
  "to_recipient p = (case p of (d, u) \<Rightarrow>
     map_option (\<lambda>pl. \<lparr>rc_user = user_id u, rc_token = pd_token d, rc_platform = pl, rc_device = pd_id d\<rparr>)
       (platform_of (lower (pd_platform d))))"

definition recipients_for_site :: "push_device list \<Rightarrow> user_row list \<Rightarrow> uuid \<Rightarrow> recipient list" where
  "recipients_for_site ds us tenant =
    List.map_filter to_recipient
      (filter (\<lambda>(d, u). ALARMS_VIEW \<in> permissions_for (user_role u)) (joined ds us tenant (\<lambda>_. True)))"

definition recipients_where :: "push_device list \<Rightarrow> user_row list \<Rightarrow> uuid \<Rightarrow> (user_row \<Rightarrow> bool)
    \<Rightarrow> recipient list" where
  "recipients_where ds us tenant clause = List.map_filter to_recipient (joined ds us tenant clause)"

fun first_audience :: "(string \<Rightarrow> recipient list) \<Rightarrow> string list \<Rightarrow> recipient list" where
  "first_audience q [] = []"
| "first_audience q (r # rs) = (let found = q r in if found \<noteq> [] then found else first_audience q rs)"

definition recipients_for_role :: "push_device list \<Rightarrow> user_row list \<Rightarrow> uuid \<Rightarrow> string \<Rightarrow> uuid list
    \<Rightarrow> string list \<Rightarrow> recipient list" where
  "recipients_for_role ds us tenant rl user_ids fallback =
    (if user_ids \<noteq> [] then recipients_where ds us tenant (\<lambda>u. user_id u \<in> set user_ids)
     else first_audience (\<lambda>c. recipients_where ds us tenant (\<lambda>u. user_role u = c)) (rl # fallback))"

section \<open>The retry policy\<close>

definition worth_retrying :: "send_outcome \<Rightarrow> bool" where
  "worth_retrying x \<longleftrightarrow> (case x of Transport_error _ retryable \<Rightarrow> retryable | Timed_out \<Rightarrow> True | _ \<Rightarrow> False)"

definition settles :: "send_outcome \<Rightarrow> delivery_status" where
  "settles x = (case x of Accepted _ \<Rightarrow> SENT | Token_unregistered _ \<Rightarrow> UNREGISTERED | _ \<Rightarrow> FAILED)"

lemma send_loop_settles:
  assumes "a = maxn - left" and "\<not> (worth_retrying (provider a) \<and> a \<noteq> maxn)"
  shows "\<exists>x y. send_loop provider jitter maxn (Suc left) d =
    (finished (settles (provider (maxn - left))) x (maxn - left) y, [])"
  using assms by (cases "provider (maxn - left)") (auto simp: worth_retrying_def settles_def)

lemma send_loop_again:
  assumes "worth_retrying (provider (maxn - left))" and "maxn - left \<noteq> maxn"
  shows "\<exists>d'. send_loop provider jitter maxn (Suc left) d =
    (fst (send_loop provider jitter maxn left (Some d')),
     backoff_base * 2 ^ (maxn - left - 1) * (1 / 2 + jitter (maxn - left)) #
       snd (send_loop provider jitter maxn left (Some d')))"
  using assms
  by (cases "provider (maxn - left)") (simp_all add: worth_retrying_def case_prod_unfold, blast+)

definition run_ok :: "(nat \<Rightarrow> send_outcome) \<Rightarrow> (nat \<Rightarrow> rat) \<Rightarrow> nat \<Rightarrow> nat \<Rightarrow> delivery_result \<Rightarrow> rat list \<Rightarrow> bool" where
  "run_ok provider jitter maxn done r ds \<longleftrightarrow>
    done < dr_attempts r \<and> dr_attempts r \<le> maxn \<and> length ds = dr_attempts r - 1 - done \<and>
    (\<forall>j. done < j \<and> j < dr_attempts r \<longrightarrow> worth_retrying (provider j)) \<and>
    dr_status r = settles (provider (dr_attempts r)) \<and>
    (dr_attempts r < maxn \<longrightarrow> \<not> worth_retrying (provider (dr_attempts r))) \<and>
    (\<forall>j < length ds. ds ! j = backoff_base * 2 ^ (done + j) * (1 / 2 + jitter (done + j + 1)))"

lemma run_ok_step:
  assumes "run_ok provider jitter maxn (Suc n) r ds" and "worth_retrying (provider (Suc n))"
  shows "run_ok provider jitter maxn n r
    (backoff_base * 2 ^ n * (1 / 2 + jitter (Suc n)) # ds)"
proof -
  let ?e = "backoff_base * 2 ^ n * (1 / 2 + jitter (Suc n)) # ds"
  note R = assms(1) [unfolded run_ok_def]
  have "worth_retrying (provider j)" if "n < j" "j < dr_attempts r" for j
    using that R assms(2) by (cases "j = Suc n") auto
  moreover have "?e ! j = backoff_base * 2 ^ (n + j) * (1 / 2 + jitter (n + j + 1))"
    if "j < length ?e" for j
    using that R by (cases j) auto
  moreover have "length ?e = dr_attempts r - 1 - n" using R by (simp, linarith)
  ultimately show ?thesis using R unfolding run_ok_def by (meson Suc_lessD)
qed

lemma send_loop_runs:
  assumes "0 < left" and "left \<le> maxn"
  shows "run_ok provider jitter maxn (maxn - left) (fst (send_loop provider jitter maxn left d))
    (snd (send_loop provider jitter maxn left d))"
  using assms
proof (induction left arbitrary: d)
  case 0
  then show ?case by simp
next
  case (Suc left)
  let ?a = "maxn - left"
  have a: "?a = Suc (maxn - Suc left)" using Suc.prems(2) by simp
  show ?case
  proof (cases "worth_retrying (provider ?a) \<and> ?a \<noteq> maxn")
    case False
    from send_loop_settles [where provider = provider and jitter = jitter and d = d, OF refl this] obtain x y where
      "send_loop provider jitter maxn (Suc left) d = (finished (settles (provider ?a)) x ?a y, [])"
      by blast
    with False a Suc.prems(2) show ?thesis by (auto simp: run_ok_def finished_def)
  next
    case True
    then obtain d' where again: "send_loop provider jitter maxn (Suc left) d =
        (fst (send_loop provider jitter maxn left (Some d')),
         backoff_base * 2 ^ (?a - 1) * (1 / 2 + jitter ?a) #
           snd (send_loop provider jitter maxn left (Some d')))"
      using send_loop_again by blast
    have pos: "0 < left" using True by (cases left) auto
    from Suc.IH [OF pos] Suc.prems(2) a have "run_ok provider jitter maxn (Suc (maxn - Suc left))
        (fst (send_loop provider jitter maxn left (Some d')))
        (snd (send_loop provider jitter maxn left (Some d')))" by simp
    from run_ok_step [OF this] True a again show ?thesis by simp
  qed
qed

text \<open>
  C35. A send makes at least one and at most the allowed number of attempts.  Every attempt
  but the last was worth retrying, the last decides the status, attempts left over mean it
  was not worth retrying, and it slept once between attempts, each pause between a half and
  three halves of its backoff step.
\<close>

theorem retry_decided_by_last_attempt:
  assumes "send_with_retry provider jitter maxn = (r, ds)" and "0 < maxn"
    and "\<forall>n. 0 \<le> jitter n \<and> jitter n < 1"
  shows "1 \<le> dr_attempts r \<and> dr_attempts r \<le> maxn \<and> length ds = dr_attempts r - 1 \<and>
    (\<forall>j. 1 \<le> j \<and> j < dr_attempts r \<longrightarrow> worth_retrying (provider j)) \<and>
    dr_status r = settles (provider (dr_attempts r)) \<and>
    (dr_attempts r < maxn \<longrightarrow> \<not> worth_retrying (provider (dr_attempts r))) \<and>
    (\<forall>j < length ds. 2 ^ j / 4 \<le> ds ! j \<and> ds ! j < 3 * 2 ^ j / 4)"
proof -
  have "run_ok provider jitter maxn 0 r ds"
    using send_loop_runs [OF assms(2) order_refl] assms(1)
    by (simp add: send_with_retry_def) (metis fst_conv snd_conv)
  note run = this [unfolded run_ok_def]
  have "2 ^ j / 4 \<le> ds ! j \<and> ds ! j < 3 * 2 ^ j / 4" if "j < length ds" for j
  proof -
    from run that have d: "ds ! j = 2 ^ j * ((1 / 2 + jitter (Suc j)) / 2)"
      by (simp add: backoff_base_def)
    have p: "(0::rat) < 2 ^ j" by simp
    have "1 / 4 \<le> (1 / 2 + jitter (Suc j)) / 2" "(1 / 2 + jitter (Suc j)) / 2 < 3 / 4"
      using assms(3) [rule_format, of "Suc j"] by simp_all
    with p have "2 ^ j * (1 / 4) \<le> ds ! j" "ds ! j < 2 ^ j * (3 / 4)"
      unfolding d by (simp_all only: mult_le_cancel_left_pos mult_less_cancel_left_pos)
    then show ?thesis by simp
  qed
  with run show ?thesis by (auto simp: Suc_le_eq)
qed

theorem retry_decided_by_last_attempt_witness:
  "let p = (\<lambda>n. if n < 3 then Timed_out else Accepted None);
       r = fst (send_with_retry p (\<lambda>_. 1 / 2) max_attempts)
   in dr_attempts r = 3 \<and> dr_status r = SENT"
proof -
  let ?p = "\<lambda>n. if n < 3 then Timed_out else Accepted None"
  obtain r ds where run: "send_with_retry ?p (\<lambda>_. 1 / 2) max_attempts = (r, ds)"
    by (cases "send_with_retry ?p (\<lambda>_. 1 / 2) max_attempts") simp
  from retry_decided_by_last_attempt [OF run] have
    w: "\<forall>j. 1 \<le> j \<and> j < dr_attempts r \<longrightarrow> worth_retrying (?p j)" and
    s: "dr_status r = settles (?p (dr_attempts r))" and
    l: "dr_attempts r < 4 \<longrightarrow> \<not> worth_retrying (?p (dr_attempts r))" and
    m: "1 \<le> dr_attempts r" "dr_attempts r \<le> 4"
    by (simp_all add: max_attempts_def)
  have "\<not> 3 < dr_attempts r" using w [rule_format, of 3] by (auto simp: worth_retrying_def)
  moreover have "\<not> dr_attempts r < 3" using l by (auto simp: worth_retrying_def)
  ultimately have "dr_attempts r = 3" by simp
  with s run show ?thesis by (simp add: settles_def)
qed

section \<open>What a fan-out leaves behind\<close>

lemma record_all_books:
  assumes "record_all tenant step now xs (rep, db) = Inr (rep', db')"
  shows "rep_results rep' = rep_results rep @ map snd xs \<and> rep_alarm rep' = rep_alarm rep \<and>
    rep_sent rep' = rep_sent rep + length (filter (\<lambda>x. dr_status (snd (snd x)) = SENT) xs) \<and>
    rep_pruned rep' = rep_pruned rep + length (filter (\<lambda>x. dr_status (snd (snd x)) = UNREGISTERED) xs) \<and>
    rep_failed rep' = rep_failed rep +
      length (filter (\<lambda>x. dr_status (snd (snd x)) \<notin> {SENT, UNREGISTERED}) xs) \<and>
    deliveries db' = deliveries db @
      map (\<lambda>(i, rc, r). delivery_row i tenant (rep_alarm rep) step now rc r) xs \<and>
    push_devices db' = filter (\<lambda>d. \<forall>x \<in> set xs. dr_status (snd (snd x)) = UNREGISTERED \<longrightarrow>
      pd_id d \<noteq> rc_device (fst (snd x))) (push_devices db)"
  using assms
proof (induction xs arbitrary: rep db)
  case Nil
  then show ?case by simp
next
  case (Cons x xs)
  obtain i rc r where x: "x = (i, rc, r)" by (cases x) auto
  from Cons.prems obtain rep1 db1 where
    one: "record_result tenant step now x (rep, db) = Inr (rep1, db1)" and
    rest: "record_all tenant step now xs (rep1, db1) = Inr (rep', db')"
    by (auto simp: bind_err_Inr_iff)
  note IH = Cons.IH [OF rest]
  show ?case
  proof (cases "dr_status r")
    case UNREGISTERED
    with one have "rep1 = rep\<lparr>rep_results := rep_results rep @ [(rc, r)], rep_pruned := rep_pruned rep + 1\<rparr>"
      "db1 = db\<lparr>deliveries := deliveries db @ [delivery_row i tenant (rep_alarm rep) step now rc r],
        push_devices := filter (\<lambda>d. pd_id d \<noteq> rc_device rc) (push_devices db)\<rparr>"
      by (auto simp: x record_result_def dr_sent_def Let_def split: option.splits)
    with IH UNREGISTERED show ?thesis
      by (simp add: x)
  next
    case SENT
    with one have "rep1 = rep\<lparr>rep_results := rep_results rep @ [(rc, r)], rep_sent := rep_sent rep + 1\<rparr>"
      "db1 = db\<lparr>deliveries := deliveries db @ [delivery_row i tenant (rep_alarm rep) step now rc r]\<rparr>"
      by (auto simp: x record_result_def dr_sent_def Let_def)
    with IH SENT show ?thesis by (simp add: x)
  next
    case FAILED
    with one have "rep1 = rep\<lparr>rep_results := rep_results rep @ [(rc, r)], rep_failed := rep_failed rep + 1\<rparr>"
      "db1 = db\<lparr>deliveries := deliveries db @ [delivery_row i tenant (rep_alarm rep) step now rc r]\<rparr>"
      by (auto simp: x record_result_def dr_sent_def Let_def)
    with IH FAILED show ?thesis by (simp add: x)
  next
    case UNCONFIGURED
    with one have "rep1 = rep\<lparr>rep_results := rep_results rep @ [(rc, r)], rep_failed := rep_failed rep + 1\<rparr>"
      "db1 = db\<lparr>deliveries := deliveries db @ [delivery_row i tenant (rep_alarm rep) step now rc r]\<rparr>"
      by (auto simp: x record_result_def dr_sent_def Let_def)
    with IH UNCONFIGURED show ?thesis by (simp add: x)
  qed
qed

text \<open>A fan-out pairs fresh identifiers with the recipients; what is counted or asked of the pairs
  is counted or asked of the recipients.\<close>

lemma pairs_snd: "map snd (zip (map ids [0..<length rcs]) (map (\<lambda>rc. (rc, g rc)) rcs)) = map (\<lambda>rc. (rc, g rc)) rcs"
  by (simp add: map_snd_zip)

lemma pairs_count: "length (filter (\<lambda>x. P (dr_status (snd (snd x)))) (zip (map ids [0..<length rcs]) (map (\<lambda>rc. (rc, g rc)) rcs))) =
    length (filter (\<lambda>rc. P (dr_status (g rc))) rcs)" (is "length (filter _ ?xs) = _")
proof -
  have "length (filter (\<lambda>x. P (dr_status (snd (snd x)))) ?xs) = length (filter (\<lambda>y. P (dr_status (snd y))) (map snd ?xs))"
    by (simp add: filter_map comp_def del: map_snd_zip)
  then show ?thesis unfolding pairs_snd by (simp add: filter_map comp_def)
qed

lemma pairs_ball: "(\<forall>x \<in> set (zip (map ids [0..<length rcs]) (map (\<lambda>rc. (rc, g rc)) rcs)). Q (fst (snd x)) (snd (snd x))) \<longleftrightarrow>
    (\<forall>rc \<in> set rcs. Q rc (g rc))" (is "(\<forall>x \<in> set ?xs. _ x) \<longleftrightarrow> _")
proof -
  have "(\<forall>x \<in> set ?xs. Q (fst (snd x)) (snd (snd x))) \<longleftrightarrow> (\<forall>y \<in> set (map snd ?xs). Q (fst y) (snd y))"
    by (simp del: map_snd_zip)
  then show ?thesis unfolding pairs_snd by simp
qed

lemma statuses_partition: "length (filter (\<lambda>rc. st rc = SENT) rcs) + length (filter (\<lambda>rc. st rc = UNREGISTERED) rcs) +
    length (filter (\<lambda>rc. st rc \<noteq> SENT \<and> st rc \<noteq> UNREGISTERED) rcs) = length rcs"
  by (induction rcs) auto

lemma dispatch_books:
  assumes "dispatch platforms send jitter ids now alarm tenant rcs step db = Inr (rep, db')"
  shows "(\<exists>rows. deliveries db' = deliveries db @ rows \<and>
       list_all2 (\<lambda>rc row. ad_user row = Some (rc_user rc) \<and> ad_alarm row = alarm \<and>
         ad_tenant row = tenant \<and> ad_step row = step \<and>
         ad_status row = delivery_value (dr_status (send_one platforms send jitter rc)) \<and>
         (ad_sent_at row \<noteq> None \<longleftrightarrow> dr_status (send_one platforms send jitter rc) = SENT)) rcs rows) \<and>
    rep_sent rep = length (filter (\<lambda>rc. dr_status (send_one platforms send jitter rc) = SENT) rcs) \<and>
    rep_pruned rep = length (filter (\<lambda>rc. dr_status (send_one platforms send jitter rc) = UNREGISTERED) rcs) \<and>
    rep_sent rep + rep_pruned rep + rep_failed rep = length rcs \<and>
    (reached_anyone rep \<longleftrightarrow> (\<exists>rc \<in> set rcs. dr_status (send_one platforms send jitter rc) = SENT)) \<and>
    push_devices db' = filter (\<lambda>d. \<forall>rc \<in> set rcs.
      dr_status (send_one platforms send jitter rc) = UNREGISTERED \<longrightarrow> pd_id d \<noteq> rc_device rc)
      (push_devices db)"
proof (cases "rcs = []")
  case True
  with assms show ?thesis by (auto simp: dispatch_def reached_anyone_def)
next
  case False
  let ?r = "send_one platforms send jitter"
  let ?xs = "zip (map ids [0..<length rcs]) (map (\<lambda>rc. (rc, ?r rc)) rcs)"
  from assms False have "record_all tenant step now ?xs
      (\<lparr>rep_alarm = alarm, rep_sent = 0, rep_failed = 0, rep_pruned = 0, rep_results = []\<rparr>, db) =
      Inr (rep, db')" by (simp add: dispatch_def Let_def)
  note B = record_all_books [OF this, simplified]
  have sent: "rep_sent rep = length (filter (\<lambda>rc. dr_status (?r rc) = SENT) rcs)"
    using B pairs_count [where P = "\<lambda>st. st = SENT"] by simp
  have pruned: "rep_pruned rep = length (filter (\<lambda>rc. dr_status (?r rc) = UNREGISTERED) rcs)"
    using B pairs_count [where P = "\<lambda>st. st = UNREGISTERED"] by simp
  have failed: "rep_failed rep =
      length (filter (\<lambda>rc. dr_status (?r rc) \<noteq> SENT \<and> dr_status (?r rc) \<noteq> UNREGISTERED) rcs)"
    using B pairs_count [where P = "\<lambda>st. st \<noteq> SENT \<and> st \<noteq> UNREGISTERED"] by simp
  have kept: "push_devices db' = filter (\<lambda>d. \<forall>rc \<in> set rcs.
      dr_status (?r rc) = UNREGISTERED \<longrightarrow> pd_id d \<noteq> rc_device rc) (push_devices db)"
  proof -
    have "push_devices db' = filter (\<lambda>d. \<forall>x \<in> set ?xs. dr_status (snd (snd x)) = UNREGISTERED \<longrightarrow>
        pd_id d \<noteq> rc_device (fst (snd x))) (push_devices db)" using B by blast
    then show ?thesis
      unfolding pairs_ball [of ids rcs ?r "\<lambda>rc r. dr_status r = UNREGISTERED \<longrightarrow> pd_id d \<noteq> rc_device rc" for d] .
  qed
  have rows: "list_all2 (\<lambda>rc row. ad_user row = Some (rc_user rc) \<and> ad_alarm row = alarm \<and>
         ad_tenant row = tenant \<and> ad_step row = step \<and>
         ad_status row = delivery_value (dr_status (?r rc)) \<and>
         (ad_sent_at row \<noteq> None \<longleftrightarrow> dr_status (?r rc) = SENT)) rcs
      (map (\<lambda>(i, rc, r). delivery_row i tenant alarm step now rc r) ?xs)"
    by (simp add: list_all2_conv_all_nth delivery_row_def dr_sent_def)
  have "reached_anyone rep \<longleftrightarrow> (\<exists>rc \<in> set rcs. dr_status (?r rc) = SENT)"
    by (simp add: reached_anyone_def sent filter_empty_conv)
  moreover have "rep_sent rep + rep_pruned rep + rep_failed rep = length rcs"
    unfolding sent pruned failed by (rule statuses_partition)
  ultimately show ?thesis using B kept rows sent pruned by blast
qed

text \<open>
  C16. A completed fan-out accounts for every recipient exactly once and in order: one
  delivery row each, carrying the alarm, the tenant, the step and the status, counted as
  sent, pruned or failed.  The push devices that disappear are exactly those whose token the
  provider called unregistered.
\<close>

theorem dispatch_accounts_for_everyone:
  assumes "dispatch platforms send jitter ids now alarm tenant rcs step db = Inr (rep, db')"
  shows "(\<exists>rows. deliveries db' = deliveries db @ rows \<and>
       list_all2 (\<lambda>rc row. ad_user row = Some (rc_user rc) \<and> ad_alarm row = alarm \<and>
         ad_tenant row = tenant \<and> ad_step row = step \<and>
         ad_status row = delivery_value (dr_status (send_one platforms send jitter rc)) \<and>
         (ad_sent_at row \<noteq> None \<longleftrightarrow> dr_status (send_one platforms send jitter rc) = SENT)) rcs rows) \<and>
    rep_sent rep + rep_pruned rep + rep_failed rep = length rcs \<and>
    (reached_anyone rep \<longleftrightarrow> (\<exists>rc \<in> set rcs. dr_status (send_one platforms send jitter rc) = SENT)) \<and>
    push_devices db' = filter (\<lambda>d. \<forall>rc \<in> set rcs.
      dr_status (send_one platforms send jitter rc) = UNREGISTERED \<longrightarrow> pd_id d \<noteq> rc_device rc)
      (push_devices db)"
  using dispatch_books [OF assms] by blast

definition sample_phone :: "uuid \<Rightarrow> platform \<Rightarrow> recipient" where
  "sample_phone i pl = \<lparr>rc_user = i, rc_token = ''t'', rc_platform = pl, rc_device = i\<rparr>"

definition sample_device :: "uuid \<Rightarrow> push_device" where
  "sample_device i = \<lparr>pd_id = i, pd_tenant = 1, pd_user = i, pd_platform = ''ios'', pd_token = ''t''\<rparr>"

theorem dispatch_accounts_for_everyone_witness:
  "\<exists>rep db'. dispatch {IOS} (\<lambda>rc n. if rc_user rc = 2 then Token_unregistered ''gone'' else Accepted None)
      (\<lambda>_. 0) id 0 9 1 [sample_phone 2 IOS, sample_phone 3 IOS, sample_phone 4 ANDROID] 0
      \<lparr>push_devices = [sample_device 2, sample_device 3], deliveries = []\<rparr> = Inr (rep, db') \<and>
    rep_sent rep + rep_pruned rep + rep_failed rep = 3 \<and> push_devices db' = [sample_device 3]"
proof -
  let ?send = "\<lambda>rc n. if rc_user rc = 2 then Token_unregistered ''gone'' else Accepted None"
  let ?rcs = "[sample_phone 2 IOS, sample_phone 3 IOS, sample_phone 4 ANDROID]"
  let ?db = "\<lparr>push_devices = [sample_device 2, sample_device 3], deliveries = []\<rparr>"
  let ?one = "send_one {IOS} ?send (\<lambda>_. 0)"
  have st: "dr_status (?one (sample_phone 2 IOS)) = UNREGISTERED"
    "dr_status (?one (sample_phone 3 IOS)) = SENT"
    "dr_status (?one (sample_phone 4 ANDROID)) = UNCONFIGURED"
    by (simp_all add: send_one_def sample_phone_def finished_def send_with_retry_def max_attempts_def
        numeral_eq_Suc)
  have "\<exists>rep db'. dispatch {IOS} ?send (\<lambda>_. 0) id 0 9 1 ?rcs 0 ?db = Inr (rep, db')"
    using st by (simp add: dispatch_def Let_def record_result_def dr_sent_def upt_rec lookup_row_def
        sample_phone_def sample_device_def)
  then obtain rep db' where r: "dispatch {IOS} ?send (\<lambda>_. 0) id 0 9 1 ?rcs 0 ?db = Inr (rep, db')"
    by blast
  from dispatch_accounts_for_everyone [OF r] st have
    "rep_sent rep + rep_pruned rep + rep_failed rep = 3" "push_devices db' = [sample_device 3]"
    by (simp_all add: sample_phone_def sample_device_def)
  with r show ?thesis by blast
qed

section \<open>The audience of an escalation step\<close>

lemma recipients_where_iff:
  "r \<in> set (recipients_where ds us tenant clause) \<longleftrightarrow>
    (\<exists>d \<in> set ds. \<exists>u \<in> set us. to_recipient (d, u) = Some r \<and> user_id u = pd_user d \<and>
       pd_tenant d = tenant \<and> user_active u \<and> clause u)"
  by (auto simp: recipients_where_def joined_def List.map_filter_def) force+

lemma first_audience_Nil: "first_audience q rs = [] \<longleftrightarrow> (\<forall>r \<in> set rs. q r = [])"
  by (induction rs) (auto simp: Let_def)

lemma first_audience_nth:
  "first_audience q rs \<noteq> [] \<Longrightarrow>
     \<exists>k < length rs. first_audience q rs = q (rs ! k) \<and> (\<forall>j < k. q (rs ! j) = [])"
proof (induction rs)
  case (Cons r rs)
  show ?case
  proof (cases "q r = []")
    case True
    with Cons obtain k where "k < length rs" "first_audience q rs = q (rs ! k)" "\<forall>j < k. q (rs ! j) = []"
      by auto
    with True show ?thesis by (intro exI [of _ "Suc k"]) (auto simp: less_Suc_eq_0_disj)
  next
    case False
    then show ?thesis by (intro exI [of _ 0]) simp
  qed
qed simp

text \<open>
  A step that names no users does not dead-end: it reaches someone exactly when some
  active holder of its role or of one of the fallback roles has a usable phone in the
  tenant, and then it reaches the holders of one single role, the first of them in order
  that has any.  Nobody outside the tenant and no deactivated user is ever told.
\<close>

theorem escalation_step_reaches_someone:
  fixes ds us tenant rl fallback
  defines "holders c \<equiv> recipients_where ds us tenant (\<lambda>u. user_role u = c)"
  defines "told \<equiv> recipients_for_role ds us tenant rl [] fallback"
  shows "(told = [] \<longleftrightarrow> (\<forall>c \<in> set (rl # fallback). holders c = [])) \<and>
    (told \<noteq> [] \<longrightarrow> (\<exists>k < length (rl # fallback). told = holders ((rl # fallback) ! k) \<and>
        (\<forall>j < k. holders ((rl # fallback) ! j) = []))) \<and>
    (\<forall>r \<in> set told. \<exists>d \<in> set ds. \<exists>u \<in> set us. pd_id d = rc_device r \<and> user_id u = rc_user r \<and>
        pd_user d = rc_user r \<and> pd_tenant d = tenant \<and> user_active u \<and>
        user_role u \<in> set (rl # fallback))"
proof -
  let ?q = "\<lambda>c. recipients_where ds us tenant (\<lambda>u. user_role u = c)"
  have told: "told = first_audience ?q (rl # fallback)"
    unfolding told_def recipients_for_role_def by simp
  have none: "told = [] \<longleftrightarrow> (\<forall>c \<in> set (rl # fallback). holders c = [])"
    unfolding told holders_def by (rule first_audience_Nil)
  have some: "told \<noteq> [] \<longrightarrow> (\<exists>k < length (rl # fallback). told = holders ((rl # fallback) ! k) \<and>
        (\<forall>j < k. holders ((rl # fallback) ! j) = []))"
    unfolding told holders_def using first_audience_nth [of ?q "rl # fallback"] by blast
  have who: "\<exists>d \<in> set ds. \<exists>u \<in> set us. pd_id d = rc_device r \<and> user_id u = rc_user r \<and>
        pd_user d = rc_user r \<and> pd_tenant d = tenant \<and> user_active u \<and>
        user_role u \<in> set (rl # fallback)" if "r \<in> set told" for r
  proof -
    from that have "told \<noteq> []" by auto
    with some obtain k where k: "k < length (rl # fallback)" "told = holders ((rl # fallback) ! k)"
      by blast
    from that obtain d u where du: "d \<in> set ds" "u \<in> set us" "to_recipient (d, u) = Some r"
      "user_id u = pd_user d" "pd_tenant d = tenant" "user_active u"
      "user_role u = (rl # fallback) ! k"
      unfolding k(2) holders_def recipients_where_iff by blast
    from du(3) have "pd_id d = rc_device r" "user_id u = rc_user r" by (auto simp: to_recipient_def)
    moreover have "user_role u \<in> set (rl # fallback)" unfolding du(7) using k(1) by (rule nth_mem)
    moreover have "pd_user d = rc_user r" using calculation(2) du(4) by simp
    ultimately show ?thesis using du(1,2,5,6) by blast
  qed
  from none some who show ?thesis by blast
qed

definition sample_user :: "uuid \<Rightarrow> string \<Rightarrow> user_row" where
  "sample_user i r = \<lparr>user_id = i, user_tenant = 1, user_email = ''a'', user_hash = ''h'',
     user_name = None, user_role = r, user_active = True\<rparr>"

theorem escalation_step_reaches_someone_witness:
  "recipients_for_role [sample_device 3] [sample_user 3 ''OWNER''] 1 ''SITE_MANAGER'' [] [''OWNER''] \<noteq> []"
proof -
  have "to_recipient (sample_device 3, sample_user 3 ''OWNER'') \<noteq> None"
    by (simp add: to_recipient_def sample_device_def platform_of_def lower_def lower_char_def)
  then have "recipients_where [sample_device 3] [sample_user 3 ''OWNER''] 1 (\<lambda>u. user_role u = ''OWNER'') \<noteq> []"
    by (simp add: recipients_where_def joined_def List.map_filter_def sample_device_def sample_user_def)
  with escalation_step_reaches_someone [of "[sample_device 3]" "[sample_user 3 ''OWNER'']" 1
      "''SITE_MANAGER''" "[''OWNER'']"] show ?thesis by simp
qed

end
