(* ===== verification/Intake.thy ===== *)
theory Intake
  imports Persistence Hub Transport
begin

text \<open>
  The seam between the mail server and everything that persists,
  \<^verbatim>\<open>backend/app/services/intake.py\<close> and \<^verbatim>\<open>backend/app/services/notifier.py\<close>:
  load the site, run the flow, upload the pictures, write the rows in one transaction, tell
  the open apps, push.  The transaction's commit and the providers' answers are inputs.
\<close>

section \<open>The intake\<close>

record intake_env =
  en_zones :: zone_db
  en_sites :: site_tables
  en_users :: "user_row list"
  en_digest :: "string \<Rightarrow> string"
  en_isof :: "instant \<Rightarrow> string"
  en_media :: bool
  en_notifier :: "(platform set \<times> (recipient \<Rightarrow> nat \<Rightarrow> send_outcome)) option"

text \<open>
  What one message draws: identifiers, the clock, retry jitter, and whether the two
  transactions commit.
\<close>

record intake_draw =
  dw_flow :: flow_draw
  dw_rows :: persist_draw
  dw_event :: uuid
  dw_now :: instant
  dw_commits :: bool
  dw_jitter :: "nat \<Rightarrow> rat"
  dw_deliveries :: "nat \<Rightarrow> uuid"
  dw_push_commits :: bool

record intake_state =
  st_dedup :: dedup_window
  st_outages :: outage_state
  st_store :: object_store
  st_hub :: hub
  st_db :: flow_db
  st_push :: push_db

record intake_outcome =
  io_outcome :: flow_outcome
  io_result :: ingest_result
  io_event :: "uuid option"
  io_alarm :: "uuid option"
  io_keys :: "(string, string) dict"
  io_duplicate :: bool

definition io_alarmed :: "intake_outcome \<Rightarrow> bool" where
  "io_alarmed i \<longleftrightarrow> alarmed (io_outcome i)"

datatype intake_error = Load_failed load_error | Flow_failed eval_error | Rows_failed persist_error
  | Commit_failed

text \<open>\<^verbatim>\<open>_upload\<close>: what is rejected or fails is skipped.\<close>

fun upload_all :: "(string \<Rightarrow> string) \<Rightarrow> device_identity \<Rightarrow> uuid \<Rightarrow> instant \<Rightarrow> ingested_media list
    \<Rightarrow> (string, string) dict \<Rightarrow> object_store \<Rightarrow> (string, string) dict \<times> object_store" where
  "upload_all dg i event occurred [] keys s = (keys, s)"
| "upload_all dg i event occurred (m # ms) keys s =
    (case put dg (media_content m) (id_tenant i) (id_site i) event ''snapshot'' occurred ''business'' s of
       (Inl _, s') \<Rightarrow> upload_all dg i event occurred ms keys s'
     | (Inr stored, s') \<Rightarrow>
         upload_all dg i event occurred ms (dict_set (media_digest m) (stored_key stored) keys) s')"

definition upload :: "intake_env \<Rightarrow> ingest_result \<Rightarrow> ingested_event \<Rightarrow> uuid \<Rightarrow> object_store
    \<Rightarrow> (string, string) dict \<times> object_store" where
  "upload env r e event s =
    (if \<not> en_media env \<or> ir_media r = [] then ([], s)
     else upload_all (en_digest env) (ir_identity r) event (ie_received e) (ir_media r) [] s)"

text \<open>\<^verbatim>\<open>_broadcast\<close>: an exception, such as an unsafe payload, is logged and swallowed.\<close>

definition broadcast :: "intake_env \<Rightarrow> instant \<Rightarrow> intake_outcome \<Rightarrow> hub \<Rightarrow> hub" where
  "broadcast env now i h =
    (let tenant = id_tenant (ir_identity (io_result i)) in
     case fo_push (io_outcome i) of
       Some p \<Rightarrow> (case payload_dict (en_isof env) p of
           Inl _ \<Rightarrow> h
         | Inr d \<Rightarrow> snd (publish tenant (alarm_frame (en_isof env) now d (io_event i)) h))
     | None \<Rightarrow> (case (io_event i, ir_event (io_result i)) of
           (Some u, Some e) \<Rightarrow>
             snd (publish tenant (event_frame (en_isof env) now u (ie_type e)
               (case flow_severity (io_outcome i) of Some s \<Rightarrow> severity_value s | None \<Rightarrow> ''INFO'')
               (fo_camera_name (io_outcome i)) (ie_received e)) h)
         | _ \<Rightarrow> h))"

text \<open>
  \<^verbatim>\<open>PushNotifier.notify\<close> in its own transaction; an exception rolls it back and is logged
  by the caller.
\<close>

definition notify :: "intake_env \<Rightarrow> intake_draw \<Rightarrow> intake_outcome \<Rightarrow> push_db \<Rightarrow> push_db" where
  "notify env dw i db =
    (case (en_notifier env, fo_push (io_outcome i), io_alarm i) of
       (Some (platforms, send), Some p, Some a) \<Rightarrow>
         let tenant = id_tenant (ir_identity (io_result i));
             rcs = recipients_for_site (push_devices db) (en_users env) tenant
         in (case dispatch platforms send (dw_jitter dw) (dw_deliveries dw) (dw_now dw) a tenant rcs 0 db of
               Inl _ \<Rightarrow> db
             | Inr (rep, db') \<Rightarrow> if dw_push_commits dw then db' else db)
     | _ \<Rightarrow> db)"

text \<open>The event identifier and the keys of what was uploaded, unless the message is known.\<close>

definition known_event :: "ingest_result \<Rightarrow> flow_outcome \<Rightarrow> flow_db \<Rightarrow> uuid option" where
  "known_event r f db = (case ir_event r of
     Some e \<Rightarrow> if fo_persist f then existing_event_id (fd_events db) (ie_message_id e) else None
   | None \<Rightarrow> None)"

definition uploaded :: "intake_env \<Rightarrow> ingest_result \<Rightarrow> intake_draw \<Rightarrow> flow_outcome \<Rightarrow> intake_state
    \<Rightarrow> uuid option \<times> (string, string) dict \<times> object_store" where
  "uploaded env r dw f s = (case ir_event r of
     Some e \<Rightarrow>
       if \<not> fo_persist f then (None, [], st_store s)
       else (case known_event r f (st_db s) of
           Some u \<Rightarrow> (Some u, [], st_store s)
         | None \<Rightarrow> (case upload env r e (dw_event dw) (st_store s) of
             (ks, st) \<Rightarrow> (Some (dw_event dw), ks, st)))
   | None \<Rightarrow> (None, [], st_store s))"

text \<open>
  \<^verbatim>\<open>handle\<close>.  An exception leaves the database as it was, and the dedup window and the
  object store as far as they had come.
\<close>

definition handle :: "intake_env \<Rightarrow> ingest_result \<Rightarrow> intake_draw \<Rightarrow> intake_state
    \<Rightarrow> (intake_error + intake_outcome) \<times> intake_state" where
  "handle env r dw s =
    (case load_site_context (en_zones env) (en_sites env) (fd_silence (st_db s)) (id_device (ir_identity r)) of
       Inl e \<Rightarrow> (Inl (Load_failed e), s)
     | Inr None \<Rightarrow> (Inr \<lparr>io_outcome = stopped_at STAGE_NO_EVENT Device_missing, io_result = r,
         io_event = None, io_alarm = None, io_keys = [], io_duplicate = False\<rparr>, s)
     | Inr (Some ctx) \<Rightarrow>
         (case process (en_zones env) r ctx (st_outages s) None None (dw_flow dw) (st_dedup s) of
            (Inl e, w) \<Rightarrow> (Inl (Flow_failed e), s\<lparr>st_dedup := w\<rparr>)
          | (Inr f, w) \<Rightarrow>
              (case uploaded env r dw f s of (event, keys, store) \<Rightarrow>
                 let s2 = s\<lparr>st_dedup := w, st_store := store\<rparr>
                 in case persist_flow r f keys event (dw_rows dw) (dw_now dw) (st_db s) of
                      Inl e \<Rightarrow> (Inl (Rows_failed e), s2)
                    | Inr (p, db) \<Rightarrow>
                        if \<not> dw_commits dw then (Inl Commit_failed, s2)
                        else let i = \<lparr>io_outcome = f, io_result = r, io_event = pf_event p, io_alarm = pf_alarm p,
                                   io_keys = keys, io_duplicate = known_event r f (st_db s) \<noteq> None\<rparr>
                             in (Inr i, s2\<lparr>st_db := db, st_hub := broadcast env (dw_now dw) i (st_hub s),
                                  st_push := notify env dw i (st_push s)\<rparr>))))"

section \<open>How a message can end\<close>

lemma handle_flow:
  assumes "load_site_context (en_zones env) (en_sites env) (fd_silence (st_db s)) (id_device (ir_identity r)) = Inr (Some ctx)"
    and "process (en_zones env) r ctx (st_outages s) None None (dw_flow dw) (st_dedup s) = (Inr f, w)"
    and "uploaded env r dw f s = (event, keys, store)"
  shows "handle env r dw s = (let s2 = s\<lparr>st_dedup := w, st_store := store\<rparr>
         in case persist_flow r f keys event (dw_rows dw) (dw_now dw) (st_db s) of
              Inl e \<Rightarrow> (Inl (Rows_failed e), s2)
            | Inr (p, db) \<Rightarrow>
                if \<not> dw_commits dw then (Inl Commit_failed, s2)
                else let i = \<lparr>io_outcome = f, io_result = r, io_event = pf_event p, io_alarm = pf_alarm p,
                           io_keys = keys, io_duplicate = known_event r f (st_db s) \<noteq> None\<rparr>
                     in (Inr i, s2\<lparr>st_db := db, st_hub := broadcast env (dw_now dw) i (st_hub s),
                          st_push := notify env dw i (st_push s)\<rparr>))"
  by (simp add: handle_def assms)

lemma handle_cases:
  assumes "handle env r dw s = (x, s')"
  obtains (unloaded) e where "x = Inl (Load_failed e)" "s' = s"
    | (gone) i where "x = Inr i" "s' = s" "io_alarm i = None" "io_event i = None" "fo_push (io_outcome i) = None"
        "\<not> io_alarmed i"
        "load_site_context (en_zones env) (en_sites env) (fd_silence (st_db s)) (id_device (ir_identity r)) = Inr None"
    | (raised) ctx e w where "x = Inl (Flow_failed e)" "s' = s\<lparr>st_dedup := w\<rparr>"
        "load_site_context (en_zones env) (en_sites env) (fd_silence (st_db s)) (id_device (ir_identity r)) = Inr (Some ctx)"
        "process (en_zones env) r ctx (st_outages s) None None (dw_flow dw) (st_dedup s) = (Inl e, w)"
    | (failed) ctx f w store e where "x = Inl e" "s' = s\<lparr>st_dedup := w, st_store := store\<rparr>"
        "load_site_context (en_zones env) (en_sites env) (fd_silence (st_db s)) (id_device (ir_identity r)) = Inr (Some ctx)"
        "process (en_zones env) r ctx (st_outages s) None None (dw_flow dw) (st_dedup s) = (Inr f, w)"
    | (stored) ctx f w event keys store p db i where
        "load_site_context (en_zones env) (en_sites env) (fd_silence (st_db s)) (id_device (ir_identity r)) = Inr (Some ctx)"
        "process (en_zones env) r ctx (st_outages s) None None (dw_flow dw) (st_dedup s) = (Inr f, w)"
        "uploaded env r dw f s = (event, keys, store)" "dw_commits dw"
        "persist_flow r f keys event (dw_rows dw) (dw_now dw) (st_db s) = Inr (p, db)"
        "x = Inr i" "io_outcome i = f" "io_result i = r" "io_event i = pf_event p" "io_alarm i = pf_alarm p"
        "s' = s\<lparr>st_dedup := w, st_store := store, st_db := db, st_hub := broadcast env (dw_now dw) i (st_hub s),
           st_push := notify env dw i (st_push s)\<rparr>"
proof -
  let ?load = "load_site_context (en_zones env) (en_sites env) (fd_silence (st_db s)) (id_device (ir_identity r))"
  consider e where "?load = Inl e" | "?load = Inr None" | ctx where "?load = Inr (Some ctx)"
    by (metis option.exhaust sum.exhaust)
  then show thesis
  proof cases
    case 1
    with assms show thesis by (intro unloaded [of e]) (simp_all add: handle_def)
  next
    case 2
    with assms show thesis
      by (intro gone) (auto simp: handle_def stopped_at_def io_alarmed_def alarmed_def)
  next
    case 3
    obtain y w where pr: "process (en_zones env) r ctx (st_outages s) None None (dw_flow dw) (st_dedup s) = (y, w)"
      by (cases "process (en_zones env) r ctx (st_outages s) None None (dw_flow dw) (st_dedup s)")
    show thesis
    proof (cases y)
      case (Inl e)
      with 3 pr assms show thesis by (intro raised) (simp_all add: handle_def)
    next
      case (Inr f)
      obtain event keys store where u: "uploaded env r dw f s = (event, keys, store)"
        by (cases "uploaded env r dw f s")
      note h = handle_flow [OF 3 pr [unfolded Inr] u]
      show thesis
      proof (cases "persist_flow r f keys event (dw_rows dw) (dw_now dw) (st_db s)")
        case (Inl e)
        with h assms 3 pr \<open>y = Inr f\<close> show thesis by (intro failed) (simp_all add: Let_def)
      next
        case (Inr q)
        obtain p db where q: "q = (p, db)" by (cases q)
        show thesis
        proof (cases "dw_commits dw")
          case False
          with h assms 3 pr \<open>y = Inr f\<close> Inr q show thesis by (intro failed) (simp_all add: Let_def)
        next
          case True
          with h assms 3 pr \<open>y = Inr f\<close> Inr q u show thesis by (intro stored) (auto simp: Let_def)
        qed
      qed
    qed
  qed
qed

section \<open>Lemmas\<close>

lemma dispatch_deliveries:
  assumes "dispatch platforms send jitter ids now a tenant rcs step db = Inr (rep, db')"
  shows "\<exists>rows. deliveries db' = deliveries db @ rows \<and> (\<forall>x \<in> set rows. ad_alarm x = a \<and> ad_tenant x = tenant)"
proof (cases "rcs = []")
  case True
  with assms show ?thesis by (auto simp: dispatch_def)
next
  case False
  let ?xs = "zip (map ids [0..<length rcs]) (map (\<lambda>rc. (rc, send_one platforms send jitter rc)) rcs)"
  let ?rep = "\<lparr>rep_alarm = a, rep_sent = 0, rep_failed = 0, rep_pruned = 0, rep_results = []\<rparr>"
  from assms False have "record_all tenant step now ?xs (?rep, db) = Inr (rep, db')"
    by (simp add: dispatch_def Let_def)
  from record_all_books [OF this]
  have "deliveries db' = deliveries db @ map (\<lambda>(i, rc, r). delivery_row i tenant a step now rc r) ?xs" by simp
  then show ?thesis by (fastforce simp: delivery_row_def)
qed

lemma notify_deliveries:
  "\<exists>rows. deliveries (notify env dw i db) = deliveries db @ rows \<and>
    (\<forall>x \<in> set rows. io_alarm i = Some (ad_alarm x) \<and> fo_push (io_outcome i) \<noteq> None \<and>
       ad_tenant x = id_tenant (ir_identity (io_result i)))"
proof (cases "en_notifier env = None \<or> fo_push (io_outcome i) = None \<or> io_alarm i = None")
  case True
  then have "notify env dw i db = db" by (auto simp: notify_def split: option.splits)
  then show ?thesis by simp
next
  case False
  then obtain platforms send p a where some: "en_notifier env = Some (platforms, send)"
    "fo_push (io_outcome i) = Some p" "io_alarm i = Some a" by auto
  define tenant where "tenant = id_tenant (ir_identity (io_result i))"
  define d where "d = dispatch platforms send (dw_jitter dw) (dw_deliveries dw) (dw_now dw) a tenant
    (recipients_for_site (push_devices db) (en_users env) tenant) 0 db"
  have n: "notify env dw i db = (case d of Inl _ \<Rightarrow> db | Inr (rep, db') \<Rightarrow> if dw_push_commits dw then db' else db)"
    by (simp add: notify_def some Let_def d_def tenant_def)
  show ?thesis
  proof (cases "\<exists>rep db'. d = Inr (rep, db') \<and> dw_push_commits dw")
    case True
    then obtain rep db' where d: "d = Inr (rep, db')" "notify env dw i db = db'" using n by auto
    from dispatch_deliveries [OF d(1) [unfolded d_def]] d(2) some show ?thesis by (auto simp: tenant_def)
  next
    case False
    then have "notify env dw i db = db" using n by (auto split: sum.splits)
    then show ?thesis by simp
  qed
qed

text \<open>What was decided before the message could be looked up for this retry.\<close>

lemma process_looks_up:
  assumes "\<not> ir_blocked r" and "ir_event r = Some e"
    and "\<not> suppressed (should_suppress (ie_type e) (uuid_text (ie_site e)) (uuid_text (ie_device e)) outages)"
  shows "snd (process zones r ctx outages ai now dr w) =
    snd (check w (dedup_key e) (case now of Some t \<Rightarrow> t | None \<Rightarrow> ie_received e) None)"
  using assms by (auto simp: process_def Let_def case_prod_unfold)

lemma process_repeat:
  assumes "\<not> ir_blocked r" and "ir_event r = Some e"
    and "is_duplicate (fst (check w (dedup_key e) (ie_received e) None))"
  shows "\<exists>f. fst (process zones r ctx outages ai None dr w) = Inr f \<and> fo_stage f \<noteq> STAGE_ALARMED \<and>
    fo_persist f \<and> fo_decision f = None \<and> fo_push f = None"
  using assms by (auto simp: process_def Let_def case_prod_unfold stopped_at_def)

lemma check_again:
  assumes "\<not> is_duplicate (fst (check w k t None))" and "window_seconds w = 60" and "t' < t + minute"
  shows "is_duplicate (fst (check (snd (check w k t None)) k t' None))"
  using assms by (auto simp: check_def Let_def effective_window_def seconds_def split: option.splits if_splits)

lemma no_alarm_row:
  assumes "persist_flow r f keys event dr now db = Inr (p, db')" and "fo_decision f = None"
  shows "fd_alarms db' = fd_alarms db \<and> pf_alarm p = None"
  using assms(1)
proof (cases rule: persist_flow_cases)
  case (delivery mid db1)
  with record_message_tables(4) [OF delivery(1)] show ?thesis by simp
next
  case (event mid db1 e eid cam media aid)
  have "aid = None \<and> fd_alarms db' = fd_alarms db1" using event(8) assms(2) by (auto simp: store_alarm_def)
  with event(11) record_message_tables(4) [OF event(1)] show ?thesis by simp
qed

section \<open>Properties\<close>

text \<open>
  C1. Rows before push, and all or nothing.  A message that is answered with an error has
  changed no table, told no app and notified nobody.  Otherwise the tables stay consistent
  and keep every alarm, and every notification recorded for a phone names an alarm of that
  tenant's recorder that is already stored and open.
\<close>

theorem rows_before_push:
  assumes "handle env r dw s = (x, s')" and "flow_db_wf (st_db s)"
    and "\<And>e. ir_event r = Some e \<Longrightarrow> ie_message_id e \<noteq> []"
  shows "(\<forall>e. x = Inl e \<longrightarrow> st_db s' = st_db s \<and> st_hub s' = st_hub s \<and> st_push s' = st_push s) \<and>
    flow_db_wf (st_db s') \<and> set (fd_alarms (st_db s)) \<subseteq> set (fd_alarms (st_db s')) \<and>
    (\<exists>rows. deliveries (st_push s') = deliveries (st_push s) @ rows \<and>
      (\<forall>n \<in> set rows. ad_tenant n = id_tenant (ir_identity r) \<and>
        (\<exists>a \<in> set (fd_alarms (st_db s')). al_id a = ad_alarm n \<and> al_status a = ''ALERTED'')))"
  using assms(1)
proof (cases rule: handle_cases)
  case (stored ctx f w event keys store p db i)
  note b = persist_flow_books [OF assms(2) stored(5) assms(3)]
  obtain rows where n: "deliveries (st_push s') = deliveries (st_push s) @ rows"
    "\<forall>m \<in> set rows. io_alarm i = Some (ad_alarm m) \<and> ad_tenant m = id_tenant (ir_identity r)"
    using notify_deliveries [of env dw i "st_push s"] stored(8,11) by auto
  have "\<exists>a \<in> set (fd_alarms db). al_id a = ad_alarm m \<and> al_status a = ''ALERTED''" if "m \<in> set rows" for m
    using n(2) that stored(10) b by force
  with n b stored(6,11) show ?thesis by auto
qed (use assms(2) in auto)

lemma handled_repeat:
  assumes "handle env r dw s = (Inr i, s')" and "\<not> ir_blocked r" and "ir_event r = Some e"
    and "is_duplicate (fst (check (st_dedup s) (dedup_key e) (ie_received e) None))"
  shows "\<not> io_alarmed i \<and> io_alarm i = None \<and> fd_alarms (st_db s') = fd_alarms (st_db s) \<and>
    deliveries (st_push s') = deliveries (st_push s)"
  using assms(1)
proof (cases rule: handle_cases)
  case (stored ctx f w event keys store p db j)
  have f: "fo_stage f \<noteq> STAGE_ALARMED" "fo_decision f = None" "fo_push f = None"
    using process_repeat [OF assms(2-4), of "en_zones env" ctx "st_outages s" None "dw_flow dw"] stored(2)
    by simp_all
  have a: "fd_alarms db = fd_alarms (st_db s)" "pf_alarm p = None"
    using no_alarm_row [OF stored(5) f(2)] by simp_all
  obtain rows where "deliveries (st_push s') = deliveries (st_push s) @ rows" "\<forall>x \<in> set rows. io_alarm i = Some (ad_alarm x)"
    using notify_deliveries [of env dw i "st_push s"] stored(6,11) by auto
  moreover have "io_alarm i = None" using stored(6,10) a by simp
  ultimately have "deliveries (st_push s') = deliveries (st_push s)" by (cases rows) auto
  with a f stored(6,7,10,11) show ?thesis by (simp add: io_alarmed_def alarmed_def)
qed auto

text \<open>
  C38. The dedup window moves before the rows are committed.  When the flow or the database
  fails, the recorder is asked to send the alarm again; if it does so within the minute, the
  retry is folded into the window its own failed attempt opened: it is answered as accepted,
  but no alarm is ever stored and nobody is notified.
\<close>

theorem retry_after_failure_loses_alarm:
  assumes "handle env r dw s = (Inl err, s1)" and "\<nexists>l. err = Load_failed l"
    and "\<not> ir_blocked r" and "ir_event r = Some e" and "window_seconds (st_dedup s) = 60"
    and "\<not> suppressed (should_suppress (ie_type e) (uuid_text (ie_site e)) (uuid_text (ie_device e)) (st_outages s))"
    and "\<not> is_duplicate (fst (check (st_dedup s) (dedup_key e) (ie_received e) None))"
    and "handle env r' dw' s1 = (Inr i, s2)" and "\<not> ir_blocked r'" and "ir_event r' = Some e'"
    and "dedup_key e' = dedup_key e" and "ie_received e' < ie_received e + minute"
  shows "\<not> io_alarmed i \<and> io_alarm i = None \<and> fd_alarms (st_db s2) = fd_alarms (st_db s) \<and>
    deliveries (st_push s2) = deliveries (st_push s)"
proof -
  have w: "st_dedup s1 = snd (check (st_dedup s) (dedup_key e) (ie_received e) None) \<and>
      st_db s1 = st_db s \<and> st_push s1 = st_push s"
    using assms(1)
  proof (cases rule: handle_cases)
    case (raised ctx x w)
    with process_looks_up [OF assms(3,4,6), of "en_zones env" ctx None None "dw_flow dw" "st_dedup s"]
    show ?thesis by simp
  next
    case (failed ctx f w store x)
    with process_looks_up [OF assms(3,4,6), of "en_zones env" ctx None None "dw_flow dw" "st_dedup s"]
    show ?thesis by simp
  qed (use assms(2) in auto)
  then have "is_duplicate (fst (check (st_dedup s1) (dedup_key e') (ie_received e') None))"
    using check_again [OF assms(7,5,12)] assms(11) by simp
  from handled_repeat [OF assms(8,9,10) this] w show ?thesis by simp
qed

text \<open>
  A message that is already known, by its Message-ID alone, stores no event and no alarm and
  notifies nobody, whichever recorder or tenant the known event came from.
\<close>

theorem known_message_raises_nothing:
  assumes "handle env r dw s = (Inr i, s')" and "ir_event r = Some e" and "\<not> ir_blocked r"
    and "existing_event_id (fd_events (st_db s)) (ie_message_id e) = Some u"
  shows "io_alarm i = None \<and> fd_events (st_db s') = fd_events (st_db s) \<and>
    fd_alarms (st_db s') = fd_alarms (st_db s) \<and> deliveries (st_push s') = deliveries (st_push s)"
  using assms(1)
proof (cases rule: handle_cases)
  case (stored ctx f w event keys store p db j)
  have p: "pf_alarm p = None \<and> fd_events db = fd_events (st_db s) \<and> fd_alarms db = fd_alarms (st_db s)"
    using stored(5)
  proof (cases rule: persist_flow_cases)
    case (delivery mid db1)
    with record_message_tables [OF delivery(1)] show ?thesis by simp
  next
    case (event mid db1 e1 eid cam media aid)
    with assms(2,4) show ?thesis by simp
  qed
  obtain rows where "deliveries (st_push s') = deliveries (st_push s) @ rows" "\<forall>x \<in> set rows. io_alarm i = Some (ad_alarm x)"
    using notify_deliveries [of env dw i "st_push s"] stored(6,11) by auto
  with p stored(6,10,11) show ?thesis by (cases rows) auto
qed auto

section \<open>Two pictures in one mail\<close>

definition storable :: "object_store \<Rightarrow> string \<Rightarrow> ingested_media \<Rightarrow> bool" where
  "storable s key m \<longleftrightarrow> (\<exists>ty. media_validate (media_content m) ''snapshot'' = Inr ty) \<and> accepts s key (media_content m)"

lemma put_storable:
  assumes "key = build_key tenant site event ''snapshot'' t"
  shows "if storable s key m
    then \<exists>st s'. put dg (media_content m) tenant site event ''snapshot'' t pl s = (Inr st, s') \<and> stored_key st = key \<and>
      accepts s' = accepts s
    else \<exists>x. put dg (media_content m) tenant site event ''snapshot'' t pl s = (Inl x, s)"
proof (cases "media_validate (media_content m) ''snapshot''")
  case (Inl x)
  then show ?thesis by (simp add: put_def storable_def)
next
  case (Inr ty)
  with assms show ?thesis by (simp add: put_def storable_def Let_def)
qed

lemma upload_all_keys:
  assumes "upload_all dg i event t ms keys s = (keys', s')"
    and "key = build_key (id_tenant i) (id_site i) event ''snapshot'' t"
    and "\<forall>d k. map_of keys d = Some k \<longrightarrow> k = key"
  shows "(\<forall>d k. map_of keys' d = Some k \<longrightarrow> k = key) \<and>
    (\<forall>d. map_of keys d = Some key \<longrightarrow> map_of keys' d = Some key) \<and>
    (\<forall>m \<in> set ms. storable s key m \<longrightarrow> map_of keys' (media_digest m) = Some key)"
  using assms(1,3)
proof (induction ms arbitrary: keys s)
  case Nil
  have k: "keys' = keys" using Nil(1) by (simp only: upload_all.simps prod.inject)
  show ?case unfolding k by (intro conjI Nil(2)) simp_all
next
  case (Cons m ms)
  show ?case
  proof (cases "storable s key m")
    case True
    then obtain st s1 where p: "put dg (media_content m) (id_tenant i) (id_site i) event ''snapshot'' t ''business'' s = (Inr st, s1)"
      "stored_key st = key" "accepts s1 = accepts s"
      using put_storable [OF assms(2), of s m dg "''business''"] by auto
    then have "upload_all dg i event t ms (dict_set (media_digest m) key keys) s1 = (keys', s')"
      using Cons.prems(1) by simp
    note IH = Cons.IH [OF this]
    have v: "\<forall>d k. map_of (dict_set (media_digest m) key keys) d = Some k \<longrightarrow> k = key"
      using Cons.prems(2) by simp
    have st: "storable s1 key = storable s key" by (rule ext) (simp add: storable_def p(3))
    note IH' = IH [OF v, unfolded st]
    have all: "\<forall>d k. map_of keys' d = Some k \<longrightarrow> k = key" by (rule conjunct1 [OF IH'])
    have kept: "\<And>d. map_of (dict_set (media_digest m) key keys) d = Some key \<Longrightarrow> map_of keys' d = Some key"
      using conjunct1 [OF conjunct2 [OF IH']] by blast
    have rest: "\<forall>m \<in> set ms. storable s key m \<longrightarrow> map_of keys' (media_digest m) = Some key"
      by (rule conjunct2 [OF conjunct2 [OF IH']])
    have new: "map_of keys' (media_digest m) = Some key" by (rule kept) simp
    have "\<forall>d. map_of keys d = Some key \<longrightarrow> map_of keys' d = Some key" using kept by simp
    moreover have "\<forall>q \<in> set (m # ms). storable s key q \<longrightarrow> map_of keys' (media_digest q) = Some key"
      using rest new unfolding set_simps(2) by blast
    ultimately show ?thesis using all by blast
  next
    case False
    then obtain x where "put dg (media_content m) (id_tenant i) (id_site i) event ''snapshot'' t ''business'' s = (Inl x, s)"
      using put_storable [OF assms(2), of s m dg "''business''"] by auto
    with Cons.prems have "upload_all dg i event t ms keys s = (keys', s')" by simp
    from Cons.IH [OF this Cons.prems(2)] False show ?thesis by simp
  qed
qed

lemma insert_media_taken:
  assumes "\<forall>d k. map_of keys d = Some k \<longrightarrow> k = key" and "key \<in> ma_key ` set rows"
    and "m \<in> set ms" and "map_of keys (media_digest m) = Some key"
  shows "\<exists>x. insert_media tenant eid keys ids n ms rows = Inl x"
  using assms(2,3)
proof (induction ms arbitrary: n rows)
  case (Cons a ms)
  show ?case
  proof (cases "map_of keys (media_digest a)")
    case None
    with Cons assms(4) show ?thesis by auto
  next
    case (Some k)
    with assms(1) Cons.prems(1) show ?thesis by auto
  qed
qed simp

lemma insert_media_twice:
  assumes "\<forall>d k. map_of keys d = Some k \<longrightarrow> k = key"
    and "map_of keys (media_digest a) = Some key" and "map_of keys (media_digest b) = Some key"
  shows "\<exists>x. insert_media tenant eid keys ids n (xs @ a # ys @ b # zs) rows = Inl x"
proof (induction xs arbitrary: n rows)
  case Nil
  show ?case
  proof (cases "key \<in> ma_key ` set rows")
    case True
    with assms(2) show ?thesis by simp
  next
    case False
    let ?row = "\<lparr>ma_id = ids n, ma_tenant = tenant, ma_event = eid, ma_key = key,
      ma_type = media_type a, ma_size = length (media_content a), ma_digest = media_digest a\<rparr>"
    obtain x where "insert_media tenant eid keys ids (Suc n) (ys @ b # zs) (rows @ [?row]) = Inl x"
      using insert_media_taken [OF assms(1) _ _ assms(3), where rows = "rows @ [?row]" and ms = "ys @ b # zs"
        and tenant = tenant and eid = eid and ids = ids and n = "Suc n"] by auto
    with False assms(2) show ?thesis by simp
  qed
next
  case (Cons c xs)
  show ?case
  proof (cases "map_of keys (media_digest c)")
    case None
    with Cons show ?thesis by simp
  next
    case (Some k)
    obtain x where "insert_media tenant eid keys ids (Suc n) (xs @ a # ys @ b # zs) (rows @
      [\<lparr>ma_id = ids n, ma_tenant = tenant, ma_event = eid, ma_key = k,
        ma_type = media_type c, ma_size = length (media_content c), ma_digest = media_digest c\<rparr>]) = Inl x"
      using Cons by blast
    with Some show ?thesis by simp
  qed
qed

lemma process_persists:
  "process zones r ctx outages ai now dr w = (Inr f, w') \<Longrightarrow> \<not> ir_blocked r \<Longrightarrow> ir_event r = Some e \<Longrightarrow> fo_persist f"
  by (auto simp: process_def Let_def case_prod_unfold dest: decide_stage split: if_splits)

text \<open>
  The object key names the event and the kind only, and storage keys are unique: a mail with
  two pictures that both pass validation and are both accepted by the store is refused,
  whatever the flow decided, and stores nothing.  Sending it again meets the same end.
\<close>

theorem two_pictures_never_stored:
  assumes "ir_event r = Some e" and "\<not> ir_blocked r" and "ir_media r = xs @ a # ys @ b # zs" and "en_media env"
    and "key = build_key (id_tenant (ir_identity r)) (id_site (ir_identity r)) (dw_event dw) ''snapshot'' (ie_received e)"
    and "storable (st_store s) key a" and "storable (st_store s) key b"
    and "existing_event_id (fd_events (st_db s)) (ie_message_id e) = None"
    and "lookup_row device_id (id_device (ir_identity r)) (devices (en_sites env)) = Some d"
    and "lookup_row site_id (device_site d) (sites (en_sites env)) = Some st"
  shows "\<exists>x. fst (handle env r dw s) = Inl x \<and> st_db (snd (handle env r dw s)) = st_db s"
proof -
  obtain x s' where h: "handle env r dw s = (x, s')" by (cases "handle env r dw s")
  from h show ?thesis
  proof (cases rule: handle_cases)
    case (gone i)
    have "load_site_context (en_zones env) (en_sites env) (fd_silence (st_db s)) (id_device (ir_identity r)) \<noteq> Inr None"
      using assms(9,10) by (auto simp: load_site_context_def bind_err_Inr_iff)
    with gone(7) show ?thesis by simp
  next
    case (stored ctx f w event keys store p db j)
    have "known_event r f (st_db s) = None" using assms(1,8) by (simp add: known_event_def)
    with stored(3) assms(1-4) process_persists [OF stored(2) assms(2,1)]
    have up: "upload_all (en_digest env) (ir_identity r) (dw_event dw) (ie_received e) (ir_media r) [] (st_store s) = (keys, store)"
      by (auto simp: uploaded_def upload_def split: prod.splits)
    note k = upload_all_keys [OF up assms(5)]
    have "\<exists>x. insert_media tn eid keys ids n (ir_media r) rows = Inl x" for tn eid ids n rows
      unfolding assms(3) by (rule insert_media_twice [where key = key]) (use k assms(3,6,7) in auto)
    then have no: "insert_media tn eid keys ids n (ir_media r) rows \<noteq> Inr y" for tn eid ids n rows y
      by (metis sum.distinct(1))
    from stored(5) have False
    proof (cases rule: persist_flow_cases)
      case (delivery mid db1)
      with assms(1,2,8) process_persists [OF stored(2) assms(2,1)] show False by auto
    next
      case (event mid db1 e1 eid cam media aid)
      with no show False by blast
    qed
    then show ?thesis ..
  qed (use h in auto)
qed

section \<open>A night at the depot\<close>

definition depot_env :: intake_env where
  "depot_env = \<lparr>en_zones = utc3,
     en_sites = night_tables\<lparr>sites := [\<lparr>site_id = 7, site_tenant = 1, site_name = ''Depo'', site_tz = istanbul, site_armed = True\<rparr>],
       devices := [\<lparr>device_id = 11, device_tenant = 1, device_site = 7, device_profile = None\<rparr>], cameras := [], rule_rows := []\<rparr>,
     en_users = [], en_digest = (\<lambda>c. c), en_isof = (\<lambda>_. ''2025-01-01''), en_media = True, en_notifier = None\<rparr>"

definition depot_draw :: "bool \<Rightarrow> intake_draw" where
  "depot_draw ok = \<lparr>dw_flow = night_draw, dw_rows = night_rows, dw_event = 33, dw_now = 20 * hour,
     dw_commits = ok, dw_jitter = (\<lambda>_. 0), dw_deliveries = (\<lambda>n. 60 + n), dw_push_commits = True\<rparr>"

definition depot_state :: intake_state where
  "depot_state = \<lparr>st_dedup = new_dedup, st_outages = no_outages,
     st_store = \<lparr>objects = Map.empty, accepts = (\<lambda>_ _. True)\<rparr>, st_hub = [], st_db = empty_flow_db,
     st_push = \<lparr>push_devices = [], deliveries = []\<rparr>\<rparr>"

definition depot_context :: site_context where
  "depot_context = \<lparr>sc_name = ''Depo'', sc_timezone = istanbul, sc_rules = [], sc_cameras = Map.empty,
     sc_zones = (\<lambda>_. None), sc_device_silent = False, sc_tampered = {}\<rparr>"

lemma depot_loads:
  "load_site_context utc3 (en_sites depot_env) [] 11 = Inr (Some depot_context)"
proof -
  have "zones_of_camera (en_sites depot_env) 11 = (\<lambda>_. None)"
    by (rule ext) (simp add: zones_of_camera_def depot_env_def device_cameras_def night_tables_def List.map_filter_def)
  then show ?thesis
    by (simp add: load_site_context_def depot_env_def depot_context_def night_tables_def lookup_row_def
        site_rules_def device_cameras_def)
qed

definition depot_quiet :: flow_outcome where
  "depot_quiet = stopped_at STAGE_NO_RULE_MATCH (Explained [No_rules])\<lparr>fo_event_status := Some NEW, fo_persist := True,
     fo_decision := Some (no_match No_rules [])\<rparr>"

definition depot_folded :: flow_outcome where
  "depot_folded = stopped_at STAGE_DUPLICATE (Folded_into (20 * hour) 2)\<lparr>fo_event_status := Some SUPPRESSED,
     fo_persist := True, fo_count := 2\<rparr>"

lemma depot_uncovered:
  "\<not> suppressed (should_suppress (ie_type night_event) (uuid_text (ie_site night_event))
     (uuid_text (ie_device night_event)) no_outages)"
  using night_not_covered by (simp add: night_event_def)

lemma depot_process:
  "process utc3 night_result depot_context no_outages None None night_draw new_dedup =
    (Inr depot_quiet, snd (check new_dedup (dedup_key night_event) (20 * hour) None))"
proof -
  have "ie_received night_event = 20 * hour" "ie_channel night_event = Some 1" by (simp_all add: night_event_def)
  with depot_uncovered show ?thesis
    by (simp add: process_def night_result_def Let_def case_prod_unfold check_fresh new_dedup_def decide_def
        resolve_camera_def depot_context_def evaluate_all_def depot_quiet_def stopped_at_def no_match_def)
qed

lemma depot_process_again:
  assumes "w = snd (check new_dedup (dedup_key night_event) (20 * hour) None)"
  shows "fst (process utc3 night_result depot_context no_outages None None night_draw w) = Inr depot_folded"
proof -
  have "ie_received night_event = 20 * hour" "ie_channel night_event = Some 1" by (simp_all add: night_event_def)
  with depot_uncovered show ?thesis
    by (simp add: process_def night_result_def Let_def case_prod_unfold assms check_def new_dedup_def
        effective_window_def default_window_seconds_def seconds_def resolve_camera_def depot_context_def
        depot_folded_def stopped_at_def)
qed

lemma depot_identity [simp]: "ir_identity night_result = recorder_identity" "id_device recorder_identity = 11"
  "id_tenant recorder_identity = 1" "id_site recorder_identity = 7"
  "ir_event night_result = Some night_event" "ir_blocked night_result = False" "ir_media night_result = []"
  by (simp_all add: night_result_def recorder_identity_def)

lemma depot_persists:
  assumes "f \<in> {depot_quiet, depot_folded}"
  shows "\<exists>p db. persist_flow night_result f [] (Some 33) night_rows (20 * hour) empty_flow_db = Inr (p, db)"
  using assms by (auto simp: persist_flow_def Let_def empty_flow_db_def record_message_def lookup_row_def
      depot_quiet_def depot_folded_def stopped_at_def existing_event_id_def camera_uuid_def case_prod_unfold)

lemma depot_uploads: "fo_persist f \<Longrightarrow> uploaded depot_env night_result (depot_draw ok) f depot_state = (Some 33, [], st_store depot_state)"
  by (simp add: uploaded_def known_event_def depot_state_def empty_flow_db_def existing_event_id_def lookup_row_def
      upload_def depot_draw_def)

definition depot_window :: dedup_window where
  "depot_window = snd (check new_dedup (dedup_key night_event) (20 * hour) None)"

lemma depot_uploads_again:
  "fo_persist f \<Longrightarrow> uploaded depot_env night_result (depot_draw ok) f (depot_state\<lparr>st_dedup := w\<rparr>) =
    (Some 33, [], st_store depot_state)"
  by (simp add: uploaded_def known_event_def depot_state_def empty_flow_db_def existing_event_id_def lookup_row_def
      upload_def depot_draw_def)

lemma depot_fails:
  "handle depot_env night_result (depot_draw False) depot_state =
    (Inl Commit_failed, depot_state\<lparr>st_dedup := depot_window\<rparr>)"
proof -
  obtain p db where p: "persist_flow night_result depot_quiet [] (Some 33) night_rows (20 * hour) empty_flow_db = Inr (p, db)"
    using depot_persists by blast
  have u: "uploaded depot_env night_result (depot_draw False) depot_quiet depot_state = (Some 33, [], st_store depot_state)"
    by (rule depot_uploads) (simp add: depot_quiet_def)
  have l: "load_site_context (en_zones depot_env) (en_sites depot_env) (fd_silence (st_db depot_state))
      (id_device (ir_identity night_result)) = Inr (Some depot_context)"
    using depot_loads by (simp add: depot_state_def empty_flow_db_def) (simp add: depot_env_def)
  have pr: "process (en_zones depot_env) night_result depot_context (st_outages depot_state) None None
      (dw_flow (depot_draw False)) (st_dedup depot_state) = (Inr depot_quiet, depot_window)"
    using depot_process by (simp add: depot_env_def depot_state_def depot_draw_def depot_window_def)
  have "persist_flow night_result depot_quiet [] (Some 33) (dw_rows (depot_draw False)) (dw_now (depot_draw False))
      (st_db depot_state) = Inr (p, db)" and "\<not> dw_commits (depot_draw False)"
    using p by (simp_all add: depot_draw_def depot_state_def)
  then show ?thesis unfolding handle_flow [OF l pr u] by (simp add: Let_def)
qed

lemma depot_accepts:
  assumes "(w, f) \<in> {(new_dedup, depot_quiet), (depot_window, depot_folded)}"
  shows "\<exists>i s2. handle depot_env night_result (depot_draw True) (depot_state\<lparr>st_dedup := w\<rparr>) = (Inr i, s2)"
proof -
  have f: "f \<in> {depot_quiet, depot_folded}" "fo_persist f" using assms by (auto simp: depot_quiet_def depot_folded_def)
  obtain p db where p: "persist_flow night_result f [] (Some 33) night_rows (20 * hour) empty_flow_db = Inr (p, db)"
    using depot_persists [OF f(1)] by blast
  note u = depot_uploads_again [OF f(2), of True w]
  have l: "load_site_context (en_zones depot_env) (en_sites depot_env)
      (fd_silence (st_db (depot_state\<lparr>st_dedup := w\<rparr>))) (id_device (ir_identity night_result)) = Inr (Some depot_context)"
    using depot_loads by (simp add: depot_state_def empty_flow_db_def) (simp add: depot_env_def)
  have "fst (process utc3 night_result depot_context no_outages None None night_draw w) = Inr f"
    using assms depot_process depot_process_again [OF depot_window_def] by auto
  then obtain w' where pr: "process (en_zones depot_env) night_result depot_context (st_outages (depot_state\<lparr>st_dedup := w\<rparr>))
      None None (dw_flow (depot_draw True)) (st_dedup (depot_state\<lparr>st_dedup := w\<rparr>)) = (Inr f, w')"
    by (cases "process utc3 night_result depot_context no_outages None None night_draw w")
      (auto simp: depot_env_def depot_state_def depot_draw_def)
  have c: "dw_commits (depot_draw True)" by (simp add: depot_draw_def)
  have "persist_flow night_result f [] (Some 33) (dw_rows (depot_draw True)) (dw_now (depot_draw True))
      (st_db (depot_state\<lparr>st_dedup := w\<rparr>)) = Inr (p, db)"
    using p by (simp add: depot_draw_def depot_state_def)
  with c show ?thesis unfolding handle_flow [OF l pr u] by (simp add: Let_def)
qed

theorem rows_before_push_witness:
  "\<exists>i s'. handle depot_env night_result (depot_draw True) depot_state = (Inr i, s') \<and> flow_db_wf (st_db s')"
proof -
  have d: "depot_state\<lparr>st_dedup := new_dedup\<rparr> = depot_state" by (simp add: depot_state_def)
  obtain i s' where h: "handle depot_env night_result (depot_draw True) depot_state = (Inr i, s')"
    using depot_accepts [of new_dedup depot_quiet] unfolding d by auto
  have wf: "flow_db_wf (st_db depot_state)" by (simp add: depot_state_def empty_flow_db_def flow_db_wf_def)
  have n: "ir_event night_result = Some e \<Longrightarrow> ie_message_id e \<noteq> []" for e
    by (auto simp: night_event_def)
  from rows_before_push [OF h wf n] h show ?thesis by blast
qed

theorem retry_after_failure_loses_alarm_witness:
  "\<exists>i s2. handle depot_env night_result (depot_draw True)
      (snd (handle depot_env night_result (depot_draw False) depot_state)) = (Inr i, s2) \<and>
    \<not> io_alarmed i \<and> io_alarm i = None"
proof -
  obtain i s2 where h: "handle depot_env night_result (depot_draw True) (depot_state\<lparr>st_dedup := depot_window\<rparr>) = (Inr i, s2)"
    using depot_accepts [of depot_window depot_folded] by auto
  have d: "\<not> is_duplicate (fst (check (st_dedup depot_state) (dedup_key night_event) (ie_received night_event) None))"
    by (simp add: depot_state_def check_fresh new_dedup_def)
  have w: "window_seconds (st_dedup depot_state) = 60"
    by (simp add: depot_state_def new_dedup_def default_window_seconds_def)
  have s: "\<not> suppressed (should_suppress (ie_type night_event) (uuid_text (ie_site night_event))
      (uuid_text (ie_device night_event)) (st_outages depot_state))"
    using depot_uncovered by (simp add: depot_state_def)
  have "\<not> io_alarmed i \<and> io_alarm i = None"
    using retry_after_failure_loses_alarm [OF depot_fails _ _ _ w s d h _ _ refl] by simp
  with h depot_fails show ?thesis by auto
qed

text \<open>The same Message-ID, already stored for a recorder of another tenant.\<close>

definition foreign_db :: flow_db where
  "foreign_db = empty_flow_db\<lparr>fd_events := [(event_row_of night_result night_event depot_quiet 70 None)\<lparr>ev_tenant := 99\<rparr>]\<rparr>"

lemma foreign_known: "existing_event_id (fd_events foreign_db) (ie_message_id night_event) = Some 70"
  by (simp add: foreign_db_def existing_event_id_def lookup_row_def) (simp add: night_event_def)

theorem known_message_raises_nothing_witness:
  "\<exists>i s'. handle depot_env night_result (depot_draw True) (depot_state\<lparr>st_db := foreign_db\<rparr>) = (Inr i, s') \<and>
    io_alarm i = None \<and> fd_events (st_db s') = fd_events foreign_db"
proof -
  let ?s = "depot_state\<lparr>st_db := foreign_db\<rparr>"
  have l: "load_site_context (en_zones depot_env) (en_sites depot_env) (fd_silence (st_db ?s))
      (id_device (ir_identity night_result)) = Inr (Some depot_context)"
    using depot_loads by (simp add: foreign_db_def empty_flow_db_def) (simp add: depot_env_def)
  have pr: "process (en_zones depot_env) night_result depot_context (st_outages ?s) None None
      (dw_flow (depot_draw True)) (st_dedup ?s) = (Inr depot_quiet, depot_window)"
    using depot_process by (simp add: depot_env_def depot_state_def depot_draw_def depot_window_def)
  have u: "uploaded depot_env night_result (depot_draw True) depot_quiet ?s = (Some 70, [], st_store depot_state)"
    using foreign_known by (simp add: uploaded_def known_event_def depot_quiet_def)
  have "\<exists>p db. persist_flow night_result depot_quiet [] (Some 70) (dw_rows (depot_draw True)) (dw_now (depot_draw True))
      (st_db ?s) = Inr (p, db)"
    using foreign_known
    by (simp add: persist_flow_def Let_def record_message_def lookup_row_def foreign_db_def empty_flow_db_def depot_quiet_def)
  moreover have "dw_commits (depot_draw True)" by (simp add: depot_draw_def)
  ultimately obtain i s' where h: "handle depot_env night_result (depot_draw True) ?s = (Inr i, s')"
    unfolding handle_flow [OF l pr u] by (auto simp: Let_def)
  have k: "existing_event_id (fd_events (st_db ?s)) (ie_message_id night_event) = Some 70"
    using foreign_known by simp
  have "io_alarm i = None \<and> fd_events (st_db s') = fd_events (st_db ?s)"
    using known_message_raises_nothing [OF h _ _ k] by simp
  with h show ?thesis by simp
qed

definition picture :: ingested_media where
  "picture = \<lparr>media_filename = None, media_type = ''image/jpeg'',
     media_content = jpeg_magic @ replicate 1021 (CHR ''.''), media_digest = ''d''\<rparr>"

theorem two_pictures_never_stored_witness:
  "\<exists>x. fst (handle depot_env (night_result\<lparr>ir_media := [picture, picture]\<rparr>) (depot_draw True) depot_state) = Inl x"
proof -
  let ?r = "night_result\<lparr>ir_media := [picture, picture]\<rparr>"
  have "media_validate (media_content picture) ''snapshot'' = Inr ''image/jpeg''"
    by (simp add: media_validate_def picture_def jpeg_magic_def max_object_bytes_def min_jpeg_bytes_def)
  then have p: "storable (st_store depot_state) k picture" for k by (simp add: storable_def depot_state_def)
  have n: "existing_event_id (fd_events (st_db depot_state)) (ie_message_id night_event) = None"
    by (simp add: depot_state_def empty_flow_db_def existing_event_id_def lookup_row_def)
  have m: "ir_media ?r = [] @ picture # [] @ picture # []" by simp
  have "ir_event ?r = Some night_event" "\<not> ir_blocked ?r" "en_media depot_env"
    by (simp_all add: depot_env_def)
  moreover have "lookup_row device_id (id_device (ir_identity ?r)) (devices (en_sites depot_env)) =
      Some \<lparr>device_id = 11, device_tenant = 1, device_site = 7, device_profile = None\<rparr>"
    by (simp add: depot_env_def lookup_row_def)
  moreover have "lookup_row site_id (device_site \<lparr>device_id = 11, device_tenant = 1, device_site = 7, device_profile = None\<rparr>)
      (sites (en_sites depot_env)) =
      Some \<lparr>site_id = 7, site_tenant = 1, site_name = ''Depo'', site_tz = istanbul, site_armed = True\<rparr>"
    by (simp add: depot_env_def lookup_row_def)
  ultimately show ?thesis
    using two_pictures_never_stored [OF _ _ m _ refl p p n] by blast
qed

end
