(* ===== verification/Smtp.thy ===== *)
theory Smtp
  imports Intake
begin

text \<open>
  The alarm mail server, \<^verbatim>\<open>backend/app/modules/ingest/smtp_server.py\<close>, and the
  credential snapshot its worker keeps, \<^verbatim>\<open>backend/app/workers/mail_ingest.py\<close>.  The
  sink that takes an accepted message is a function on a state of its own, as the handler
  takes any \<^verbatim>\<open>on_result\<close>; the worker's sink is the intake.
\<close>

section \<open>Credentials\<close>

datatype auth_error = Type_error

type_synonym verifier = "string \<Rightarrow> string \<Rightarrow> auth_error + bool"

text \<open>
  \<^verbatim>\<open>hmac.compare_digest\<close> on text accepts ASCII only and raises otherwise.
\<close>

definition ascii :: "string \<Rightarrow> bool" where
  "ascii s \<longleftrightarrow> list_all (\<lambda>c. of_char c < (128 :: nat)) s"

definition constant_time_equals :: verifier where
  "constant_time_equals password secret =
    (if ascii password \<and> ascii secret then Inr (password = secret) else Inl Type_error)"

type_synonym account_store = "(string, device_identity \<times> string) dict"

definition replace_all :: "account_store \<Rightarrow> account_store \<Rightarrow> account_store" where
  "replace_all accts _ = accts"

definition authenticate :: "verifier \<Rightarrow> account_store \<Rightarrow> string \<Rightarrow> string \<Rightarrow> auth_error + device_identity option" where
  "authenticate verify store username password =
    (case map_of store username of
       None \<Rightarrow> bind_err (verify password ''$unused$'') (\<lambda>_. Inr None)
     | Some (i, secret) \<Rightarrow> bind_err (verify password secret) (\<lambda>ok. Inr (if ok then Some i else None)))"

datatype auth_value = No_value | Auth_bytes string | Auth_text string

text \<open>\<open>utf8\<close> is \<^verbatim>\<open>decode("utf-8", "replace")\<close>.\<close>

fun as_text :: "(string \<Rightarrow> string) \<Rightarrow> auth_value \<Rightarrow> string" where
  "as_text utf8 No_value = []"
| "as_text utf8 (Auth_bytes b) = utf8 b"
| "as_text utf8 (Auth_text s) = s"

datatype auth_request = Login_password auth_value auth_value | Other_mechanism

datatype auth_result = Auth_accepted device_identity | Auth_rejected

fun authenticator :: "verifier \<Rightarrow> (string \<Rightarrow> string) \<Rightarrow> account_store \<Rightarrow> auth_request \<Rightarrow> auth_error + auth_result" where
  "authenticator verify utf8 store Other_mechanism = Inr Auth_rejected"
| "authenticator verify utf8 store (Login_password u p) =
     bind_err (authenticate verify store (as_text utf8 u) (as_text utf8 p))
       (\<lambda>i. Inr (case i of None \<Rightarrow> Auth_rejected | Some d \<Rightarrow> Auth_accepted d))"

text \<open>
  The snapshot of \<^verbatim>\<open>load_accounts\<close>: every active account whose device row is there,
  a later row of the same name replacing an earlier one.
\<close>

definition account_entry :: "email_profile \<Rightarrow> site_tables \<Rightarrow> account_row \<Rightarrow> (string \<times> device_identity \<times> string) option" where
  "account_entry prof db a =
    (if \<not> ac_active a then None
     else case lookup_row device_id (ac_device a) (devices db) of
       None \<Rightarrow> None
     | Some d \<Rightarrow> Some (ac_username a, \<lparr>id_device = device_id d, id_tenant = device_tenant d,
         id_site = device_site d, id_username = ac_username a, id_profile = prof,
         id_capture = (case device_profile d of None \<Rightarrow> True | Some p \<Rightarrow> p \<notin> verified_profiles db)\<rparr>, ac_hash a))"

definition load_accounts :: "email_profile \<Rightarrow> site_tables \<Rightarrow> account_store" where
  "load_accounts prof db =
    fold (\<lambda>(u, e) d. dict_set u e d) (List.map_filter (account_entry prof db) (accounts db)) []"

text \<open>One turn of \<^verbatim>\<open>AccountRefresher.run\<close>; \<^const>\<open>None\<close> is a database that could not be read.\<close>

definition refresh_once :: "email_profile \<Rightarrow> site_tables \<Rightarrow> account_store \<Rightarrow> nat \<times> account_store" where
  "refresh_once prof db store = (let accts = load_accounts prof db in (length accts, replace_all accts store))"

fun refresher_turn :: "email_profile \<Rightarrow> site_tables option \<Rightarrow> account_store \<Rightarrow> account_store" where
  "refresher_turn prof None store = store"
| "refresher_turn prof (Some db) store = snd (refresh_once prof db store)"

section \<open>Messages\<close>

definition max_message_bytes :: int where
  "max_message_bytes = 16 * 1024 * 1024"

record 's mail_server =
  ms_limiter :: rate_limiter
  ms_sink :: 's

text \<open>
  \<open>sink_run r now s\<close> is the awaited sink: whether it returned, and its state.  \<open>breaks\<close> says
  on which bytes a library exception escapes \<^verbatim>\<open>ingest\<close>.
\<close>

record 's server_config =
  sc_mail :: mail_env
  sc_strptime :: time_parser
  sc_max_bytes :: int
  sc_breaks :: "string \<Rightarrow> bool"
  sc_sink :: "ingest_result \<Rightarrow> 's \<Rightarrow> bool \<times> 's"

definition handle_MAIL :: "device_identity option \<Rightarrow> string" where
  "handle_MAIL auth = (if auth = None then ''530 5.7.0 Authentication required'' else ''250 OK'')"

definition envelope_content :: "string option \<Rightarrow> string option \<Rightarrow> string" where
  "envelope_content original content =
    (if \<not> falsy_text original then the original else if \<not> falsy_text content then the content else [])"

definition handle_DATA :: "'s server_config \<Rightarrow> device_identity option \<Rightarrow> string \<Rightarrow> instant \<Rightarrow> 's mail_server
    \<Rightarrow> string \<times> 's mail_server" where
  "handle_DATA cfg auth raw now s =
    (case auth of
       None \<Rightarrow> (''530 5.7.0 Authentication required'', s)
     | Some i \<Rightarrow>
         if sc_max_bytes cfg < int (length raw) then (''552 5.3.4 Message too large'', s)
         else
           (case allow (ms_limiter s) (uuid_text (id_device i)) now of
              (False, l) \<Rightarrow> (''451 4.7.1 Rate limit exceeded, retry later'', s\<lparr>ms_limiter := l\<rparr>)
            | (True, l) \<Rightarrow>
                let s1 = s\<lparr>ms_limiter := l\<rparr>
                in if sc_breaks cfg raw then (''451 4.3.0 Temporary processing failure'', s1)
                   else case sc_sink cfg (ingest (sc_mail cfg) (sc_strptime cfg) raw i now) (ms_sink s1) of
                     (False, k) \<Rightarrow> (''451 4.3.0 Temporary storage failure'', s1\<lparr>ms_sink := k\<rparr>)
                   | (True, k) \<Rightarrow> (''250 Message accepted for delivery'', s1\<lparr>ms_sink := k\<rparr>)))"

text \<open>The sink the worker wires in: the intake, with what each message draws in advance.\<close>

definition intake_sink :: "intake_env \<Rightarrow> intake_draw \<Rightarrow> ingest_result \<Rightarrow> intake_state \<Rightarrow> bool \<times> intake_state" where
  "intake_sink env dw r s = (case handle env r dw s of
     (Inl _, s') \<Rightarrow> (False, s') | (Inr _, s') \<Rightarrow> (True, s'))"

section \<open>Lemmas\<close>










section \<open>Properties\<close>


text \<open>
  What an answer means.  The sink sees a message at most once, exactly when the connection
  is authenticated, the message is within the size limit, within the recorder's rate and
  readable; only then, and only if the sink returned, is it accepted.  Every refusal but the
  last leaves the sink untouched, and an oversized or unauthenticated message does not count
  against the rate.
\<close>

theorem accepted_iff_sunk:
  assumes "handle_DATA cfg auth raw now s = (code, s')"
  shows "(code = ''250 Message accepted for delivery'' \<longleftrightarrow> (\<exists>i. auth = Some i \<and> int (length raw) \<le> sc_max_bytes cfg \<and>
        fst (allow (ms_limiter s) (uuid_text (id_device i)) now) \<and> \<not> sc_breaks cfg raw \<and>
        sc_sink cfg (ingest (sc_mail cfg) (sc_strptime cfg) raw i now) (ms_sink s) = (True, ms_sink s'))) \<and>
    (ms_sink s' \<noteq> ms_sink s \<longrightarrow> code \<in> {''250 Message accepted for delivery'', ''451 4.3.0 Temporary storage failure''}) \<and>
    (ms_limiter s' \<noteq> ms_limiter s \<longrightarrow> auth \<noteq> None \<and> int (length raw) \<le> sc_max_bytes cfg)"
proof (cases auth)
  case None
  with assms show ?thesis by (auto simp: handle_DATA_def)
next
  case (Some i)
  show ?thesis
  proof (cases "sc_max_bytes cfg < int (length raw)")
    case True
    with Some assms show ?thesis by (auto simp: handle_DATA_def)
  next
    case False
    obtain ok l where l: "allow (ms_limiter s) (uuid_text (id_device i)) now = (ok, l)"
      by (cases "allow (ms_limiter s) (uuid_text (id_device i)) now")
    obtain went k where k: "sc_sink cfg (ingest (sc_mail cfg) (sc_strptime cfg) raw i now) (ms_sink s) = (went, k)"
      by (cases "sc_sink cfg (ingest (sc_mail cfg) (sc_strptime cfg) raw i now) (ms_sink s)")
    have size: "int (length raw) \<le> sc_max_bytes cfg" using False by simp
    consider "\<not> ok" | "ok" "sc_breaks cfg raw" | "ok" "\<not> sc_breaks cfg raw" "\<not> went" | "ok" "\<not> sc_breaks cfg raw" "went"
      by blast
    then show ?thesis
    proof cases
      case 1
      then have "code = ''451 4.7.1 Rate limit exceeded, retry later''" "ms_sink s' = ms_sink s"
        using Some False assms by (auto simp: handle_DATA_def l)
      then show ?thesis using 1 Some size by (simp add: l)
    next
      case 2
      then have "code = ''451 4.3.0 Temporary processing failure''" "ms_sink s' = ms_sink s"
        using Some False assms by (auto simp: handle_DATA_def l)
      then show ?thesis using 2 Some size by simp
    next
      case 3
      then have "code = ''451 4.3.0 Temporary storage failure''" "ms_sink s' = k"
        using Some False assms by (auto simp: handle_DATA_def l k)
      then show ?thesis using 3 Some size by (simp add: k)
    next
      case 4
      then have "code = ''250 Message accepted for delivery''" "ms_sink s' = k"
        using Some False assms by (auto simp: handle_DATA_def l k)
      then show ?thesis using 4 Some size by (simp add: k l)
    qed
  qed
qed



definition depot_server :: "bool \<Rightarrow> intake_state server_config" where
  "depot_server ok = \<lparr>sc_mail = plain_mail_env ''alarm'', sc_strptime = (\<lambda>_ _. None), sc_max_bytes = 10,
     sc_breaks = (\<lambda>_. False), sc_sink = intake_sink depot_env (depot_draw ok)\<rparr>"

theorem accepted_iff_sunk_witness:
  "handle_DATA (depot_server True) (Some recorder_identity) ''01234567890'' 0 \<lparr>ms_limiter = new_limiter, ms_sink = depot_state\<rparr> =
     (''552 5.3.4 Message too large'', \<lparr>ms_limiter = new_limiter, ms_sink = depot_state\<rparr>) \<and>
   (\<nexists>i. Some recorder_identity = Some i \<and> int (length ''01234567890'') \<le> sc_max_bytes (depot_server True))"
proof -
  let ?s = "\<lparr>ms_limiter = new_limiter, ms_sink = depot_state\<rparr>"
  have h: "handle_DATA (depot_server True) (Some recorder_identity) ''01234567890'' 0 ?s = (''552 5.3.4 Message too large'', ?s)"
    by (simp add: handle_DATA_def depot_server_def)
  have "sc_max_bytes (depot_server True) = 10" by (simp add: depot_server_def)
  with accepted_iff_sunk [OF h] h show ?thesis by simp
qed

lemma ingest_identity: "ir_identity (ingest env strptime raw i now) = i"
  by (simp add: ingest_def Let_def)

lemma ingest_message_id: "msg_id (ir_message (ingest env strptime raw i now)) = msg_id (parse_message env raw)"
  by (simp add: ingest_def Let_def stripped_def)

lemma accepted_mail_is_stored:
  assumes "handle_DATA cfg (Some i) raw now s = (''250 Message accepted for delivery'', s')"
    and "sc_sink cfg = intake_sink env dw"
    and "lookup_row device_id (id_device i) (devices (en_sites env)) = Some d"
    and "lookup_row site_id (device_site d) (sites (en_sites env)) = Some st"
  obtains f keys event p where "persist_flow (ingest (sc_mail cfg) (sc_strptime cfg) raw i now) f keys event (dw_rows dw)
    (dw_now dw) (st_db (ms_sink s)) = Inr (p, st_db (ms_sink s'))"
proof -
  let ?r = "ingest (sc_mail cfg) (sc_strptime cfg) raw i now"
  obtain x k where h: "handle env ?r dw (ms_sink s) = (x, k)" by (cases "handle env ?r dw (ms_sink s)")
  have "sc_sink cfg ?r (ms_sink s) = (True, ms_sink s')"
    using assms(1) by (auto simp: handle_DATA_def Let_def split: if_splits prod.splits bool.splits)
  with h assms(2) obtain y where x: "x = Inr y" "k = ms_sink s'"
    by (auto simp: intake_sink_def split: sum.splits)
  from h show thesis
  proof (cases rule: handle_cases)
    case (gone j)
    have "load_site_context (en_zones env) (en_sites env) (fd_silence (st_db (ms_sink s))) (id_device (ir_identity ?r)) \<noteq> Inr None"
      using assms(3,4) by (auto simp: load_site_context_def bind_err_Inr_iff ingest_identity)
    with gone(7) show thesis by simp
  next
    case (stored ctx f w event keys store p db j)
    have "st_db (ms_sink s') = db" by (simp add: x(2) [symmetric] stored(11))
    with stored(5) that show thesis by blast
  qed (use x in auto)
qed

text \<open>
  C11. Accepted means durable: when the mail server answers 250 to a recorder whose device and site
  exist, then, whatever the flow made of the mail, the committed tables have its delivery: one new
  row, with the message's own identifier and with the tenant, the device and the user name of the
  account that sent it, and the recorder's heartbeat set.  If a row with this identifier was there
  already, no row is added and none is changed; whose row that is is not looked at, so a mail whose
  identifier another tenant's mail had is answered 250 without a delivery row of its own.
\<close>

theorem accepted_mail_is_recorded:
  assumes "handle_DATA cfg (Some i) raw now s = (''250 Message accepted for delivery'', s')"
    and "sc_sink cfg = intake_sink env dw"
    and "lookup_row device_id (id_device i) (devices (en_sites env)) = Some d"
    and "lookup_row site_id (device_site d) (sites (en_sites env)) = Some st"
  shows "(lookup_row em_message_id (msg_id (parse_message (sc_mail cfg) raw)) (fd_messages (st_db (ms_sink s))) = None \<longrightarrow>
      (\<exists>row. fd_messages (st_db (ms_sink s')) = fd_messages (st_db (ms_sink s)) @ [row] \<and>
        em_message_id row = msg_id (parse_message (sc_mail cfg) raw) \<and> em_tenant row = id_tenant i \<and>
        em_device row = id_device i \<and> em_user row = id_username i)) \<and>
    (lookup_row em_message_id (msg_id (parse_message (sc_mail cfg) raw)) (fd_messages (st_db (ms_sink s))) \<noteq> None \<longrightarrow>
      fd_messages (st_db (ms_sink s')) = fd_messages (st_db (ms_sink s))) \<and>
    fd_silence (st_db (ms_sink s')) =
      touch_device_heartbeat (id_tenant i) (id_device i) (dw_now dw) (fd_silence (st_db (ms_sink s)))"
proof -
  let ?r = "ingest (sc_mail cfg) (sc_strptime cfg) raw i now"
  obtain f keys event p where "persist_flow ?r f keys event (dw_rows dw) (dw_now dw) (st_db (ms_sink s)) =
      Inr (p, st_db (ms_sink s'))"
    by (rule accepted_mail_is_stored [OF assms])
  then obtain mid db1 where m: "record_message ?r f (dw_rows dw) (st_db (ms_sink s)) = (mid, db1)"
    "fd_messages (st_db (ms_sink s')) = fd_messages db1"
    "fd_silence (st_db (ms_sink s')) = touch_device_heartbeat (id_tenant (ir_identity ?r)) (id_device (ir_identity ?r))
      (dw_now dw) (fd_silence (st_db (ms_sink s)))"
    by (rule persist_flow_message)
  show ?thesis
    using record_message_new [OF m(1)] record_message_again [of ?r "st_db (ms_sink s)" _ f "dw_rows dw"] m
    by (auto simp: ingest_message_id ingest_identity)
qed

lemma persist_returns:
  assumes "fo_camera f = None" and "ir_media r = []"
  shows "\<exists>p db'. persist_flow r f keys event dr now db = Inr (p, db')"
  using assms
  by (cases "ir_event r")
    (auto simp: persist_flow_def Let_def camera_uuid_def case_prod_unfold split: option.split)

lemma process_camera:
  assumes "process zones r ctx outages ai now dr w = (Inr f, w')" and "sc_cameras ctx = Map.empty"
  shows "fo_camera f = None"
proof -
  have cam: "resolve_camera ctx ch = (None, None)" for ch
    using assms(2) by (simp add: resolve_camera_def split: option.split)
  have "fo_camera g = None" if "decide zones r e ctx v m dr = Inr g" for e v m g
    using that by (auto simp: decide_def cam bind_err_Inr_iff stopped_at_def split: if_splits)
  with assms(1) show ?thesis
    by (auto simp: process_def Let_def cam case_prod_unfold stopped_at_def split: if_splits option.splits)
qed

lemma depot_takes_anything:
  assumes "ir_identity r = recorder_identity" and "ir_media r = []"
  shows "\<exists>i s'. handle depot_env r (depot_draw True) depot_state = (Inr i, s')"
proof -
  have l: "load_site_context (en_zones depot_env) (en_sites depot_env) (fd_silence (st_db depot_state))
      (id_device (ir_identity r)) = Inr (Some depot_context)"
    using depot_loads by (simp add: assms(1) depot_state_def empty_flow_db_def) (simp add: depot_env_def)
  have tz: "en_zones depot_env (sc_timezone depot_context) = Some (\<lambda>_. 3 * hour)"
    by (simp add: depot_env_def depot_context_def utc3_def)
  obtain f w where pr: "process (en_zones depot_env) r depot_context (st_outages depot_state) None None
      (dw_flow (depot_draw True)) (st_dedup depot_state) = (Inr f, w)"
    using loaded_site_returns [OF l tz] by (metis prod.collapse)
  obtain event keys store where u: "uploaded depot_env r (depot_draw True) f depot_state = (event, keys, store)"
    by (cases "uploaded depot_env r (depot_draw True) f depot_state")
  have "fo_camera f = None" by (rule process_camera [OF pr]) (simp add: depot_context_def)
  from persist_returns [OF this assms(2)] obtain p db where
    "persist_flow r f keys event (dw_rows (depot_draw True)) (dw_now (depot_draw True)) (st_db depot_state) = Inr (p, db)"
    by blast
  then show ?thesis unfolding handle_flow [OF l pr u] by (simp add: Let_def depot_draw_def)
qed

theorem accepted_mail_is_recorded_witness:
  "\<exists>s' row. handle_DATA (depot_server True) (Some recorder_identity) ''raw'' 0 \<lparr>ms_limiter = new_limiter, ms_sink = depot_state\<rparr>
      = (''250 Message accepted for delivery'', s') \<and>
    fd_messages (st_db (ms_sink s')) = [row] \<and>
    em_message_id row = msg_id (parse_message (plain_mail_env ''alarm'') ''raw'') \<and>
    em_tenant row = id_tenant recorder_identity \<and> em_device row = id_device recorder_identity"
proof -
  let ?s = "\<lparr>ms_limiter = new_limiter, ms_sink = depot_state\<rparr>"
  let ?r = "ingest (plain_mail_env ''alarm'') (\<lambda>_ _. None) ''raw'' recorder_identity 0"
  have "ir_identity ?r = recorder_identity" by (simp add: ingest_def Let_def)
  moreover have "ir_media ?r = []"
    by (simp add: ingest_def Let_def parse_message_def plain_mail_env_def inline_text_def lower_def decode_text_def
        envelope_of_def header_def parse_date_def images_def warn_def)
  ultimately obtain i k where h: "handle depot_env ?r (depot_draw True) depot_state = (Inr i, k)"
    using depot_takes_anything by blast
  obtain l where a: "allow new_limiter (uuid_text 11) 0 = (True, l)"
    by (cases "allow new_limiter (uuid_text 11) 0") (auto simp: rate_defs new_limiter_def default_rate_limit_def)
  have d: "handle_DATA (depot_server True) (Some recorder_identity) ''raw'' 0 ?s =
      (''250 Message accepted for delivery'', \<lparr>ms_limiter = l, ms_sink = k\<rparr>)"
    using h a by (simp add: handle_DATA_def depot_server_def intake_sink_def Let_def)
  have sk: "sc_sink (depot_server True) = intake_sink depot_env (depot_draw True)" by (simp add: depot_server_def)
  have dv: "lookup_row device_id (id_device recorder_identity) (devices (en_sites depot_env)) =
      Some \<lparr>device_id = 11, device_tenant = 1, device_site = 7, device_profile = None\<rparr>"
    by (simp add: depot_env_def lookup_row_def)
  have st: "lookup_row site_id (device_site \<lparr>device_id = 11, device_tenant = 1, device_site = 7, device_profile = None\<rparr>)
      (sites (en_sites depot_env)) =
      Some \<lparr>site_id = 7, site_tenant = 1, site_name = ''Depo'', site_tz = istanbul, site_armed = True\<rparr>"
    by (simp add: depot_env_def lookup_row_def)
  have none: "fd_messages (st_db (ms_sink ?s)) = []" by (simp add: depot_state_def empty_flow_db_def)
  have mail: "sc_mail (depot_server True) = plain_mail_env ''alarm''" by (simp add: depot_server_def)
  from accepted_mail_is_recorded [OF d sk dv st, THEN conjunct1, unfolded none mail] d
  show ?thesis by (auto simp: lookup_row_def)
qed

end
