(* ===== verification/Watchdog.thy ===== *)
theory Watchdog
  imports Schedule
begin

text \<open>
  The silence watchdog: the classification of one quiet recorder,
  \<^verbatim>\<open>backend/app/modules/devices/watchdog.py\<close>, and the sweep that turns a fleet's
  last-seen times into alarms and state changes,
  \<^verbatim>\<open>backend/app/services/silence_sweep.py\<close>.  A sweep over a site with an unknown
  timezone raises, so the operations return \<^typ>\<open>invalid_schedule + 'a\<close>.
\<close>

section \<open>One recorder\<close>

datatype silence_state = OK | LATE | SILENT | NEVER_SEEN

fun silence_value :: "silence_state \<Rightarrow> string" where
  "silence_value OK = ''OK''"
| "silence_value LATE = ''LATE''"
| "silence_value SILENT = ''SILENT''"
| "silence_value NEVER_SEEN = ''NEVER_SEEN''"

lemma silence_value_inject [simp]: "silence_value a = silence_value b \<longleftrightarrow> a = b"
  by (cases a; cases b) simp_all

record watchdog_config =
  expected_interval_seconds :: int
  tolerance :: rat
  armed_schedule :: "schedule option"

definition default_interval :: int where
  "default_interval = 30 * 60"

definition default_config :: watchdog_config where
  "default_config = \<lparr>expected_interval_seconds = default_interval, tolerance = 3 / 2,
     armed_schedule = None\<rparr>"

text \<open>
  \<^verbatim>\<open>timedelta(seconds=x)\<close> keeps microseconds, rounding half to even; with the
  default tolerance the product is a whole number of microseconds already.
\<close>

definition timedelta_seconds :: "rat \<Rightarrow> duration" where
  "timedelta_seconds x = (let us = x * of_int second; f = \<lfloor>us\<rfloor>; d = us - of_int f
     in if d < 1 / 2 then f else if d > 1 / 2 then f + 1 else if even f then f else f + 1)"

definition silent_after :: "watchdog_config \<Rightarrow> duration" where
  "silent_after c = timedelta_seconds (of_int (expected_interval_seconds c) * tolerance c)"

definition late_after :: "watchdog_config \<Rightarrow> duration" where
  "late_after c = seconds (expected_interval_seconds c)"

record watchdog_verdict =
  verdict_state :: silence_state
  silent_for :: "duration option"
  security_relevant :: bool
  verdict_reason :: string

definition verdict_should_alarm :: "watchdog_verdict \<Rightarrow> bool" where
  "verdict_should_alarm v \<longleftrightarrow> verdict_state v \<in> {SILENT, NEVER_SEEN}"

definition section_sign :: string where
  "section_sign = [CHR 0xC2, CHR 0xA7]"

definition night_clock :: "duration \<Rightarrow> duration \<Rightarrow> duration \<Rightarrow> bool" where
  "night_clock start end l =
     (if start \<le> end then start \<le> l \<and> l < end else start \<le> l \<or> l < end)"

definition is_night :: "zone_db \<Rightarrow> instant \<Rightarrow> string \<Rightarrow> duration \<Rightarrow> duration \<Rightarrow> invalid_schedule + bool" where
  "is_night zones moment tz start end =
     bind_err (make_schedule zones tz (clock 0 0) (clock 0 0) all_days) (\<lambda>s.
     bind_err (local_time zones s moment) (\<lambda>l. Inr (night_clock start end (time_of_day l))))"

definition silent_verdict :: "duration \<Rightarrow> bool \<Rightarrow> watchdog_verdict" where
  "silent_verdict quiet armed = \<lparr>verdict_state = SILENT, silent_for = Some quiet,
     security_relevant = armed,
     verdict_reason = (if armed
       then ''recorder went quiet while the site was armed - treat as a possible tamper or theft (spec '' @
            section_sign @ ''13.1)''
       else ''recorder is not reporting; raise as a device fault'')\<rparr>"

definition evaluate_silence :: "zone_db \<Rightarrow> instant option \<Rightarrow> instant \<Rightarrow> watchdog_config option
    \<Rightarrow> string \<Rightarrow> duration \<Rightarrow> duration \<Rightarrow> invalid_schedule + watchdog_verdict" where
  "evaluate_silence zones last_message now config tz night_start night_end =
    (let c = (case config of None \<Rightarrow> default_config | Some c \<Rightarrow> c) in
     case last_message of
       None \<Rightarrow> Inr \<lparr>verdict_state = NEVER_SEEN, silent_for = None, security_relevant = False,
                    verdict_reason = ''no message has ever arrived from this device''\<rparr>
     | Some last_at \<Rightarrow>
         let quiet = now - last_at in
         if quiet < late_after c
         then Inr \<lparr>verdict_state = OK, silent_for = Some quiet, security_relevant = False,
                   verdict_reason = ''reporting on schedule''\<rparr>
         else if quiet < silent_after c
         then Inr \<lparr>verdict_state = LATE, silent_for = Some quiet, security_relevant = False,
                   verdict_reason = ''one health message missed; inside the grace window''\<rparr>
         else bind_err (is_night zones now tz night_start night_end) (\<lambda>at_night.
              bind_err (case armed_schedule c of
                  Some s \<Rightarrow> is_active zones s now
                | None \<Rightarrow> Inr at_night) (\<lambda>armed.
              Inr (silent_verdict quiet armed))))"

section \<open>The fleet\<close>

record device_snapshot =
  dev_id :: uuid
  dev_site :: uuid
  dev_tenant :: uuid
  dev_name :: string
  dev_last_message :: "instant option"
  stored_state :: string
  dev_interval :: int
  dev_timezone :: string
  dev_armed :: bool

record silence_alarm =
  alarm_event_type :: string
  alarm_site :: uuid
  alarm_tenant :: uuid
  alarm_device :: "uuid option"
  alarm_device_name :: "string option"
  alarm_silent_for :: "duration option"
  alarm_security :: bool
  alarm_reason :: string
  alarm_devices :: "uuid list"

record sweep_result =
  alarms :: "silence_alarm list"
  state_changes :: "(uuid, string) dict"
  recovered :: "uuid list"

definition empty_sweep :: sweep_result where
  "empty_sweep = \<lparr>alarms = [], state_changes = [], recovered = []\<rparr>"

definition sweep_quiet :: "sweep_result \<Rightarrow> bool" where
  "sweep_quiet r \<longleftrightarrow> alarms r = [] \<and> state_changes r = []"

type_synonym judged = "device_snapshot \<times> watchdog_verdict"

definition evaluate_device :: "zone_db \<Rightarrow> device_snapshot \<Rightarrow> instant
    \<Rightarrow> invalid_schedule + watchdog_verdict" where
  "evaluate_device zones d now = evaluate_silence zones (dev_last_message d) now
     (Some (default_config\<lparr>expected_interval_seconds := dev_interval d\<rparr>)) (dev_timezone d)
     (clock 19 0) (clock 6 0)"

definition is_silent :: "judged \<Rightarrow> bool" where
  "is_silent p \<longleftrightarrow> verdict_state (snd p) = SILENT"

definition newly_silent :: "judged \<Rightarrow> bool" where
  "newly_silent p \<longleftrightarrow> is_silent p \<and> stored_state (fst p) \<noteq> silence_value SILENT"

text \<open>The first loop of \<^verbatim>\<open>_plan_site\<close>: stored states to change, recorders back.\<close>

definition note_device :: "judged \<Rightarrow> sweep_result \<Rightarrow> sweep_result" where
  "note_device p r =
    (let d = fst p; v = snd p;
         r1 = (if silence_value (verdict_state v) \<noteq> stored_state d
               then r\<lparr>state_changes := dict_set (dev_id d) (silence_value (verdict_state v)) (state_changes r)\<rparr>
               else r)
     in if verdict_state v = OK \<and> stored_state d \<in> {silence_value SILENT, silence_value LATE}
        then r1\<lparr>recovered := recovered r1 @ [dev_id d]\<rparr> else r1)"

definition longest_silence :: "judged list \<Rightarrow> duration option" where
  "longest_silence ps =
    (let ds = [q. (_, v) \<leftarrow> ps, Some q \<leftarrow> [silent_for v], q \<noteq> 0]
     in if ds = [] then None else Some (Max (set ds)))"

definition site_wide :: "judged list \<Rightarrow> bool" where
  "site_wide ps \<longleftrightarrow> 2 \<le> length ps \<and>
     rat_of_nat (length (filter is_silent ps)) \<ge> rat_of_nat (length ps) * (3 / 4)"

definition outage_alarm :: "uuid \<Rightarrow> judged list \<Rightarrow> silence_alarm" where
  "outage_alarm site ps =
    (let silent = filter is_silent ps
     in \<lparr>alarm_event_type = ''site_offline'', alarm_site = site,
         alarm_tenant = dev_tenant (fst (hd ps)), alarm_device = None, alarm_device_name = None,
         alarm_silent_for = longest_silence silent,
         alarm_security = (\<exists>p \<in> set silent. security_relevant (snd p)),
         alarm_reason = show_nat (length silent) @ '' of '' @ show_nat (length ps) @
           '' recorders went quiet together: treat as a site-wide power or link outage until proven otherwise'',
         alarm_devices = map (dev_id \<circ> fst) silent\<rparr>)"

definition device_alarm :: "uuid \<Rightarrow> judged list \<Rightarrow> judged \<Rightarrow> silence_alarm" where
  "device_alarm site ps p =
    (let d = fst p; v = snd p
     in \<lparr>alarm_event_type = ''device_silent'', alarm_site = site,
         alarm_tenant = dev_tenant (fst (hd ps)), alarm_device = Some (dev_id d),
         alarm_device_name = Some (dev_name d), alarm_silent_for = silent_for v,
         alarm_security = security_relevant v,
         alarm_reason = (if 1 < length ps
           then dev_name d @ '' stopped reporting while its site's other recorders kept going'' @
                '' - the signature of a stolen or unplugged box (spec '' @ section_sign @ ''13.1)''
           else verdict_reason v),
         alarm_devices = [dev_id d]\<rparr>)"

definition site_alarms :: "uuid \<Rightarrow> judged list \<Rightarrow> silence_alarm list" where
  "site_alarms site ps =
    (if filter newly_silent ps = [] then []
     else if site_wide ps then [outage_alarm site ps]
     else map (device_alarm site ps) (filter newly_silent ps))"

definition plan_site :: "uuid \<times> judged list \<Rightarrow> sweep_result \<Rightarrow> sweep_result" where
  "plan_site g r =
    (let r1 = fold note_device (snd g) r
     in r1\<lparr>alarms := alarms r1 @ site_alarms (fst g) (snd g)\<rparr>)"

text \<open>\<^verbatim>\<open>by_site.setdefault(snapshot.site_id, []).append(...)\<close>\<close>

definition add_to_site :: "judged \<Rightarrow> (uuid, judged list) dict \<Rightarrow> (uuid, judged list) dict" where
  "add_to_site p d = dict_set (dev_site (fst p))
     ((case map_of d (dev_site (fst p)) of None \<Rightarrow> [] | Some ps \<Rightarrow> ps) @ [p]) d"

definition judge :: "zone_db \<Rightarrow> instant \<Rightarrow> device_snapshot \<Rightarrow> invalid_schedule + judged" where
  "judge zones now d = bind_err (evaluate_device zones d now) (\<lambda>v. Inr (d, v))"

definition plan_judged :: "judged list \<Rightarrow> sweep_result" where
  "plan_judged ps = fold plan_site (fold add_to_site ps []) empty_sweep"

definition plan_sweep :: "zone_db \<Rightarrow> device_snapshot list \<Rightarrow> instant \<Rightarrow> invalid_schedule + sweep_result" where
  "plan_sweep zones ds now = bind_err (map_err (judge zones now) ds) (\<lambda>ps. Inr (plan_judged ps))"

section \<open>What a sweep computes\<close>

definition of_site :: "uuid \<Rightarrow> judged list \<Rightarrow> judged list" where
  "of_site s ps = filter (\<lambda>p. dev_site (fst p) = s) ps"

lemma map_of_grouping:
  "map_of (fold add_to_site ps d) s =
    (if of_site s ps = [] then map_of d s
     else Some ((case map_of d s of None \<Rightarrow> [] | Some qs \<Rightarrow> qs) @ of_site s ps))"
  by (induction ps arbitrary: d) (auto simp: of_site_def add_to_site_def split: option.splits)

lemma distinct_grouping:
  "distinct (map fst d) \<Longrightarrow> distinct (map fst (fold add_to_site ps d))"
  by (induction ps arbitrary: d) (simp_all add: add_to_site_def distinct_dict_set)

lemma group_in: "(s, qs) \<in> set (fold add_to_site ps []) \<longleftrightarrow> qs = of_site s ps \<and> qs \<noteq> []"
proof -
  have "(s, qs) \<in> set (fold add_to_site ps []) \<longleftrightarrow> map_of (fold add_to_site ps []) s = Some qs"
    by (simp add: map_of_eq_Some_iff distinct_grouping)
  then show ?thesis by (auto simp: map_of_grouping split: if_splits)
qed

lemma concat_at_key:
  assumes "distinct (map fst gs)" and "(s, qs) \<in> set gs"
    and "\<And>k v. (k, v) \<in> set gs \<Longrightarrow> k \<noteq> s \<Longrightarrow> f (k, v) = []"
  shows "concat (map f gs) = f (s, qs)"
  using assms
proof (induction gs)
  case Nil
  then show ?case by simp
next
  case (Cons g gs)
  have rest: "concat (map f gs) = []" if "s \<notin> fst ` set gs"
    using that Cons.prems(3) by (simp add: concat_eq_Nil_conv) force
  show ?case
  proof (cases "g = (s, qs)")
    case True
    with Cons.prems(1) rest show ?thesis by auto
  next
    case False
    with Cons.prems(2) have mem: "(s, qs) \<in> set gs" by simp
    then have "fst g \<noteq> s" using Cons.prems(1) by (auto simp: rev_image_eqI)
    then have "f g = []" using Cons.prems(3) [of "fst g" "snd g"] by simp
    with Cons mem show ?thesis by simp
  qed
qed

lemma note_device_alarms [simp]: "alarms (fold note_device ps r) = alarms r"
  by (induction ps arbitrary: r) (simp_all add: note_device_def Let_def)

lemma plan_alarms:
  "alarms (fold plan_site gs r) = alarms r @ concat (map (\<lambda>(s, ps). site_alarms s ps) gs)"
  by (induction gs arbitrary: r) (auto simp: plan_site_def Let_def)

lemma plan_judged_alarms:
  "alarms (plan_judged ps) =
   concat (map (\<lambda>(s, qs). site_alarms s qs) (fold add_to_site ps []))"
  by (simp add: plan_judged_def plan_alarms empty_sweep_def)

definition changed :: "judged \<Rightarrow> bool" where
  "changed p \<longleftrightarrow> silence_value (verdict_state (snd p)) \<noteq> stored_state (fst p)"

lemma note_device_changes:
  "state_changes (note_device p r) =
     (if changed p then dict_set (dev_id (fst p)) (silence_value (verdict_state (snd p))) (state_changes r)
      else state_changes r)"
  by (simp add: note_device_def Let_def changed_def)

lemma note_devices_changes:
  "map_of (state_changes (fold note_device ps r)) i =
    (case find (\<lambda>p. changed p \<and> dev_id (fst p) = i) (rev ps) of
       Some p \<Rightarrow> Some (silence_value (verdict_state (snd p)))
     | None \<Rightarrow> map_of (state_changes r) i)"
  by (induction ps rule: rev_induct)
    (auto simp: note_device_changes split: option.splits)

lemma plan_changes:
  "state_changes (fold plan_site gs r) = state_changes (fold note_device (concat (map snd gs)) r)"
proof (induction gs arbitrary: r)
  case Nil
  then show ?case by simp
next
  case (Cons g gs)
  have same: "state_changes (fold note_device ps q) = state_changes (fold note_device ps q')"
    if "state_changes q = state_changes q'" for ps q q'
    using that by (induction ps arbitrary: q q') (simp_all add: note_device_changes)
  from Cons show ?case by (auto simp: plan_site_def Let_def intro: same)
qed

lemma grouped_members: "set (concat (map snd (fold add_to_site ps []))) = set ps"
proof -
  have "p \<in> set (concat (map snd (fold add_to_site ps []))) \<longleftrightarrow>
      (\<exists>s. p \<in> set (of_site s ps))" for p
    by (auto simp: group_in) (metis group_in length_pos_if_in_set less_numeral_extra(3) list.size(3) snd_conv)
  then show ?thesis by (auto simp: of_site_def)
qed

lemma state_changes_plan:
  "map_of (state_changes (plan_judged ps)) i =
    (case find (\<lambda>p. changed p \<and> dev_id (fst p) = i) (rev (concat (map snd (fold add_to_site ps [])))) of
       Some p \<Rightarrow> Some (silence_value (verdict_state (snd p))) | None \<Rightarrow> None)"
  unfolding plan_judged_def plan_changes note_devices_changes by (simp add: empty_sweep_def cong: option.case_cong)

lemma state_changes_Some:
  assumes "map_of (state_changes (plan_judged ps)) i = Some v"
  shows "\<exists>p \<in> set ps. changed p \<and> dev_id (fst p) = i \<and> v = silence_value (verdict_state (snd p))"
proof -
  let ?P = "\<lambda>p. changed p \<and> dev_id (fst p) = i"
  let ?xs = "rev (concat (map snd (fold add_to_site ps [])))"
  from assms obtain p where p: "find ?P ?xs = Some p" "v = silence_value (verdict_state (snd p))"
    unfolding state_changes_plan by (cases "find ?P ?xs") auto
  from p(1) obtain k where "k < length ?xs" "?P (?xs ! k)" "p = ?xs ! k"
    unfolding find_Some_iff by blast
  then have "?P p" "p \<in> set ?xs" using nth_mem by blast+
  with p(2) grouped_members [of ps] show ?thesis unfolding set_rev by blast
qed

lemma state_changes_None:
  assumes "map_of (state_changes (plan_judged ps)) i = None" and "p \<in> set ps" and "dev_id (fst p) = i"
  shows "\<not> changed p"
proof -
  have "find (\<lambda>p. changed p \<and> dev_id (fst p) = i)
      (rev (concat (map snd (fold add_to_site ps [])))) = None"
    using assms(1) unfolding state_changes_plan by (simp split: option.splits)
  then show ?thesis
    unfolding find_None_iff set_rev grouped_members using assms(2,3) by blast
qed

lemma judged_sweep:
  assumes "map_err (judge zones now) ds = Inr ps"
  shows "map fst ps = ds" and "p \<in> set ps \<Longrightarrow> evaluate_device zones (fst p) now = Inr (snd p)"
proof -
  have "list_all2 (\<lambda>d p. fst p = d \<and> evaluate_device zones d now = Inr (snd p)) ds ps"
    using map_err_InrD [OF assms] by (rule list_all2_mono) (auto simp: judge_def bind_err_Inr_iff)
  then show "map fst ps = ds" "p \<in> set ps \<Longrightarrow> evaluate_device zones (fst p) now = Inr (snd p)"
    by (auto simp: list_all2_conv_all_nth in_set_conv_nth list_eq_iff_nth_eq)
qed

section \<open>Silence is reported, once, at the right level\<close>

lemma site_alarms_of_site:
  "a \<in> set (site_alarms s ps) \<Longrightarrow> alarm_site a = s"
  by (auto simp: site_alarms_def outage_alarm_def device_alarm_def Let_def split: if_splits)

lemma site_alarms_speak_for:
  "a \<in> set (site_alarms s ps) \<Longrightarrow> i \<in> set (alarm_devices a) \<Longrightarrow>
     \<exists>p \<in> set ps. is_silent p \<and> dev_id (fst p) = i"
  by (auto simp: site_alarms_def outage_alarm_def device_alarm_def newly_silent_def Let_def
      split: if_splits)

lemma site_alarms_newly:
  assumes "a \<in> set (site_alarms s (of_site s ps))"
  shows "\<exists>p \<in> set ps. dev_site (fst p) = alarm_site a \<and>
    dev_id (fst p) \<in> set (alarm_devices a) \<and> newly_silent p"
proof -
  let ?qs = "of_site s ps"
  have sub: "p \<in> set ps \<and> dev_site (fst p) = alarm_site a" if "p \<in> set ?qs" for p
    using that site_alarms_of_site [OF assms] by (simp add: of_site_def)
  have "\<exists>p \<in> set ?qs. newly_silent p \<and> dev_id (fst p) \<in> set (alarm_devices a)"
  proof (cases "site_wide ?qs")
    case True
    with assms have "filter newly_silent ?qs \<noteq> []" "a = outage_alarm s ?qs"
      by (auto simp: site_alarms_def split: if_splits)
    then show ?thesis
      by (auto simp: outage_alarm_def newly_silent_def Let_def filter_empty_conv)
  next
    case False
    with assms show ?thesis
      by (auto simp: site_alarms_def device_alarm_def Let_def split: if_splits)
  qed
  with sub show ?thesis by blast
qed

lemma filter_the_one:
  "distinct (map f xs) \<Longrightarrow> x \<in> set xs \<Longrightarrow> filter (\<lambda>y. f y = f x) xs = [x]"
  by (induction xs) (auto simp: rev_image_eqI filter_empty_conv)

lemma site_alarms_once:
  assumes "distinct (map (dev_id \<circ> fst) ps)" and "p \<in> set ps" and "newly_silent p"
  shows "filter (\<lambda>a. dev_id (fst p) \<in> set (alarm_devices a)) (site_alarms s ps) =
    [if site_wide ps then outage_alarm s ps else device_alarm s ps p]"
proof -
  have some: "filter newly_silent ps \<noteq> []" using assms(2,3) by (auto simp: filter_empty_conv)
  show ?thesis
  proof (cases "site_wide ps")
    case True
    with some assms(2,3) show ?thesis
      by (auto simp: site_alarms_def outage_alarm_def newly_silent_def Let_def)
  next
    case False
    have "filter (\<lambda>q. dev_id (fst q) = dev_id (fst p)) (filter newly_silent ps) = [p]"
      using filter_the_one [of "dev_id \<circ> fst" "filter newly_silent ps" p] assms
      by (simp add: distinct_map_filter)
    moreover have "((\<lambda>a. dev_id (fst p) \<in> set (alarm_devices a)) \<circ> device_alarm s ps) =
        (\<lambda>q. dev_id (fst q) = dev_id (fst p))"
      by (auto simp: fun_eq_iff device_alarm_def Let_def)
    ultimately show ?thesis using some False
      by (simp add: site_alarms_def filter_map)
  qed
qed

lemma of_site_distinct:
  "distinct (map f ps) \<Longrightarrow> distinct (map f (of_site s ps))"
  by (simp add: of_site_def distinct_map_filter)

lemma plan_alarms_once:
  assumes "distinct (map (dev_id \<circ> fst) ps)" and "p \<in> set ps" and "newly_silent p"
  shows "filter (\<lambda>a. dev_id (fst p) \<in> set (alarm_devices a)) (alarms (plan_judged ps)) =
    [let s = dev_site (fst p); qs = of_site s ps
     in if site_wide qs then outage_alarm s qs else device_alarm s qs p]"
proof -
  let ?s = "dev_site (fst p)" and ?P = "\<lambda>a. dev_id (fst p) \<in> set (alarm_devices a)"
  let ?f = "\<lambda>(s, qs). filter ?P (site_alarms s qs)"
  have mem: "p \<in> set (of_site ?s ps)" using assms(2) by (simp add: of_site_def)
  have other: "?f (k, qs) = []" if "(k, qs) \<in> set (fold add_to_site ps [])" "k \<noteq> ?s" for k qs
  proof -
    have "\<not> ?P a" if "a \<in> set (site_alarms k qs)" for a
    proof
      assume "?P a"
      with site_alarms_speak_for [OF that] obtain q where
        "q \<in> set qs" "dev_id (fst q) = dev_id (fst p)" by blast
      moreover from this(1) \<open>(k, qs) \<in> _\<close> have "q \<in> set ps" "dev_site (fst q) = k"
        by (auto simp: group_in of_site_def)
      ultimately have "q = p" using assms(1,2) by (auto simp: distinct_map inj_on_def)
      with \<open>dev_site (fst q) = k\<close> \<open>k \<noteq> ?s\<close> show False by simp
    qed
    then show ?thesis by (simp add: filter_empty_conv)
  qed
  have "filter ?P (alarms (plan_judged ps)) = concat (map ?f (fold add_to_site ps []))"
    by (simp add: plan_judged_alarms filter_concat comp_def case_prod_unfold)
  also have "\<dots> = ?f (?s, of_site ?s ps)"
  proof (rule concat_at_key)
    show "distinct (map fst (fold add_to_site ps []))" by (simp add: distinct_grouping)
    show "(?s, of_site ?s ps) \<in> set (fold add_to_site ps [])"
      unfolding group_in using mem by force
  qed (use other in blast)
  also have "\<dots> = [if site_wide (of_site ?s ps) then outage_alarm ?s (of_site ?s ps)
                    else device_alarm ?s (of_site ?s ps) p]"
    using site_alarms_once [OF of_site_distinct [OF assms(1)] mem assms(3)] by simp
  finally show ?thesis by (simp add: Let_def)
qed

lemma timedelta_half_steps: "timedelta_seconds (of_int n * (3 / 2)) = n * 1500000"
proof -
  have whole: "(of_int n * (3 / 2)) * of_int second = (of_int (n * 1500000) :: rat)" by simp
  have "\<lfloor>(of_int (n * 1500000) :: rat)\<rfloor> = n * 1500000" by (rule floor_of_int)
  then show ?thesis unfolding timedelta_seconds_def whole by (simp only: Let_def) simp
qed

text \<open>
  A device whose timezone is known always gets a verdict: never seen exactly when
  nothing arrived, on schedule below its interval, silent from one and a half intervals on,
  and silence is a security matter exactly when the site's wall clock reads between 19:00
  and 06:00.
\<close>

theorem silence_classified:
  assumes "zones (dev_timezone d) = Some off" and "0 \<le> dev_interval d"
  shows "\<exists>v. evaluate_device zones d now = Inr v \<and>
    (verdict_state v = NEVER_SEEN \<longleftrightarrow> dev_last_message d = None) \<and>
    (\<forall>t. dev_last_message d = Some t \<longrightarrow> silent_for v = Some (now - t) \<and>
       (verdict_state v = OK \<longleftrightarrow> now - t < seconds (dev_interval d)) \<and>
       (verdict_state v = SILENT \<longleftrightarrow> 3 * seconds (dev_interval d) \<le> 2 * (now - t)) \<and>
       (security_relevant v \<longleftrightarrow> verdict_state v = SILENT \<and>
          (time_of_day (now + off now) < clock 6 0 \<or> clock 19 0 \<le> time_of_day (now + off now))))"
proof (cases "dev_last_message d")
  case None
  then show ?thesis by (simp add: evaluate_device_def evaluate_silence_def)
next
  case (Some t)
  let ?c = "default_config\<lparr>expected_interval_seconds := dev_interval d\<rparr>"
  have late: "late_after ?c = seconds (dev_interval d)" by (simp add: late_after_def)
  have silent: "silent_after ?c = dev_interval d * 1500000"
    using timedelta_half_steps by (simp add: silent_after_def default_config_def)
  have night: "is_night zones now (dev_timezone d) (clock 19 0) (clock 6 0) =
      Inr (time_of_day (now + off now) < clock 6 0 \<or> clock 19 0 \<le> time_of_day (now + off now))"
    using assms(1) by (auto simp: is_night_def make_schedule_def resolve_timezone_def local_time_def
        night_clock_def all_days_def clock_def)
  show ?thesis
    using Some assms(2) late silent night
    by (auto simp: evaluate_device_def evaluate_silence_def Let_def silent_verdict_def seconds_def
        default_config_def)
qed

definition quiet_recorder :: "uuid \<Rightarrow> duration \<Rightarrow> string \<Rightarrow> device_snapshot" where
  "quiet_recorder i t st = \<lparr>dev_id = i, dev_site = 7, dev_tenant = 1, dev_name = ''NVR'',
     dev_last_message = Some t, stored_state = st, dev_interval = 1800, dev_timezone = istanbul,
     dev_armed = True\<rparr>"

theorem silence_classified_witness:
  "\<exists>v. evaluate_device utc3 (quiet_recorder 1 0 ''OK'') (45 * minute) = Inr v \<and>
     verdict_state v = SILENT \<and> security_relevant v"
proof -
  have h: "utc3 (dev_timezone (quiet_recorder 1 0 ''OK'')) = Some (\<lambda>_. 3 * hour)"
      "0 \<le> dev_interval (quiet_recorder 1 0 ''OK'')"
    by (simp_all add: utc3_def quiet_recorder_def)
  from silence_classified [where now = "45 * minute" and zones = utc3 and off = "\<lambda>_. 3 * hour"
      and d = "quiet_recorder 1 0 ''OK''", OF h] show ?thesis
    by (auto simp: quiet_recorder_def seconds_def time_of_day_def clock_def)
qed

text \<open>
  C17. With distinct recorders, every recorder the sweep finds newly silent is spoken for by
  exactly one alarm, raised for its site: the site's outage alarm when at least two
  recorders and at least three quarters of them are silent, its own alarm otherwise.
  Conversely every alarm of the sweep speaks only for silent recorders of its site, at least
  one of them newly silent, so a site that stays dark raises nothing again.
\<close>

theorem sweep_speaks_once:
  assumes "map_err (judge zones now) ds = Inr ps" and "distinct (map dev_id ds)"
  shows "\<exists>r. plan_sweep zones ds now = Inr r \<and>
    (\<forall>p \<in> set ps. newly_silent p \<longrightarrow>
      (\<exists>a. filter (\<lambda>b. dev_id (fst p) \<in> set (alarm_devices b)) (alarms r) = [a] \<and>
         alarm_site a = dev_site (fst p) \<and>
         (alarm_device a = None \<longleftrightarrow> site_wide (of_site (dev_site (fst p)) ps)))) \<and>
    (\<forall>a \<in> set (alarms r).
      (\<forall>i \<in> set (alarm_devices a). \<exists>p \<in> set ps.
         dev_id (fst p) = i \<and> dev_site (fst p) = alarm_site a \<and> is_silent p) \<and>
      (\<exists>p \<in> set ps. dev_site (fst p) = alarm_site a \<and>
         dev_id (fst p) \<in> set (alarm_devices a) \<and> newly_silent p))"
proof -
  have dist: "distinct (map (dev_id \<circ> fst) ps)"
    using assms(2) unfolding judged_sweep(1) [OF assms(1), symmetric] by simp
  have once: "\<exists>a. filter (\<lambda>b. dev_id (fst p) \<in> set (alarm_devices b)) (alarms (plan_judged ps)) = [a] \<and>
      alarm_site a = dev_site (fst p) \<and>
      (alarm_device a = None \<longleftrightarrow> site_wide (of_site (dev_site (fst p)) ps))"
    if "p \<in> set ps" "newly_silent p" for p
    unfolding plan_alarms_once [OF dist that]
    by (simp add: Let_def outage_alarm_def device_alarm_def)
  have origin: "\<exists>s. a \<in> set (site_alarms s (of_site s ps))" if "a \<in> set (alarms (plan_judged ps))" for a
    using that by (auto simp: plan_judged_alarms group_in)
  have named: "\<exists>p \<in> set ps. dev_id (fst p) = i \<and> dev_site (fst p) = alarm_site a \<and> is_silent p"
    if "a \<in> set (alarms (plan_judged ps))" "i \<in> set (alarm_devices a)" for a i
    using origin [OF that(1)] site_alarms_speak_for [OF _ that(2)] site_alarms_of_site
    unfolding of_site_def by fastforce
  have fresh: "\<exists>p \<in> set ps. dev_site (fst p) = alarm_site a \<and>
      dev_id (fst p) \<in> set (alarm_devices a) \<and> newly_silent p"
    if "a \<in> set (alarms (plan_judged ps))" for a
    using origin [OF that] site_alarms_newly by fastforce
  show ?thesis
    using assms(1) once named fresh by (auto simp: plan_sweep_def)
qed

text \<open>Three recorders of one site, two of them quiet since midnight.\<close>

definition small_fleet :: "device_snapshot list" where
  "small_fleet = [quiet_recorder 1 0 ''OK'', quiet_recorder 2 (44 * minute) ''OK'',
     quiet_recorder 3 0 ''SILENT'']"

lemma quiet_recorder_silent:
  "evaluate_device utc3 (quiet_recorder i 0 st) (45 * minute) = Inr (silent_verdict (45 * minute) True)"
  by (simp add: evaluate_device_def evaluate_silence_def quiet_recorder_def late_after_def
      silent_after_def timedelta_seconds_def default_config_def seconds_def is_night_def
      make_schedule_def resolve_timezone_def utc3_def local_time_def night_clock_def clock_def
      all_days_def time_of_day_def Let_def)

lemma quiet_recorder_fine:
  "evaluate_device utc3 (quiet_recorder i (44 * minute) st) (45 * minute) =
     Inr \<lparr>verdict_state = OK, silent_for = Some minute, security_relevant = False,
          verdict_reason = ''reporting on schedule''\<rparr>"
  by (simp add: evaluate_device_def evaluate_silence_def quiet_recorder_def late_after_def
      default_config_def seconds_def)

theorem sweep_speaks_once_witness:
  "\<exists>r a. plan_sweep utc3 small_fleet (45 * minute) = Inr r \<and>
     filter (\<lambda>b. 1 \<in> set (alarm_devices b)) (alarms r) = [a] \<and>
     alarm_site a = 7 \<and> alarm_device a \<noteq> None"
proof -
  let ?ok = "\<lparr>verdict_state = OK, silent_for = Some minute, security_relevant = False,
          verdict_reason = ''reporting on schedule''\<rparr>"
  let ?v = "silent_verdict (45 * minute) True"
  let ?ps = "[(quiet_recorder 1 0 ''OK'', ?v), (quiet_recorder 2 (44 * minute) ''OK'', ?ok),
     (quiet_recorder 3 0 ''SILENT'', ?v)]"
  have j: "map_err (judge utc3 (45 * minute)) small_fleet = Inr ?ps"
    unfolding small_fleet_def map_err.simps judge_def quiet_recorder_silent quiet_recorder_fine
    by simp
  have d: "distinct (map dev_id small_fleet)" by (simp add: small_fleet_def quiet_recorder_def)
  have new: "newly_silent (quiet_recorder 1 0 ''OK'', ?v)"
    by (simp add: newly_silent_def is_silent_def silent_verdict_def quiet_recorder_def)
  have few: "\<not> site_wide (of_site 7 ?ps)"
    by (simp add: site_wide_def of_site_def is_silent_def quiet_recorder_def silent_verdict_def)
  from sweep_speaks_once [OF j d] obtain r where
    r: "plan_sweep utc3 small_fleet (45 * minute) = Inr r" and
    all: "\<forall>p \<in> set ?ps. newly_silent p \<longrightarrow>
      (\<exists>a. filter (\<lambda>b. dev_id (fst p) \<in> set (alarm_devices b)) (alarms r) = [a] \<and>
         alarm_site a = dev_site (fst p) \<and>
         (alarm_device a = None \<longleftrightarrow> site_wide (of_site (dev_site (fst p)) ?ps)))"
    by blast
  have "(quiet_recorder 1 0 ''OK'', ?v) \<in> set ?ps" by simp
  from all [rule_format, OF this new] obtain a where
    "filter (\<lambda>b. 1 \<in> set (alarm_devices b)) (alarms r) = [a]" "alarm_site a = 7"
    "alarm_device a = None \<longleftrightarrow> site_wide (of_site 7 ?ps)"
    by (auto simp: quiet_recorder_def)
  with r few show ?thesis by blast
qed

section \<open>Sweeps converge\<close>

text \<open>What the worker writes back, \<^verbatim>\<open>apply_sweep\<close>, and reads on the next sweep.\<close>

definition store_changes :: "sweep_result \<Rightarrow> device_snapshot \<Rightarrow> device_snapshot" where
  "store_changes r d = (case map_of (state_changes r) (dev_id d) of
     None \<Rightarrow> d | Some st \<Rightarrow> d\<lparr>stored_state := st\<rparr>)"

lemma evaluate_stored [simp]:
  "evaluate_device zones (d\<lparr>stored_state := st\<rparr>) now = evaluate_device zones d now"
  by (simp add: evaluate_device_def)

lemma stored_fields [simp]:
  "dev_id (store_changes r d) = dev_id d" "dev_site (store_changes r d) = dev_site d"
  "evaluate_device zones (store_changes r d) now = evaluate_device zones d now"
  by (simp_all add: store_changes_def split: option.splits)

lemma stored_unchanged:
  assumes "distinct (map (dev_id \<circ> fst) ps)" and "(d, v) \<in> set ps"
  shows "stored_state (store_changes (plan_judged ps) d) = silence_value (verdict_state v)"
proof (cases "map_of (state_changes (plan_judged ps)) (dev_id d)")
  case None
  from state_changes_None [OF None assms(2)] None show ?thesis
    by (simp add: changed_def store_changes_def)
next
  case (Some st)
  from state_changes_Some [OF Some] obtain p where
    p: "p \<in> set ps" "dev_id (fst p) = dev_id d" "st = silence_value (verdict_state (snd p))"
    by blast
  then have "p = (d, v)" using assms by (auto simp: distinct_map inj_on_def)
  with p(3) Some show ?thesis by (simp add: store_changes_def)
qed

lemma unchanged_plan_quiet:
  assumes "\<forall>p \<in> set ps. \<not> changed p"
  shows "sweep_quiet (plan_judged ps)"
proof -
  have "alarms (plan_judged ps) = []"
  proof (rule ccontr)
    assume "\<not> ?thesis"
    then obtain a where "a \<in> set (alarms (plan_judged ps))" by (meson last_in_set)
    then obtain s where "a \<in> set (site_alarms s (of_site s ps))"
      by (auto simp: plan_judged_alarms group_in)
    from site_alarms_newly [OF this] assms show False
      by (auto simp: newly_silent_def is_silent_def changed_def)
  qed
  moreover have "map_of (state_changes (plan_judged ps)) i = None" for i
    using state_changes_Some [of ps i] assms by (metis not_None_eq)
  then have "map_of (state_changes (plan_judged ps)) = Map.empty" by (simp add: fun_eq_iff)
  then have "state_changes (plan_judged ps) = []" by simp
  ultimately show ?thesis by (simp add: sweep_quiet_def)
qed

lemma settled_after_store:
  assumes "plan_sweep zones ds now = Inr r" and "distinct (map dev_id ds)"
  shows "\<exists>r'. plan_sweep zones (map (store_changes r) ds) now = Inr r' \<and> sweep_quiet r'"
proof -
  from assms(1) obtain ps where ps: "map_err (judge zones now) ds = Inr ps" and r: "r = plan_judged ps"
    by (auto simp: plan_sweep_def bind_err_Inr_iff)
  note J = judged_sweep [OF ps]
  have dist: "distinct (map (dev_id \<circ> fst) ps)"
    using assms(2) unfolding J(1) [symmetric] by simp
  let ?qs = "map (\<lambda>(d, v). (store_changes r d, v)) ps"
  have "map_err (judge zones now) (map (store_changes r) ds) = Inr ?qs"
  proof -
    have "map_err (judge zones now) (map (store_changes r) ds) =
        map_err (\<lambda>p. judge zones now (store_changes r (fst p))) ps"
      unfolding J(1) [symmetric] map_map by (induction ps) simp_all
    also have "\<dots> = Inr (map (\<lambda>p. (store_changes r (fst p), snd p)) ps)"
      by (rule map_err_Inr) (simp add: judge_def J(2))
    finally show ?thesis by (simp add: case_prod_unfold)
  qed
  moreover have "sweep_quiet (plan_judged ?qs)"
    using stored_unchanged [OF dist] by (intro unchanged_plan_quiet) (auto simp: changed_def r)
  ultimately show ?thesis by (simp add: plan_sweep_def)
qed

text \<open>
  Once the worker has written a sweep's state changes back, the same sweep run again
  finds nothing: no alarm and no change, however the recorders are spread over sites.
\<close>

theorem sweep_settles:
  assumes "plan_sweep zones ds now = Inr r" and "distinct (map dev_id ds)"
  shows "\<exists>r'. plan_sweep zones (map (store_changes r) ds) now = Inr r' \<and> sweep_quiet r'"
  using assms by (rule settled_after_store)

theorem sweep_settles_witness:
  "\<exists>r r'. plan_sweep utc3 small_fleet (45 * minute) = Inr r \<and>
     plan_sweep utc3 (map (store_changes r) small_fleet) (45 * minute) = Inr r' \<and> sweep_quiet r'"
proof -
  have j: "\<exists>r. plan_sweep utc3 small_fleet (45 * minute) = Inr r"
    unfolding plan_sweep_def small_fleet_def map_err.simps judge_def quiet_recorder_silent
      quiet_recorder_fine by simp
  have d: "distinct (map dev_id small_fleet)" by (simp add: small_fleet_def quiet_recorder_def)
  from j sweep_settles [OF _ d] show ?thesis by blast
qed

end
