(* ===== verification/Commissioning.thy ===== *)
theory Commissioning
  imports Smtp AlarmsApi Watchdog
begin

text \<open>
  The configuration endpoints, \<^verbatim>\<open>backend/app/modules/sites/router.py\<close>: sites, recorders
  and their mail accounts, cameras, zones, rules and phones.  The rows extend the ones the intake
  reads with the columns only these endpoints use.  A request returns its answer and the tables it
  commits, or an error, on which everything is rolled back.
\<close>

section \<open>Tables\<close>

record site_full = site_row +
  sf_address :: "string option"
  sf_offline :: bool

record device_full = device_row +
  df_name :: string
  df_vendor :: string
  df_model :: "string option"
  df_firmware :: "string option"
  df_serial :: "string option"
  df_channels :: "int option"
  df_commissioned :: "instant option"

record camera_full = camera_row +
  cf_tenant :: uuid
  cf_site :: uuid
  cf_perimeter :: bool

record zone_full = zone_row +
  zf_id :: uuid
  zf_tenant :: uuid

record account_full = account_row +
  af_id :: uuid
  af_tenant :: uuid
  af_recipient :: string
  af_rotated :: "instant option"

record rule_full = rule_row +
  rf_id :: uuid
  rf_fallback :: string

record push_full = push_device +
  pf_seen :: "instant option"

record config_db =
  cd_sites :: "site_full list"
  cd_devices :: "device_full list"
  cd_cameras :: "camera_full list"
  cd_zones :: "zone_full list"
  cd_accounts :: "account_full list"
  cd_rules :: "rule_full list"
  cd_push :: "push_full list"
  cd_audit :: "audit_row list"
  cd_verified :: "uuid set"

text \<open>What the intake reads of these tables.\<close>

definition intake_view :: "config_db \<Rightarrow> site_tables" where
  "intake_view db = \<lparr>sites = map site_row.truncate (cd_sites db), devices = map device_row.truncate (cd_devices db),
     cameras = map camera_row.truncate (cd_cameras db), zone_rows = map zone_row.truncate (cd_zones db),
     rule_rows = map rule_row.truncate (cd_rules db), accounts = map account_row.truncate (cd_accounts db),
     verified_profiles = cd_verified db\<rparr>"

text \<open>
  The time zone database, the password hash with its salt, and the database's collation are the
  environment's.
\<close>

record config_env =
  ce_zones :: zone_db
  ce_hash :: "string \<Rightarrow> string \<Rightarrow> string"
  ce_collate :: "string \<Rightarrow> int"

type_synonym 'a answer = "http_error + 'a \<times> config_db"

text \<open>An insert fails on a key that is taken.\<close>

definition insert_row :: "('r \<Rightarrow> 'k) \<Rightarrow> 'r \<Rightarrow> 'r list \<Rightarrow> http_error + 'r list" where
  "insert_row key r rows = (if key r \<in> key ` set rows then Inl Server_error else Inr (rows @ [r]))"

fun insert_rows :: "('r \<Rightarrow> 'k) \<Rightarrow> 'r list \<Rightarrow> 'r list \<Rightarrow> http_error + 'r list" where
  "insert_rows key [] rows = Inr rows"
| "insert_rows key (r # rs) rows = bind_err (insert_row key r rows) (insert_rows key rs)"

definition check :: "string \<Rightarrow> bool \<Rightarrow> http_error + unit" where
  "check loc ok = (if ok then Inr () else Inl (Http 422 loc))"

definition text_ok :: "nat \<Rightarrow> nat \<Rightarrow> string \<Rightarrow> bool" where
  "text_ok low high s \<longleftrightarrow> low \<le> py_len s \<and> py_len s \<le> high"

definition opt_text_ok :: "nat \<Rightarrow> string option \<Rightarrow> bool" where
  "opt_text_ok high x = (case x of None \<Rightarrow> True | Some s \<Rightarrow> py_len s \<le> high)"

definition write_audit :: "current_user \<Rightarrow> string \<Rightarrow> string \<Rightarrow> uuid \<Rightarrow> (string \<times> string) list \<Rightarrow> config_db \<Rightarrow> config_db" where
  "write_audit u action target_type target detail db = db\<lparr>cd_audit := cd_audit db @ [\<lparr>au_tenant = cu_tenant u,
     au_actor = cu_user u, au_action = action, au_target_type = target_type, au_target = uuid_text target,
     au_detail = detail\<rparr>]\<rparr>"

section \<open>Loaders\<close>

definition load_owned :: "('r \<Rightarrow> uuid) \<Rightarrow> ('r \<Rightarrow> uuid) \<Rightarrow> 'r list \<Rightarrow> uuid \<Rightarrow> current_user \<Rightarrow> http_error + 'r" where
  "load_owned key tenant rows i u = (case lookup_row key i rows of
     None \<Rightarrow> Inl (Http 404 ''not found'')
   | Some r \<Rightarrow> bind_err (assert_owns u (tenant r)) (\<lambda>_. Inr r))"

definition load_site :: "config_db \<Rightarrow> uuid \<Rightarrow> current_user \<Rightarrow> http_error + site_full" where
  "load_site db = load_owned site_id site_tenant (cd_sites db)"

definition load_device :: "config_db \<Rightarrow> uuid \<Rightarrow> current_user \<Rightarrow> http_error + device_full" where
  "load_device db = load_owned device_id device_tenant (cd_devices db)"

definition load_camera :: "config_db \<Rightarrow> uuid \<Rightarrow> current_user \<Rightarrow> http_error + camera_full" where
  "load_camera db = load_owned cam_id cf_tenant (cd_cameras db)"

definition load_rule :: "config_db \<Rightarrow> uuid \<Rightarrow> current_user \<Rightarrow> http_error + rule_full" where
  "load_rule db = load_owned rf_id rr_tenant (cd_rules db)"

section \<open>Sites\<close>

record site_in =
  si_name :: string
  si_timezone :: string
  si_address :: "string option"

text \<open>A patch says which fields the body holds; \<^const>\<open>None\<close> is an explicit null.\<close>

datatype 'a patch = Absent | Given 'a

fun patched :: "'a \<Rightarrow> 'a patch \<Rightarrow> 'a" where
  "patched x Absent = x"
| "patched x (Given y) = y"

record site_patch =
  sp_name :: "string option patch"
  sp_address :: "string option patch"
  sp_armed :: "bool option patch"

record site_out =
  so_id :: uuid
  so_name :: string
  so_timezone :: string
  so_address :: "string option"
  so_armed :: bool
  so_offline :: bool

definition site_out_of :: "site_full \<Rightarrow> site_out" where
  "site_out_of r = \<lparr>so_id = site_id r, so_name = site_name r, so_timezone = site_tz r, so_address = sf_address r,
     so_armed = site_armed r, so_offline = sf_offline r\<rparr>"

definition site_in_ok :: "config_env \<Rightarrow> site_in \<Rightarrow> bool" where
  "site_in_ok env p \<longleftrightarrow> text_ok 1 200 (si_name p) \<and> py_len (si_timezone p) \<le> 64 \<and>
     opt_text_ok 2000 (si_address p) \<and> ce_zones env (si_timezone p) \<noteq> None"

definition site_patch_ok :: "site_patch \<Rightarrow> bool" where
  "site_patch_ok p \<longleftrightarrow> (case sp_name p of Given (Some s) \<Rightarrow> text_ok 1 200 s | _ \<Rightarrow> True) \<and>
     (case sp_address p of Given a \<Rightarrow> opt_text_ok 2000 a | Absent \<Rightarrow> True)"

definition list_sites :: "config_env \<Rightarrow> current_user \<Rightarrow> config_db \<Rightarrow> http_error + site_out list" where
  "list_sites env u db = bind_err (require SITES_VIEW u) (\<lambda>_.
     Inr (map site_out_of (sort_key (\<lambda>r. ce_collate env (site_name r))
       (filter (\<lambda>r. site_tenant r = cu_tenant u) (cd_sites db)))))"

definition create_site :: "config_env \<Rightarrow> current_user \<Rightarrow> site_in \<Rightarrow> uuid \<Rightarrow> config_db \<Rightarrow> site_out answer" where
  "create_site env u p new db =
    bind_err (require SITES_MANAGE u) (\<lambda>_.
    bind_err (check ''site'' (site_in_ok env p)) (\<lambda>_.
      let row = \<lparr>site_id = new, site_tenant = cu_tenant u, site_name = si_name p, site_tz = si_timezone p,
            site_armed = True, sf_address = si_address p, sf_offline = False\<rparr>
      in bind_err (insert_row site_id row (cd_sites db)) (\<lambda>rows.
           Inr (site_out_of row, db\<lparr>cd_sites := rows\<rparr>))))"

definition get_site :: "current_user \<Rightarrow> uuid \<Rightarrow> config_db \<Rightarrow> http_error + site_out" where
  "get_site u i db = bind_err (require SITES_VIEW u) (\<lambda>_.
     bind_err (load_site db i u) (\<lambda>r. Inr (site_out_of r)))"

text \<open>A null name or a null flag cannot be answered: the response model raises.\<close>

definition update_site :: "current_user \<Rightarrow> uuid \<Rightarrow> site_patch \<Rightarrow> config_db \<Rightarrow> site_out answer" where
  "update_site u i p db =
    bind_err (require SITES_MANAGE u) (\<lambda>_.
    bind_err (check ''site'' (site_patch_ok p)) (\<lambda>_.
    bind_err (load_site db i u) (\<lambda>r.
      case (patched (Some (site_name r)) (sp_name p), patched (Some (site_armed r)) (sp_armed p)) of
        (Some n, Some armed) \<Rightarrow>
          let row = r\<lparr>site_name := n, site_armed := armed, sf_address := patched (sf_address r) (sp_address p)\<rparr>;
              db1 = db\<lparr>cd_sites := update_row site_id i (\<lambda>_. row) (cd_sites db)\<rparr>
          in Inr (site_out_of row, case sp_armed p of
               Given (Some b) \<Rightarrow> write_audit u (if b then ''site_armed'' else ''site_disarmed'') ''site'' i [] db1
             | _ \<Rightarrow> db1)
      | _ \<Rightarrow> Inl Server_error)))"

section \<open>Recorders\<close>

record device_in =
  di_name :: string
  di_vendor :: string
  di_model :: "string option"
  di_firmware :: "string option"
  di_serial :: "string option"
  di_channels :: "int option"

record device_out =
  do_id :: uuid
  do_site :: uuid
  do_name :: string
  do_vendor :: string
  do_model :: "string option"
  do_firmware :: "string option"
  do_serial :: "string option"
  do_channels :: "int option"
  do_commissioned :: "instant option"

definition device_out_of :: "device_full \<Rightarrow> device_out" where
  "device_out_of r = \<lparr>do_id = device_id r, do_site = device_site r, do_name = df_name r, do_vendor = df_vendor r,
     do_model = df_model r, do_firmware = df_firmware r, do_serial = df_serial r, do_channels = df_channels r,
     do_commissioned = df_commissioned r\<rparr>"

definition device_in_ok :: "device_in \<Rightarrow> bool" where
  "device_in_ok p \<longleftrightarrow> text_ok 1 200 (di_name p) \<and> opt_text_ok 100 (di_model p) \<and> opt_text_ok 100 (di_firmware p) \<and>
     opt_text_ok 100 (di_serial p) \<and> (case di_channels p of None \<Rightarrow> True | Some n \<Rightarrow> 1 \<le> n \<and> n \<le> 64) \<and>
     py_len (di_vendor p) \<le> 50"

definition list_devices :: "config_env \<Rightarrow> current_user \<Rightarrow> uuid \<Rightarrow> config_db \<Rightarrow> http_error + device_out list" where
  "list_devices env u site db = bind_err (require DEVICES_VIEW u) (\<lambda>_.
     bind_err (load_site db site u) (\<lambda>_.
     Inr (map device_out_of (sort_key (\<lambda>r. ce_collate env (df_name r))
       (filter (\<lambda>r. device_tenant r = cu_tenant u \<and> device_site r = site) (cd_devices db))))))"

definition create_device :: "current_user \<Rightarrow> uuid \<Rightarrow> device_in \<Rightarrow> uuid \<Rightarrow> config_db \<Rightarrow> device_out answer" where
  "create_device u site p new db =
    bind_err (require DEVICES_MANAGE u) (\<lambda>_.
    bind_err (check ''device'' (device_in_ok p)) (\<lambda>_.
    bind_err (load_site db site u) (\<lambda>_.
      let row = \<lparr>device_id = new, device_tenant = cu_tenant u, device_site = site, device_profile = None,
            df_name = di_name p, df_vendor = di_vendor p, df_model = di_model p, df_firmware = di_firmware p,
            df_serial = di_serial p, df_channels = di_channels p, df_commissioned = None\<rparr>
      in bind_err (insert_row device_id row (cd_devices db)) (\<lambda>rows.
           Inr (device_out_of row, db\<lparr>cd_devices := rows\<rparr>)))))"

definition get_device :: "current_user \<Rightarrow> uuid \<Rightarrow> config_db \<Rightarrow> http_error + device_out" where
  "get_device u i db = bind_err (require DEVICES_VIEW u) (\<lambda>_.
     bind_err (load_device db i u) (\<lambda>r. Inr (device_out_of r)))"

section \<open>Mail accounts\<close>

record account_draw =
  nd_account :: uuid
  nd_password :: string
  nd_suffix :: string
  nd_salt :: string

record smtp_account_out =
  sa_device :: uuid
  sa_username :: string
  sa_password :: string
  sa_recipient :: string

definition base_username :: "uuid \<Rightarrow> string" where
  "base_username dev = ''dev-'' @ take 12 (hex_fixed 32 dev)"

definition active_for :: "uuid \<Rightarrow> account_full \<Rightarrow> bool" where
  "active_for dev a \<longleftrightarrow> ac_device a = dev \<and> ac_active a"

definition retire :: "uuid \<Rightarrow> instant \<Rightarrow> account_full list \<Rightarrow> account_full list" where
  "retire dev now rows = map (\<lambda>a. if active_for dev a then a\<lparr>ac_active := False, af_rotated := Some now\<rparr> else a) rows"

definition new_account :: "config_env \<Rightarrow> device_full \<Rightarrow> string \<Rightarrow> bool \<Rightarrow> account_draw \<Rightarrow> current_user \<Rightarrow> account_full" where
  "new_account env d recipient rotated dr u =
    \<lparr>ac_username = base_username (device_id d) @ (if rotated then ''-'' @ nd_suffix dr else []),
     ac_device = device_id d, ac_active = True, ac_hash = ce_hash env (nd_salt dr) (nd_password dr),
     af_id = nd_account dr, af_tenant = cu_tenant u, af_recipient = recipient, af_rotated = None\<rparr>"

text \<open>Both the identifier and the user name of an account are unique.\<close>

definition insert_account :: "account_full \<Rightarrow> account_full list \<Rightarrow> http_error + account_full list" where
  "insert_account a rows = (if ac_username a \<in> ac_username ` set rows then Inl Server_error else insert_row af_id a rows)"

definition issue_smtp_account :: "config_env \<Rightarrow> current_user \<Rightarrow> uuid \<Rightarrow> string \<Rightarrow> instant \<Rightarrow> account_draw \<Rightarrow> config_db
    \<Rightarrow> smtp_account_out answer" where
  "issue_smtp_account env u i recipient now dr db =
    bind_err (require DEVICES_MANAGE u) (\<lambda>_.
    bind_err (check ''recipient'' (py_len recipient \<le> 320)) (\<lambda>_.
    bind_err (load_device db i u) (\<lambda>d.
      let rotated = (\<exists>a \<in> set (cd_accounts db). active_for i a);
          row = new_account env d recipient rotated dr u
      in bind_err (insert_account row (retire i now (cd_accounts db))) (\<lambda>rows.
         case find (active_for i) rows of
           None \<Rightarrow> Inl Server_error
         | Some issued \<Rightarrow>
             Inr (\<lparr>sa_device = device_id d, sa_username = ac_username issued, sa_password = nd_password dr,
                    sa_recipient = recipient\<rparr>,
               write_audit u (if rotated then ''smtp_account_rotated'' else ''smtp_account_issued'') ''device''
                 (device_id d) [] (db\<lparr>cd_accounts := rows\<rparr>))))))"

section \<open>Cameras and zones\<close>

record camera_in =
  ci_name :: string
  ci_channel :: int
  ci_enabled :: bool
  ci_perimeter :: bool

record camera_patch =
  cp_name :: "string option patch"
  cp_enabled :: "bool option patch"
  cp_perimeter :: "bool option patch"

record camera_out =
  co_id :: uuid
  co_device :: uuid
  co_name :: string
  co_channel :: int
  co_enabled :: bool
  co_perimeter :: bool

definition camera_out_of :: "camera_full \<Rightarrow> camera_out" where
  "camera_out_of r = \<lparr>co_id = cam_id r, co_device = cam_device r, co_name = cam_name r, co_channel = cam_channel r,
     co_enabled = cam_enabled r, co_perimeter = cf_perimeter r\<rparr>"

definition list_cameras :: "current_user \<Rightarrow> uuid \<Rightarrow> config_db \<Rightarrow> http_error + camera_out list" where
  "list_cameras u dev db = bind_err (require DEVICES_VIEW u) (\<lambda>_.
     bind_err (load_device db dev u) (\<lambda>_.
     Inr (map camera_out_of (sort_key cam_channel (filter (\<lambda>r. cam_device r = dev) (cd_cameras db))))))"

text \<open>Any broken constraint, a channel that has a camera or an identifier in use, answers 409.\<close>

definition create_camera :: "current_user \<Rightarrow> uuid \<Rightarrow> camera_in \<Rightarrow> uuid \<Rightarrow> config_db \<Rightarrow> camera_out answer" where
  "create_camera u dev p new db =
    bind_err (require CAMERAS_CONFIGURE u) (\<lambda>_.
    bind_err (check ''camera'' (text_ok 1 200 (ci_name p) \<and> 1 \<le> ci_channel p \<and> ci_channel p \<le> 64)) (\<lambda>_.
    bind_err (load_device db dev u) (\<lambda>d.
      let row = \<lparr>cam_id = new, cam_device = device_id d, cam_name = ci_name p, cam_channel = ci_channel p,
            cam_enabled = ci_enabled p, cf_tenant = cu_tenant u, cf_site = device_site d, cf_perimeter = ci_perimeter p\<rparr>
      in if (cam_device row, cam_channel row) \<in> (\<lambda>c. (cam_device c, cam_channel c)) ` set (cd_cameras db)
            \<or> new \<in> cam_id ` set (cd_cameras db)
         then Inl (Http 409 (''channel '' @ show_int (ci_channel p) @ '' already has a camera''))
         else Inr (camera_out_of row, db\<lparr>cd_cameras := cd_cameras db @ [row]\<rparr>))))"

definition update_camera :: "current_user \<Rightarrow> uuid \<Rightarrow> camera_patch \<Rightarrow> config_db \<Rightarrow> camera_out answer" where
  "update_camera u i p db =
    bind_err (require CAMERAS_CONFIGURE u) (\<lambda>_.
    bind_err (check ''camera'' (case cp_name p of Given (Some s) \<Rightarrow> text_ok 1 200 s | _ \<Rightarrow> True)) (\<lambda>_.
    bind_err (load_camera db i u) (\<lambda>r.
      case (patched (Some (cam_name r)) (cp_name p), patched (Some (cam_enabled r)) (cp_enabled p),
            patched (Some (cf_perimeter r)) (cp_perimeter p)) of
        (Some n, Some e, Some f) \<Rightarrow>
          let row = r\<lparr>cam_name := n, cam_enabled := e, cf_perimeter := f\<rparr>
          in Inr (camera_out_of row, db\<lparr>cd_cameras := update_row cam_id i (\<lambda>_. row) (cd_cameras db)\<rparr>)
      | _ \<Rightarrow> Inl Server_error)))"

record zone_in =
  zi_name :: string
  zi_type :: zone_type
  zi_points :: "(rat \<times> rat) list"

record zone_out =
  zo_id :: uuid
  zo_camera :: uuid
  zo_name :: string
  zo_type :: string
  zo_points :: "(rat \<times> rat) list"

definition zone_out_of :: "zone_full \<Rightarrow> zone_out" where
  "zone_out_of r = \<lparr>zo_id = zf_id r, zo_camera = zr_camera r, zo_name = zr_name r, zo_type = zr_type r,
     zo_points = zr_points r\<rparr>"

definition zone_in_ok :: "zone_in \<Rightarrow> bool" where
  "zone_in_ok p \<longleftrightarrow> text_ok 1 200 (zi_name p) \<and> 3 \<le> length (zi_points p) \<and>
     list_all (\<lambda>(x, y). 0 \<le> x \<and> x \<le> 1 \<and> 0 \<le> y \<and> y \<le> 1) (zi_points p)"

definition list_zones :: "current_user \<Rightarrow> uuid \<Rightarrow> config_db \<Rightarrow> http_error + zone_out list" where
  "list_zones u cam db = bind_err (require SITES_VIEW u) (\<lambda>_.
     bind_err (load_camera db cam u) (\<lambda>_.
     Inr (map zone_out_of (filter (\<lambda>z. zr_camera z = cam) (cd_zones db)))))"

definition new_zone :: "current_user \<Rightarrow> camera_full \<Rightarrow> zone_in \<times> uuid \<Rightarrow> zone_full" where
  "new_zone u c x = \<lparr>zr_camera = cam_id c, zr_name = zi_name (fst x), zr_type = zone_type_value (zi_type (fst x)),
     zr_points = zi_points (fst x), zf_id = snd x, zf_tenant = cu_tenant u\<rparr>"

definition replace_zones :: "current_user \<Rightarrow> uuid \<Rightarrow> zone_in list \<Rightarrow> (nat \<Rightarrow> uuid) \<Rightarrow> config_db \<Rightarrow> zone_out list answer" where
  "replace_zones u i payload ids db =
    bind_err (require ZONES_MANAGE u) (\<lambda>_.
    bind_err (check ''zones'' (list_all zone_in_ok payload)) (\<lambda>_.
    bind_err (load_camera db i u) (\<lambda>c.
      let kept = filter (\<lambda>z. zr_camera z \<noteq> i) (cd_zones db);
          created = map (new_zone u c) (zip payload (map ids [0..<length payload]))
      in bind_err (insert_rows zf_id created kept) (\<lambda>rows.
         Inr (map zone_out_of created,
           write_audit u ''zones_replaced'' ''camera'' (cam_id c) [(''count'', show_nat (length created))]
             (db\<lparr>cd_zones := rows\<rparr>))))))"

record live_handoff =
  lh_serial :: string
  lh_channel :: int

text \<open>Always answered 501, with the hand-off to the vendor's own client.\<close>

definition start_live_session :: "current_user \<Rightarrow> uuid \<Rightarrow> config_db \<Rightarrow> http_error + live_handoff" where
  "start_live_session u i db = bind_err (require SITES_VIEW u) (\<lambda>_.
     bind_err (load_camera db i u) (\<lambda>c.
     Inr \<lparr>lh_serial = (case lookup_row device_id (cam_device c) (cd_devices db) of
            None \<Rightarrow> [] | Some d \<Rightarrow> (case df_serial d of None \<Rightarrow> [] | Some s \<Rightarrow> s)),
          lh_channel = cam_channel c\<rparr>))"

section \<open>Rules\<close>

text \<open>The body of a rule; every field but the name has a default when it is absent.\<close>

record rule_in =
  ri_name :: string
  ri_site :: "uuid option patch"
  ri_enabled :: "bool patch"
  ri_event_types :: "string list patch"
  ri_cameras :: "uuid list patch"
  ri_zones :: "string list patch"
  ri_schedule :: "raw_schedule patch"
  ri_min_confidence :: "rat patch"
  ri_min_severity :: "string patch"
  ri_actions :: "string list patch"
  ri_fallback :: "string patch"
  ri_weights :: "(string \<times> int) list patch"

record rule_out =
  ro_id :: uuid
  ro_site :: "uuid option"
  ro_name :: string
  ro_enabled :: bool
  ro_event_types :: "string list"
  ro_zones :: "string list"
  ro_schedule :: raw_schedule
  ro_min_severity :: "string option"
  ro_actions :: "string list"

definition rule_out_of :: "rule_full \<Rightarrow> rule_out" where
  "rule_out_of r = \<lparr>ro_id = rf_id r, ro_site = rr_site r, ro_name = rr_name r, ro_enabled = rr_enabled r,
     ro_event_types = rr_event_types r, ro_zones = rr_zones r, ro_schedule = rr_schedule r,
     ro_min_severity = rr_min_severity r, ro_actions = rr_actions r\<rparr>"

definition rule_in_ok :: "rule_in \<Rightarrow> bool" where
  "rule_in_ok p \<longleftrightarrow> text_ok 1 200 (ri_name p) \<and>
     (case ri_min_confidence p of Given c \<Rightarrow> 0 \<le> c \<and> c \<le> 1 | Absent \<Rightarrow> True) \<and>
     (case ri_min_severity p of Given s \<Rightarrow> severity_of_value (upper s) \<noteq> None | Absent \<Rightarrow> True)"

definition empty_schedule :: raw_schedule where
  "empty_schedule = \<lparr>raw_timezone = None, raw_start = None, raw_end = None, raw_days = None\<rparr>"

definition default_rule :: "uuid \<Rightarrow> uuid \<Rightarrow> rule_full" where
  "default_rule tenant new = \<lparr>rr_tenant = tenant, rr_site = None, rr_name = [], rr_enabled = True, rr_event_types = [],
     rr_cameras = [], rr_zones = [], rr_schedule = empty_schedule, rr_min_confidence = 0,
     rr_min_severity = Some ''LOW'', rr_actions = [''push'', ''snapshot''], rr_weights = [], rf_id = new,
     rf_fallback = ''ALERT_ON_VENDOR_EVENT''\<rparr>"

definition apply_rule :: "rule_in \<Rightarrow> rule_full \<Rightarrow> rule_full" where
  "apply_rule p r = r\<lparr>rr_name := ri_name p, rr_site := patched (rr_site r) (ri_site p),
     rr_enabled := patched (rr_enabled r) (ri_enabled p), rr_event_types := patched (rr_event_types r) (ri_event_types p),
     rr_cameras := (case ri_cameras p of Given cs \<Rightarrow> map uuid_text cs | Absent \<Rightarrow> rr_cameras r),
     rr_zones := patched (rr_zones r) (ri_zones p), rr_schedule := patched (rr_schedule r) (ri_schedule p),
     rr_min_confidence := patched (rr_min_confidence r) (ri_min_confidence p),
     rr_min_severity := (case ri_min_severity p of Given s \<Rightarrow> Some (upper s) | Absent \<Rightarrow> rr_min_severity r),
     rr_actions := patched (rr_actions r) (ri_actions p), rf_fallback := patched (rf_fallback r) (ri_fallback p),
     rr_weights := patched (rr_weights r) (ri_weights p)\<rparr>"

definition list_rules :: "config_env \<Rightarrow> current_user \<Rightarrow> config_db \<Rightarrow> http_error + rule_out list" where
  "list_rules env u db = bind_err (require SITES_VIEW u) (\<lambda>_.
     Inr (map rule_out_of (sort_key (\<lambda>r. ce_collate env (rr_name r))
       (filter (\<lambda>r. rr_tenant r = cu_tenant u) (cd_rules db)))))"

definition create_rule :: "current_user \<Rightarrow> rule_in \<Rightarrow> uuid \<Rightarrow> config_db \<Rightarrow> rule_out answer" where
  "create_rule u p new db =
    bind_err (require RULES_MANAGE u) (\<lambda>_.
    bind_err (check ''rule'' (rule_in_ok p)) (\<lambda>_.
    bind_err (case ri_site p of Given (Some s) \<Rightarrow> bind_err (load_site db s u) (\<lambda>_. Inr ()) | _ \<Rightarrow> Inr ()) (\<lambda>_.
      let row = apply_rule p (default_rule (cu_tenant u) new)
      in bind_err (insert_row rf_id row (cd_rules db)) (\<lambda>rows.
           Inr (rule_out_of row, db\<lparr>cd_rules := rows\<rparr>)))))"

definition update_rule :: "current_user \<Rightarrow> uuid \<Rightarrow> rule_in \<Rightarrow> config_db \<Rightarrow> rule_out answer" where
  "update_rule u i p db =
    bind_err (require RULES_MANAGE u) (\<lambda>_.
    bind_err (check ''rule'' (rule_in_ok p)) (\<lambda>_.
    bind_err (load_rule db i u) (\<lambda>r.
      let row = apply_rule p r
      in Inr (rule_out_of row, db\<lparr>cd_rules := update_row rf_id i (\<lambda>_. row) (cd_rules db)\<rparr>))))"

definition delete_rule :: "current_user \<Rightarrow> uuid \<Rightarrow> config_db \<Rightarrow> unit answer" where
  "delete_rule u i db =
    bind_err (require RULES_MANAGE u) (\<lambda>_.
    bind_err (load_rule db i u) (\<lambda>r.
      Inr ((), write_audit u ''rule_deleted'' ''rule'' i [(''name'', rr_name r)]
        (db\<lparr>cd_rules := filter (\<lambda>q. rf_id q \<noteq> i) (cd_rules db)\<rparr>))))"

section \<open>Phones\<close>

record push_out =
  po_id :: uuid
  po_platform :: string
  po_seen :: "instant option"

definition push_out_of :: "push_full \<Rightarrow> push_out" where
  "push_out_of r = \<lparr>po_id = pd_id r, po_platform = pd_platform r, po_seen = pf_seen r\<rparr>"

text \<open>A token another account registered moves to the caller.\<close>

definition register_push_device :: "current_user \<Rightarrow> string \<Rightarrow> string \<Rightarrow> uuid \<Rightarrow> instant \<Rightarrow> config_db \<Rightarrow> push_out answer" where
  "register_push_device u platform token new now db =
    bind_err (check ''phone'' ((platform = ''ios'' \<or> platform = ''android'') \<and> text_ok 10 512 token)) (\<lambda>_.
      case lookup_row pd_token token (cd_push db) of
        Some r \<Rightarrow>
          let row = r\<lparr>pd_user := cu_user u, pd_tenant := cu_tenant u, pd_platform := platform, pf_seen := Some now\<rparr>
          in Inr (push_out_of row, db\<lparr>cd_push := update_row pd_token token (\<lambda>_. row) (cd_push db)\<rparr>)
      | None \<Rightarrow>
          let row = \<lparr>pd_id = new, pd_tenant = cu_tenant u, pd_user = cu_user u, pd_platform = platform,
                pd_token = token, pf_seen = Some now\<rparr>
          in bind_err (insert_row pd_id row (cd_push db)) (\<lambda>rows. Inr (push_out_of row, db\<lparr>cd_push := rows\<rparr>)))"

definition unregister_push_device :: "current_user \<Rightarrow> uuid \<Rightarrow> config_db \<Rightarrow> unit answer" where
  "unregister_push_device u i db =
    bind_err (load_owned pd_id pd_tenant (cd_push db) i u) (\<lambda>r.
      if pd_user r \<noteq> cu_user u then Inl (Http 404 ''not found'')
      else Inr ((), db\<lparr>cd_push := filter (\<lambda>q. pd_id q \<noteq> i) (cd_push db)\<rparr>))"

section \<open>Commissioning checks\<close>

record message_full = email_message +
  em_received :: instant

record sample_full = email_sample +
  es_firmware :: "string option"
  es_captured :: instant

record inbox =
  ib_messages :: "message_full list"
  ib_samples :: "sample_full list"
  ib_events :: "event_row list"
  ib_media :: "media_asset list"
  ib_silence :: "silence_row list"

record sample_out =
  eo_sample :: uuid
  eo_profile :: string
  eo_firmware :: "string option"
  eo_captured :: instant
  eo_size :: nat
  eo_raw :: "string option"

text \<open>\<open>b64\<close> is the base64 encoder.\<close>

definition list_email_samples :: "(string \<Rightarrow> string) \<Rightarrow> current_user \<Rightarrow> uuid \<Rightarrow> int \<Rightarrow> bool \<Rightarrow> config_db \<Rightarrow> inbox
    \<Rightarrow> http_error + sample_out list" where
  "list_email_samples b64 u dev limit include_raw db ib =
    bind_err (require DEVICES_MANAGE u) (\<lambda>_.
    bind_err (check ''limit'' (1 \<le> limit \<and> limit \<le> 50)) (\<lambda>_.
    bind_err (load_device db dev u) (\<lambda>_.
      Inr (map (\<lambda>r. \<lparr>eo_sample = es_id r, eo_profile = es_profile r, eo_firmware = es_firmware r,
             eo_captured = es_captured r, eo_size = length (es_raw r),
             eo_raw = (if include_raw then Some (b64 (es_raw r)) else None)\<rparr>)
        (take (nat limit) (sort_key (\<lambda>r. - es_captured r) (filter (\<lambda>r. es_device r = dev) (ib_samples ib))))))))"

datatype test_detail = Nothing_received int | No_event | Parsed | Parsed_partially

record test_alarm_out =
  ta_verified :: bool
  ta_detail :: test_detail
  ta_message :: "string option"
  ta_received :: "instant option"
  ta_type :: "string option"
  ta_channel :: "int option"
  ta_snapshot :: bool
  ta_status :: "string option"
  ta_warnings :: "string list"

definition latest_message :: "uuid \<Rightarrow> instant \<Rightarrow> message_full list \<Rightarrow> message_full option" where
  "latest_message dev cutoff rows =
    (case sort_key (\<lambda>r. - em_received r) (filter (\<lambda>r. em_device r = dev \<and> cutoff \<le> em_received r) rows) of
       [] \<Rightarrow> None | m # _ \<Rightarrow> Some m)"

definition verify_test_alarm :: "current_user \<Rightarrow> uuid \<Rightarrow> int \<Rightarrow> instant \<Rightarrow> config_db \<Rightarrow> inbox \<Rightarrow> http_error + test_alarm_out" where
  "verify_test_alarm u dev mins now db ib =
    bind_err (require DEVICES_MANAGE u) (\<lambda>_.
    bind_err (check ''within_minutes'' (1 \<le> mins \<and> mins \<le> 120)) (\<lambda>_.
    bind_err (load_device db dev u) (\<lambda>_.
      case latest_message dev (now - mins * minute) (ib_messages ib) of
        None \<Rightarrow> Inr \<lparr>ta_verified = False, ta_detail = Nothing_received mins, ta_message = None, ta_received = None,
          ta_type = None, ta_channel = None, ta_snapshot = False, ta_status = None, ta_warnings = []\<rparr>
      | Some m \<Rightarrow> (case lookup_row ev_message (Some (em_message_id m)) (ib_events ib) of
          None \<Rightarrow> Inr \<lparr>ta_verified = False, ta_detail = No_event, ta_message = Some (em_message_id m),
            ta_received = Some (em_received m), ta_type = None, ta_channel = None, ta_snapshot = False,
            ta_status = Some (em_status m), ta_warnings = em_warnings m\<rparr>
        | Some e \<Rightarrow>
            let ok = (ev_channel e \<noteq> None \<and> ev_parse_status e = ''PARSED'')
            in Inr \<lparr>ta_verified = ok, ta_detail = (if ok then Parsed else Parsed_partially),
                 ta_message = Some (em_message_id m), ta_received = Some (em_received m), ta_type = Some (ev_type e),
                 ta_channel = ev_channel e, ta_snapshot = (\<exists>a \<in> set (ib_media ib). ma_event a = ev_id e),
                 ta_status = Some (ev_parse_status e), ta_warnings = em_warnings m\<rparr>))))"

record silence_out =
  sl_device :: uuid
  sl_state :: string
  sl_last :: "instant option"
  sl_silent_seconds :: "int option"
  sl_interval :: int
  sl_relevant :: bool
  sl_reason :: string

text \<open>\<^verbatim>\<open>int(total_seconds())\<close> truncates toward zero, and a duration of zero is falsy.\<close>

definition silent_seconds :: "duration option \<Rightarrow> int option" where
  "silent_seconds x = (case x of None \<Rightarrow> None
     | Some d \<Rightarrow> if d = 0 then None else Some (if 0 \<le> d then d div second else - (- d div second)))"

definition get_silence_state :: "config_env \<Rightarrow> current_user \<Rightarrow> uuid \<Rightarrow> instant \<Rightarrow> config_db \<Rightarrow> inbox
    \<Rightarrow> http_error + silence_out" where
  "get_silence_state env u dev now db ib =
    bind_err (require DEVICES_VIEW u) (\<lambda>_.
    bind_err (load_device db dev u) (\<lambda>d.
      let tz = (case lookup_row site_id (device_site d) (cd_sites db) of None \<Rightarrow> ''Europe/Istanbul'' | Some s \<Rightarrow> site_tz s);
          row = lookup_row si_device dev (ib_silence ib);
          config = default_config\<lparr>expected_interval_seconds :=
            (case row of None \<Rightarrow> default_interval | Some r \<Rightarrow> si_interval r)\<rparr>;
          last = (case row of None \<Rightarrow> None | Some r \<Rightarrow> si_last_message r)
      in case evaluate_silence (ce_zones env) last now (Some config) tz (clock 19 0) (clock 6 0) of
           Inl _ \<Rightarrow> Inl Server_error
         | Inr v \<Rightarrow> Inr \<lparr>sl_device = dev, sl_state = silence_value (verdict_state v), sl_last = last,
             sl_silent_seconds = silent_seconds (silent_for v), sl_interval = expected_interval_seconds config,
             sl_relevant = security_relevant v, sl_reason = verdict_reason v\<rparr>))"

end
