(* ===== verification/Analytics.thy ===== *)
theory Analytics
  imports Commissioning
begin

text \<open>
  The pilot's numbers, \<^verbatim>\<open>backend/app/modules/analytics/router.py\<close>.  The aggregates the
  database computes are written out; its percentile and its calendar day are the environment's, and
  rates are exact rationals before they are rounded.
\<close>

section \<open>Tables and answers\<close>

record media_full = media_asset +
  ma_created :: instant

record delivery_full = alarm_delivery +
  ad_created :: instant

record analytics_db =
  an_events :: "event_row list"
  an_alarms :: "alarm_row list"
  an_messages :: "message_full list"
  an_media :: "media_full list"
  an_deliveries :: "delivery_full list"
  an_silence :: "silence_row list"

text \<open>\<open>ae_percentile p xs\<close> is \<^verbatim>\<open>percentile_cont(p)\<close> of the non-null values \<open>xs\<close>.\<close>

record analytics_env =
  ae_percentile :: "rat \<Rightarrow> rat list \<Rightarrow> rat option"
  ae_day :: "instant \<Rightarrow> int"

record volume_out =
  vo_events :: nat
  vo_alarms :: nat
  vo_duplicates :: int
  vo_messages :: nat
  vo_media :: nat
  vo_bytes :: nat
  vo_attachment_rate :: "rat option"

record quality_out =
  qo_resolved :: nat
  qo_true :: nat
  qo_false :: nat
  qo_false_rate :: "rat option"
  qo_by_code :: "(string \<times> nat) list"
  qo_unresolved :: nat

record response_out =
  re_acked :: nat
  re_never :: nat
  re_ack_p50 :: "rat option"
  re_ack_p95 :: "rat option"
  re_resolve_p50 :: "rat option"
  re_escalated :: nat

record delivery_out =
  dv_attempts :: nat
  dv_sent :: nat
  dv_failed :: nat
  dv_pruned :: nat
  dv_rate :: "rat option"
  dv_p50 :: "rat option"
  dv_p95 :: "rat option"

record health_out =
  he_silent_events :: nat
  he_offline_events :: nat
  he_silent :: nat
  he_never_seen :: nat

record summary_out =
  su_days :: int
  su_since :: instant
  su_until :: instant
  su_volume :: volume_out
  su_quality :: quality_out
  su_response :: response_out
  su_delivery :: delivery_out
  su_health :: health_out

record daily_point =
  dp_day :: int
  dp_events :: nat
  dp_alarms :: nat
  dp_true :: nat
  dp_false :: nat

section \<open>Arithmetic\<close>

definition ratio :: "nat \<Rightarrow> nat \<Rightarrow> rat option" where
  "ratio part whole = (if whole = 0 then None else Some (round_to 4 (of_nat part / of_nat whole)))"

definition as_seconds :: "rat option \<Rightarrow> rat option" where
  "as_seconds = map_option (round_to 2)"

definition epoch :: "instant \<Rightarrow> instant \<Rightarrow> rat" where
  "epoch later earlier = of_int (later - earlier) / 1000000"

definition at_site :: "uuid option \<Rightarrow> uuid \<Rightarrow> bool" where
  "at_site site s \<longleftrightarrow> (case site of None \<Rightarrow> True | Some x \<Rightarrow> s = x)"

section \<open>Sections\<close>

definition window_events :: "uuid \<Rightarrow> instant \<Rightarrow> uuid option \<Rightarrow> analytics_db \<Rightarrow> event_row list" where
  "window_events t since site db =
    filter (\<lambda>e. ev_tenant e = t \<and> since \<le> ev_occurred e \<and> at_site site (ev_site e)) (an_events db)"

definition window_alarms :: "uuid \<Rightarrow> instant \<Rightarrow> uuid option \<Rightarrow> analytics_db \<Rightarrow> alarm_row list" where
  "window_alarms t since site db =
    filter (\<lambda>a. al_tenant a = t \<and> since \<le> al_opened a \<and> at_site site (al_site a)) (an_alarms db)"

text \<open>Only the events are restricted to the site.\<close>

definition volume :: "uuid \<Rightarrow> instant \<Rightarrow> uuid option \<Rightarrow> analytics_db \<Rightarrow> volume_out" where
  "volume t since site db =
    (let es = window_events t since site db;
         ms = filter (\<lambda>m. ma_tenant m = t \<and> since \<le> ma_created m) (an_media db)
     in \<lparr>vo_events = length es, vo_alarms = length (window_alarms t since None db),
         vo_duplicates = sum_list (map (\<lambda>e. ev_count e - 1) es),
         vo_messages = length (filter (\<lambda>m. em_tenant m = t \<and> since \<le> em_received m) (an_messages db)),
         vo_media = length ms, vo_bytes = sum_list (map ma_size ms),
         vo_attachment_rate = ratio (length ms) (length es)\<rparr>)"

definition all_resolutions :: "resolution_code list" where
  "all_resolutions = [RC_TRUE_SECURITY_INCIDENT, RC_SUSPICIOUS_ACTIVITY, RC_AUTHORIZED_PERSON, RC_FALSE_POSITIVE,
     RC_ANIMAL, RC_WEATHER, RC_LIGHT_CHANGE, RC_MAINTENANCE, RC_CAMERA_ERROR, RC_OTHER]"

definition code_of :: "string \<Rightarrow> http_error + resolution_code" where
  "code_of s = (case find (\<lambda>c. resolution_value c = s) all_resolutions of
     None \<Rightarrow> Inl Server_error | Some c \<Rightarrow> Inr c)"

text \<open>An empty code counts as none; an unknown one raises.\<close>

fun coded :: "(string option \<times> nat) list \<Rightarrow> (string \<times> nat) list" where
  "coded [] = []"
| "coded ((c, n) # gs) = (case c of None \<Rightarrow> coded gs | Some s \<Rightarrow> if s = [] then coded gs else (s, n) # coded gs)"

definition uncoded :: "(string option \<times> nat) list \<Rightarrow> nat" where
  "uncoded gs = sum_list (map snd (filter (\<lambda>(c, _). c = None \<or> c = Some []) gs))"

definition quality :: "uuid \<Rightarrow> instant \<Rightarrow> uuid option \<Rightarrow> analytics_db \<Rightarrow> http_error + quality_out" where
  "quality t since site db =
    (let rows = count_by al_resolution (window_alarms t since site db);
         by_code = coded rows;
         unresolved = uncoded rows;
         resolved = sum_list (map snd by_code);
         false_n = count_of by_code (resolution_value RC_FALSE_POSITIVE)
     in bind_err (map_err (\<lambda>(s, n). bind_err (code_of s) (\<lambda>c. Inr (if is_true_positive c then n else 0))) by_code) (\<lambda>trues.
        Inr \<lparr>qo_resolved = resolved, qo_true = sum_list trues, qo_false = false_n,
             qo_false_rate = ratio false_n resolved, qo_by_code = by_code, qo_unresolved = unresolved\<rparr>))"

definition response :: "analytics_env \<Rightarrow> uuid \<Rightarrow> instant \<Rightarrow> uuid option \<Rightarrow> analytics_db \<Rightarrow> response_out" where
  "response env t since site db =
    (let as = window_alarms t since site db;
         acks = List.map_filter (\<lambda>a. map_option (\<lambda>x. epoch x (al_opened a)) (al_acked_at a)) as;
         closes = List.map_filter (\<lambda>a. map_option (\<lambda>x. epoch x (al_opened a)) (al_resolved_at a)) as
     in \<lparr>re_acked = length (filter (\<lambda>a. al_acked_at a \<noteq> None) as),
         re_never = length (filter (\<lambda>a. al_acked_at a = None) as),
         re_ack_p50 = as_seconds (ae_percentile env (1/2) acks),
         re_ack_p95 = as_seconds (ae_percentile env (19/20) acks),
         re_resolve_p50 = as_seconds (ae_percentile env (1/2) closes),
         re_escalated = length (remdups (map ad_alarm (filter (\<lambda>d. ad_tenant d = t \<and> 0 < ad_step d \<and> since \<le> ad_created d)
           (an_deliveries db))))\<rparr>)"

text \<open>The mails behind a delivery: joined over the alarm, its event and the message identifier alone.\<close>

definition mails_behind :: "analytics_db \<Rightarrow> delivery_full \<Rightarrow> message_full list" where
  "mails_behind db d = concat (map (\<lambda>a. concat (map (\<lambda>e.
       filter (\<lambda>m. Some (em_message_id m) = ev_message e) (an_messages db))
     (filter (\<lambda>e. ev_id e = al_event a) (an_events db))))
     (filter (\<lambda>a. al_id a = ad_alarm d) (an_alarms db)))"

definition latencies :: "uuid \<Rightarrow> instant \<Rightarrow> analytics_db \<Rightarrow> rat list" where
  "latencies t since db = concat (map (\<lambda>d. case ad_sent_at d of
       None \<Rightarrow> [] | Some s \<Rightarrow> map (\<lambda>m. epoch s (em_received m)) (mails_behind db d))
     (filter (\<lambda>d. ad_tenant d = t \<and> since \<le> ad_created d) (an_deliveries db)))"

definition delivery :: "analytics_env \<Rightarrow> uuid \<Rightarrow> instant \<Rightarrow> analytics_db \<Rightarrow> delivery_out" where
  "delivery env t since db =
    (let by_status = count_by ad_status (filter (\<lambda>d. ad_tenant d = t \<and> since \<le> ad_created d) (an_deliveries db));
         attempts = sum_list (map snd by_status);
         sent = count_of by_status ''SENT''
     in \<lparr>dv_attempts = attempts, dv_sent = sent, dv_failed = count_of by_status ''FAILED'',
         dv_pruned = count_of by_status ''UNREGISTERED'', dv_rate = ratio sent attempts,
         dv_p50 = as_seconds (ae_percentile env (1/2) (latencies t since db)),
         dv_p95 = as_seconds (ae_percentile env (19/20) (latencies t since db))\<rparr>)"

definition health :: "uuid \<Rightarrow> instant \<Rightarrow> uuid option \<Rightarrow> analytics_db \<Rightarrow> health_out" where
  "health t since site db =
    (let by_type = count_by ev_type (filter (\<lambda>e. ev_type e = ''device_silent'' \<or> ev_type e = ''site_offline'')
           (window_events t since site db));
         states = count_by si_state (filter (\<lambda>s. si_tenant s = t) (an_silence db))
     in \<lparr>he_silent_events = count_of by_type ''device_silent'', he_offline_events = count_of by_type ''site_offline'',
         he_silent = count_of states ''SILENT'', he_never_seen = count_of states ''NEVER_SEEN''\<rparr>)"

section \<open>Endpoints\<close>

definition max_window_days :: int where
  "max_window_days = 90"

definition days_ok :: "int \<Rightarrow> bool" where
  "days_ok n \<longleftrightarrow> 1 \<le> n \<and> n \<le> max_window_days"

definition summary :: "analytics_env \<Rightarrow> current_user \<Rightarrow> int \<Rightarrow> uuid option \<Rightarrow> instant \<Rightarrow> analytics_db \<Rightarrow> http_error + summary_out" where
  "summary env u days site now db =
    bind_err (require ANALYTICS_VIEW u) (\<lambda>_.
    bind_err (check ''days'' (days_ok days)) (\<lambda>_.
      let since = now - days * day; t = cu_tenant u
      in bind_err (quality t since site db) (\<lambda>q.
         Inr \<lparr>su_days = days, su_since = since, su_until = now, su_volume = volume t since site db, su_quality = q,
              su_response = response env t since site db, su_delivery = delivery env t since db,
              su_health = health t since site db\<rparr>)))"

text \<open>One row per event and alarm of it, or one for an event without an alarm.\<close>

definition joined :: "uuid \<Rightarrow> instant \<Rightarrow> uuid option \<Rightarrow> analytics_db \<Rightarrow> (event_row \<times> alarm_row option) list" where
  "joined t since site db = concat (map (\<lambda>e.
      let as = filter (\<lambda>a. al_event a = ev_id e) (an_alarms db)
      in if as = [] then [(e, None)] else map (\<lambda>a. (e, Some a)) as)
    (window_events t since site db))"

definition true_codes :: "string list" where
  "true_codes = map resolution_value (filter is_true_positive all_resolutions)"

definition daily :: "analytics_env \<Rightarrow> current_user \<Rightarrow> int \<Rightarrow> uuid option \<Rightarrow> instant \<Rightarrow> analytics_db \<Rightarrow> http_error + daily_point list" where
  "daily env u days site now db =
    bind_err (require ANALYTICS_VIEW u) (\<lambda>_.
    bind_err (check ''days'' (days_ok days)) (\<lambda>_.
      let rows = joined (cu_tenant u) (now - days * day) site db;
          on = (\<lambda>k. filter (\<lambda>(e, _). ae_day env (ev_occurred e) = k) rows);
          alarms_of = (\<lambda>k. List.map_filter snd (on k))
      in Inr (map (\<lambda>k. \<lparr>dp_day = k, dp_events = length (on k), dp_alarms = length (alarms_of k),
             dp_true = length (filter (\<lambda>a. \<exists>c. al_resolution a = Some c \<and> c \<in> set true_codes) (alarms_of k)),
             dp_false = length (filter (\<lambda>a. al_resolution a = Some (resolution_value RC_FALSE_POSITIVE)) (alarms_of k))\<rparr>)
           (sort (remdups (map (\<lambda>(e, _). ae_day env (ev_occurred e)) rows))))))"

section \<open>Counts and rates\<close>

text \<open>Sums over some of the groups.\<close>

lemma groups_below: "sum_list (map snd (filter P gs)) + sum_list (map snd (filter (\<lambda>g. \<not> P g) gs)) = sum_list (map snd gs)"
  for gs :: "('k \<times> nat) list"
  by (induction gs) auto

lemma counts_below:
  assumes "distinct (map fst gs)" and "distinct ks"
  shows "(\<Sum>k\<leftarrow>ks. count_of gs k) \<le> sum_list (map snd gs)"
  using assms
proof (induction gs arbitrary: ks)
  case Nil
  then show ?case by (simp add: count_of_def)
next
  case (Cons g gs)
  obtain a n where g: "g = (a, n)" by (cases g)
  have fresh: "map_of gs a = None" using Cons.prems(1) by (auto simp: g map_of_eq_None_iff)
  have "(\<Sum>k\<leftarrow>ks. count_of (g # gs) k) \<le> n + (\<Sum>k\<leftarrow>ks. count_of gs k)"
    using Cons.prems(2)
  proof (induction ks)
    case (Cons k ks)
    have "(\<Sum>k\<leftarrow>ks. count_of (g # gs) k) = (\<Sum>k\<leftarrow>ks. count_of gs k)" if "a \<notin> set ks"
      using that by (induction ks) (auto simp: g count_of_def)
    with Cons show ?case by (cases "k = a") (auto simp: g count_of_def fresh)
  qed simp
  with Cons.IH [of ks] Cons.prems show ?case by (simp add: g)
qed

lemma ratio_unit: "part \<le> whole \<Longrightarrow> ratio part whole = Some r \<Longrightarrow> 0 \<le> r \<and> r \<le> 1"
proof -
  assume le: "part \<le> whole" and r: "ratio part whole = Some r"
  then have pos: "0 < whole" by (cases whole) (simp_all add: ratio_def)
  let ?x = "of_nat part / of_nat whole * 10 ^ 4 :: rat"
  have "of_int 0 \<le> ?x" "?x \<le> of_int 10000" using le pos by (simp_all add: divide_le_eq)
  from round_even_between [OF this] have "0 \<le> round_even ?x" "round_even ?x \<le> 10000" by simp_all
  moreover have "r = of_int (round_even ?x) / 10000" using r pos by (simp add: ratio_def round_to_def split: if_splits)
  ultimately show ?thesis by simp
qed

section \<open>Properties\<close>

lemma known_codes: "map_err (\<lambda>(s, n). bind_err (code_of s) (\<lambda>c. Inr (if is_true_positive c then n else 0))) gs = Inr trues \<Longrightarrow>
    sum_list trues + count_of gs (resolution_value RC_FALSE_POSITIVE) \<le> sum_list (map snd gs)"
  if "distinct (map fst gs)"
  using that
proof (induction gs arbitrary: trues)
  case (Cons g gs)
  obtain s n where g: "g = (s, n)" by (cases g)
  from Cons.prems(1) obtain c ts where c: "code_of s = Inr c" and ts: "trues = (if is_true_positive c then n else 0) # ts"
    and rest: "map_err (\<lambda>(s, n). bind_err (code_of s) (\<lambda>c. Inr (if is_true_positive c then n else 0))) gs = Inr ts"
    by (auto simp: g bind_err_Inr_iff)
  have IH: "sum_list ts + count_of gs (resolution_value RC_FALSE_POSITIVE) \<le> sum_list (map snd gs)"
    using Cons.IH [OF rest] Cons.prems(2) by simp
  have sc: "s = resolution_value c" using c by (auto simp: code_of_def find_Some_iff split: option.splits)
  show ?case
  proof (cases "s = resolution_value RC_FALSE_POSITIVE")
    case True
    then have "c = RC_FALSE_POSITIVE" using sc by (cases c) simp_all
    moreover have "map_of gs s = None" using Cons.prems(2) by (simp add: g map_of_eq_None_iff)
    then have "count_of gs s = 0" by (simp add: count_of_def)
    ultimately show ?thesis using IH True by (simp add: g ts is_true_positive_def count_of_def)
  next
    case False
    then show ?thesis using IH by (simp add: g ts count_of_def)
  qed
qed (simp add: count_of_def)

lemma coded_total: "sum_list (map snd (coded gs)) + uncoded gs = sum_list (map snd gs)"
  by (induction gs rule: coded.induct) (auto simp: uncoded_def split: option.splits)

lemma coded_keys: "s \<in> fst ` set (coded gs) \<Longrightarrow> Some s \<in> fst ` set gs"
  by (induction gs rule: coded.induct) (auto split: option.splits if_splits)

lemma coded_distinct: "distinct (map fst gs) \<Longrightarrow> distinct (map fst (coded gs))"
proof (induction gs rule: coded.induct)
  case (2 c n gs)
  then have IH: "distinct (map fst (coded gs))" by (cases c) (auto split: if_splits)
  have "s \<notin> fst ` set (coded gs)" if "c = Some s" for s using 2(4) coded_keys [of s gs] that by auto
  with IH show ?case by (auto split: option.split)
qed simp

lemma summary_adds_up_facts:
  assumes "summary env u days site now db = Inr s"
  shows "qo_resolved (su_quality s) + qo_unresolved (su_quality s) =
      length (window_alarms (cu_tenant u) (now - days * day) site db)"
    and "re_acked (su_response s) + re_never (su_response s) =
      length (window_alarms (cu_tenant u) (now - days * day) site db)"
    and "qo_true (su_quality s) + qo_false (su_quality s) \<le> qo_resolved (su_quality s)"
    and "dv_sent (su_delivery s) + dv_failed (su_delivery s) + dv_pruned (su_delivery s) \<le> dv_attempts (su_delivery s)"
    and "qo_false_rate (su_quality s) = Some r \<Longrightarrow> 0 \<le> r \<and> r \<le> 1"
    and "dv_rate (su_delivery s) = Some r \<Longrightarrow> 0 \<le> r \<and> r \<le> 1"
proof -
  let ?as = "window_alarms (cu_tenant u) (now - days * day) site db"
  let ?rows = "count_by al_resolution ?as"
  let ?codes = "coded ?rows"
  from assms have q: "quality (cu_tenant u) (now - days * day) site db = Inr (su_quality s)"
    and re: "su_response s = response env (cu_tenant u) (now - days * day) site db"
    and dv: "su_delivery s = delivery env (cu_tenant u) (now - days * day) db"
    by (auto simp: summary_def bind_err_Inr_iff Let_def)
  from q obtain trues where t: "map_err (\<lambda>(s, n). bind_err (code_of s) (\<lambda>c. Inr (if is_true_positive c then n else 0))) ?codes = Inr trues"
    and qs: "qo_resolved (su_quality s) = sum_list (map snd ?codes)" "qo_true (su_quality s) = sum_list trues"
      "qo_false (su_quality s) = count_of ?codes (resolution_value RC_FALSE_POSITIVE)"
      "qo_unresolved (su_quality s) = uncoded ?rows"
      "qo_false_rate (su_quality s) = ratio (qo_false (su_quality s)) (qo_resolved (su_quality s))"
    unfolding quality_def Let_def bind_err_Inr_iff by (elim exE conjE) (simp only: sum.inject, metis quality_out.simps)
  show "qo_resolved (su_quality s) + qo_unresolved (su_quality s) = length ?as"
    using coded_total [of ?rows] count_by_total [of al_resolution ?as] unfolding qs(1,4) by (rule trans)
  show "re_acked (su_response s) + re_never (su_response s) = length ?as"
    using sum_length_filter_compl [of "\<lambda>a. al_acked_at a \<noteq> None" ?as] by (simp add: re response_def Let_def)
  show tf: "qo_true (su_quality s) + qo_false (su_quality s) \<le> qo_resolved (su_quality s)"
    using known_codes [OF coded_distinct [OF count_by_keys] t] unfolding qs .
  show "qo_false_rate (su_quality s) = Some r \<Longrightarrow> 0 \<le> r \<and> r \<le> 1"
    using ratio_unit [of "qo_false (su_quality s)" "qo_resolved (su_quality s)" r] tf qs(5) by simp
  let ?st = "count_by ad_status (filter (\<lambda>d. ad_tenant d = cu_tenant u \<and> now - days * day \<le> ad_created d) (an_deliveries db))"
  have "(\<Sum>k\<leftarrow>[''SENT'', ''FAILED'', ''UNREGISTERED'']. count_of ?st k) \<le> sum_list (map snd ?st)"
    by (rule counts_below [OF count_by_keys]) simp
  then have three: "count_of ?st ''SENT'' + count_of ?st ''FAILED'' + count_of ?st ''UNREGISTERED'' \<le> sum_list (map snd ?st)" by simp
  have d: "dv_sent (su_delivery s) = count_of ?st ''SENT''" "dv_failed (su_delivery s) = count_of ?st ''FAILED''"
    "dv_pruned (su_delivery s) = count_of ?st ''UNREGISTERED''" "dv_attempts (su_delivery s) = sum_list (map snd ?st)"
    "dv_rate (su_delivery s) = ratio (count_of ?st ''SENT'') (sum_list (map snd ?st))"
    unfolding dv delivery_def Let_def by simp_all
  show "dv_sent (su_delivery s) + dv_failed (su_delivery s) + dv_pruned (su_delivery s) \<le> dv_attempts (su_delivery s)"
    using three unfolding d .
  show "dv_rate (su_delivery s) = Some r \<Longrightarrow> 0 \<le> r \<and> r \<le> 1"
    using ratio_unit [of "count_of ?st ''SENT''" "sum_list (map snd ?st)" r] three unfolding d by simp
qed

text \<open>
  In every summary the resolved and the unresolved alarms are all alarms of the window, and so are
  the acknowledged and the unacknowledged; true and false positives are among the resolved, sent,
  failed and pruned deliveries among the attempts, and the two rates lie between 0 and 1.
\<close>

theorem summary_adds_up:
  assumes "summary env u days site now db = Inr s"
  shows "(qo_resolved (su_quality s) + qo_unresolved (su_quality s) =
      length (window_alarms (cu_tenant u) (now - days * day) site db)) \<and>
    (re_acked (su_response s) + re_never (su_response s) =
      length (window_alarms (cu_tenant u) (now - days * day) site db)) \<and>
    (qo_true (su_quality s) + qo_false (su_quality s) \<le> qo_resolved (su_quality s)) \<and>
    (dv_sent (su_delivery s) + dv_failed (su_delivery s) + dv_pruned (su_delivery s) \<le> dv_attempts (su_delivery s)) \<and>
    ((qo_false_rate (su_quality s) = Some r) \<longrightarrow>
      0 \<le> r \<and> r \<le> 1) \<and>
    ((dv_rate (su_delivery s) = Some r) \<longrightarrow>
      0 \<le> r \<and> r \<le> 1)"
  by (intro conjI impI; ((rule summary_adds_up_facts [OF assms]; assumption)+ | use summary_adds_up_facts [OF assms] in blast))

text \<open>What a burst of the same sighting becomes.\<close>

fun burst :: "dedup_window \<Rightarrow> string \<Rightarrow> instant list \<Rightarrow> int list" where
  "burst w key [] = []"
| "burst w key (t # ts) = (case Windows.check w key t None of (d, w') \<Rightarrow> total_in_window d # burst w' key ts)"

lemma burst_counts:
  assumes "map_of (dedup_entries w) key = Some e" and "\<forall>t \<in> set ts. t - first_seen_at e < effective_window w None"
  shows "burst w key ts = map (\<lambda>k. occurrences e + 1 + int k) [0..<length ts]"
  using assms
proof (induction ts arbitrary: w e)
  case (Cons t ts)
  let ?e = "e\<lparr>occurrences := occurrences e + 1, last_seen := max (last_seen e) t\<rparr>"
  let ?w = "w\<lparr>dedup_entries := dict_set key ?e (dedup_entries w)\<rparr>"
  have check: "total_in_window (fst (Windows.check w key t None)) = occurrences e + 1" "snd (Windows.check w key t None) = ?w"
    using Cons.prems by (auto simp: Windows.check_def Let_def)
  have "burst ?w key ts = map (\<lambda>k. occurrences ?e + 1 + int k) [0..<length ts]"
    by (rule Cons.IH) (use Cons.prems in \<open>auto simp: effective_window_def\<close>)
  then show ?case using check by (simp add: case_prod_unfold map_upt_Suc add.assoc add.commute del: upt_Suc)
qed simp

lemma burst_from_nothing:
  assumes "map_of (dedup_entries w) key = None" and "0 < window_seconds w" and "\<forall>t \<in> set ts. t - t0 < seconds (window_seconds w)"
  shows "burst w key (t0 # ts) = map (\<lambda>k. 1 + int k) [0..<Suc (length ts)]"
proof -
  let ?e = "\<lparr>first_seen_at = t0, last_seen = t0, occurrences = 1\<rparr>"
  let ?w = "w\<lparr>dedup_entries := dict_set key ?e (dedup_entries w)\<rparr>"
  have check: "total_in_window (fst (Windows.check w key t0 None)) = 1" "snd (Windows.check w key t0 None) = ?w"
    using assms(1) by (simp_all add: Windows.check_def Let_def)
  have "burst ?w key ts = map (\<lambda>k. occurrences ?e + 1 + int k) [0..<length ts]"
    by (rule burst_counts) (use assms in \<open>simp_all add: effective_window_def\<close>)
  with check show ?thesis by (simp add: case_prod_unfold map_upt_Suc del: upt_Suc)
qed

lemma sum_upto: "2 * (\<Sum>k\<leftarrow>[0..<Suc n]. int k) = int n * (int n + 1)"
  by (induction n) (simp_all add: algebra_simps)

lemma repeats_are_counted_twice_facts:
  assumes "map_of (dedup_entries w) key = None" and "0 < window_seconds w" and "\<forall>t \<in> set ts. t - t0 < seconds (window_seconds w)"
    and "map ev_count (window_events t since site db) = burst w key (t0 # ts)"
  shows "vo_events (volume t since site db) = length ts + 1"
    and "2 * vo_duplicates (volume t since site db) = int (length ts) * (int (length ts) + 1)"
proof -
  let ?es = "window_events t since site db"
  have counts: "map ev_count ?es = map (\<lambda>k. 1 + int k) [0..<Suc (length ts)]"
    using burst_from_nothing [OF assms(1-3)] assms(4) by simp
  have "length (map ev_count ?es) = length ts + 1" unfolding counts by simp
  then show "vo_events (volume t since site db) = length ts + 1" by (simp add: volume_def Let_def)
  have "sum_list (map (\<lambda>e. ev_count e - 1) ?es) = sum_list (map (\<lambda>x. x - 1) (map ev_count ?es))" by (simp add: comp_def)
  also have "\<dots> = (\<Sum>k\<leftarrow>[0..<Suc (length ts)]. int k)" unfolding counts by (simp add: comp_def del: upt_Suc)
  finally show "2 * vo_duplicates (volume t since site db) = int (length ts) * (int (length ts) + 1)"
    using sum_upto [of "length ts"] by (simp add: volume_def Let_def del: upt_Suc)
qed

text \<open>
  When a burst of one sighting and n repeats inside the window is stored as it was counted, one row
  with the running count per mail, the summary reports n (n + 1) / 2 suppressed duplicates.
\<close>

theorem repeats_are_counted_twice:
  assumes "map_of (dedup_entries w) key = None" and "0 < window_seconds w" and "\<forall>t \<in> set ts. t - t0 < seconds (window_seconds w)"
    and "map ev_count (window_events t since site db) = burst w key (t0 # ts)"
  shows "(vo_events (volume t since site db) = length ts + 1) \<and>
    (2 * vo_duplicates (volume t since site db) = int (length ts) * (int (length ts) + 1))"
  by (intro conjI impI; ((rule repeats_are_counted_twice_facts [OF assms]; assumption)+ | use repeats_are_counted_twice_facts [OF assms] in blast))

text \<open>The rows of one tenant.\<close>

definition own_rows :: "uuid \<Rightarrow> analytics_db \<Rightarrow> analytics_db" where
  "own_rows t db = \<lparr>an_events = filter (\<lambda>r. ev_tenant r = t) (an_events db),
     an_alarms = filter (\<lambda>r. al_tenant r = t) (an_alarms db), an_messages = filter (\<lambda>r. em_tenant r = t) (an_messages db),
     an_media = filter (\<lambda>r. ma_tenant r = t) (an_media db), an_deliveries = filter (\<lambda>r. ad_tenant r = t) (an_deliveries db),
     an_silence = filter (\<lambda>r. si_tenant r = t) (an_silence db)\<rparr>"

lemma filter_own: "filter (\<lambda>r. f r = t \<and> P r) (filter (\<lambda>r. f r = t) xs) = filter (\<lambda>r. f r = t \<and> P r) xs"
  by (induction xs) auto

lemma own_windows:
  "window_events t since site (own_rows t db) = window_events t since site db"
  "window_alarms t since site (own_rows t db) = window_alarms t since site db"
  by (simp_all only: window_events_def window_alarms_def own_rows_def analytics_db.simps filter_own)

lemma own_filters:
  "filter (\<lambda>m. ma_tenant m = t \<and> P m) (an_media (own_rows t db)) = filter (\<lambda>m. ma_tenant m = t \<and> P m) (an_media db)"
  "filter (\<lambda>m. em_tenant m = t \<and> Q m) (an_messages (own_rows t db)) = filter (\<lambda>m. em_tenant m = t \<and> Q m) (an_messages db)"
  "filter (\<lambda>d. ad_tenant d = t \<and> R d) (an_deliveries (own_rows t db)) = filter (\<lambda>d. ad_tenant d = t \<and> R d) (an_deliveries db)"
  "filter (\<lambda>s. si_tenant s = t) (an_silence (own_rows t db)) = filter (\<lambda>s. si_tenant s = t) (an_silence db)"
  by (simp_all only: own_rows_def analytics_db.simps filter_own) (simp add: own_rows_def)

lemma own_sections:
  "volume t since site (own_rows t db) = volume t since site db"
  "quality t since site (own_rows t db) = quality t since site db"
  "response env t since site (own_rows t db) = response env t since site db"
  "health t since site (own_rows t db) = health t since site db"
  by (simp_all only: volume_def quality_def response_def health_def own_windows own_filters)

definition chain_owned :: "uuid \<Rightarrow> analytics_db \<Rightarrow> bool" where
  "chain_owned t db \<longleftrightarrow>
     (\<forall>d \<in> set (an_deliveries db). \<forall>a \<in> set (an_alarms db). ad_tenant d = t \<and> al_id a = ad_alarm d \<longrightarrow> al_tenant a = t) \<and>
     (\<forall>a \<in> set (an_alarms db). \<forall>e \<in> set (an_events db). al_tenant a = t \<and> ev_id e = al_event a \<longrightarrow> ev_tenant e = t) \<and>
     (\<forall>e \<in> set (an_events db). \<forall>m \<in> set (an_messages db). ev_tenant e = t \<and> Some (em_message_id m) = ev_message e \<longrightarrow> em_tenant m = t)"

lemma filter_owned: "(\<And>r. r \<in> set xs \<Longrightarrow> P r \<Longrightarrow> f r = t) \<Longrightarrow> filter P (filter (\<lambda>r. f r = t) xs) = filter P xs"
  by (induction xs) auto

lemma own_tables:
  "an_alarms (own_rows t db) = filter (\<lambda>r. al_tenant r = t) (an_alarms db)"
  "an_events (own_rows t db) = filter (\<lambda>r. ev_tenant r = t) (an_events db)"
  "an_messages (own_rows t db) = filter (\<lambda>r. em_tenant r = t) (an_messages db)"
  by (simp_all add: own_rows_def)

lemma own_mails:
  assumes "chain_owned t db" and "d \<in> set (an_deliveries db)" and "ad_tenant d = t"
  shows "mails_behind (own_rows t db) d = mails_behind db d"
proof -
  have as: "filter (\<lambda>a. al_id a = ad_alarm d) (an_alarms (own_rows t db)) = filter (\<lambda>a. al_id a = ad_alarm d) (an_alarms db)"
    unfolding own_tables by (rule filter_owned) (use assms chain_owned_def in blast)
  have es: "filter (\<lambda>e. ev_id e = al_event a) (an_events (own_rows t db)) = filter (\<lambda>e. ev_id e = al_event a) (an_events db)"
    if "a \<in> set (an_alarms db)" "al_id a = ad_alarm d" for a
  proof -
    have "al_tenant a = t" using assms that unfolding chain_owned_def by blast
    then show ?thesis unfolding own_tables by (intro filter_owned) (use assms(1) that(1) chain_owned_def in blast)
  qed
  have ms: "filter (\<lambda>m. Some (em_message_id m) = ev_message e) (an_messages (own_rows t db))
      = filter (\<lambda>m. Some (em_message_id m) = ev_message e) (an_messages db)"
    if "a \<in> set (an_alarms db)" "al_id a = ad_alarm d" "e \<in> set (an_events db)" "ev_id e = al_event a" for a e
  proof -
    have "ev_tenant e = t" using assms that unfolding chain_owned_def by metis
    then show ?thesis unfolding own_tables by (intro filter_owned) (use assms(1) that(3) chain_owned_def in blast)
  qed
  have "concat (map (\<lambda>e. filter (\<lambda>m. Some (em_message_id m) = ev_message e) (an_messages (own_rows t db)))
        (filter (\<lambda>e. ev_id e = al_event a) (an_events (own_rows t db)))) =
      concat (map (\<lambda>e. filter (\<lambda>m. Some (em_message_id m) = ev_message e) (an_messages db))
        (filter (\<lambda>e. ev_id e = al_event a) (an_events db)))"
    if "a \<in> set (filter (\<lambda>a. al_id a = ad_alarm d) (an_alarms db))" for a
    using that es [of a] ms [of a] by (intro arg_cong [where f = concat] map_cong) auto
  then show ?thesis unfolding mails_behind_def as by (rule arg_cong [where f = concat, OF map_cong [OF refl]])
qed

lemma own_latencies: "chain_owned t db \<Longrightarrow> latencies t since (own_rows t db) = latencies t since db"
  unfolding latencies_def own_filters
  by (intro arg_cong [where f = concat] map_cong refl) (simp add: own_mails split: option.split)

text \<open>
  As long as alarms, events and mails behind a tenant's deliveries are the tenant's own, a summary
  depends on no row of another tenant.
\<close>

theorem summary_reads_own_rows:
  assumes "chain_owned (cu_tenant u) db"
  shows "summary env u days site now db = summary env u days site now (own_rows (cu_tenant u) db)"
proof -
  have "delivery env (cu_tenant u) since (own_rows (cu_tenant u) db) = delivery env (cu_tenant u) since db" for since
    by (simp only: delivery_def own_filters own_latencies [OF assms])
  then show ?thesis by (simp only: summary_def Let_def own_sections)
qed

section \<open>One week\<close>

definition quiet_week :: analytics_db where
  "quiet_week = \<lparr>an_events = [], an_alarms = [], an_messages = [], an_media = [], an_deliveries = [], an_silence = []\<rparr>"

definition sighting :: "uuid \<Rightarrow> int \<Rightarrow> event_row" where
  "sighting i n = \<lparr>ev_id = i, ev_tenant = 1, ev_site = 3, ev_device = 5, ev_camera = None, ev_type = ''person_detected'',
     ev_vendor_label = None, ev_channel = Some 1, ev_occurred = 0, ev_occurred_local = None, ev_source = ''email'',
     ev_message = None, ev_dedup_key = ''k'', ev_count = n, ev_status = ''ALERTED'', ev_risk = 0, ev_severity = ''HIGH'',
     ev_reasons = [], ev_parse_status = ''PARSED'', ev_warnings = [], ev_profile = None\<rparr>"

definition closed_alarm :: "uuid \<Rightarrow> resolution_code option \<Rightarrow> alarm_row" where
  "closed_alarm i c = \<lparr>al_id = i, al_tenant = 1, al_site = 3, al_event = i, al_severity = ''HIGH'', al_status = ''RESOLVED'',
     al_opened = 0, al_acked_at = None, al_acked_by = None, al_resolved_at = None, al_resolved_by = None,
     al_resolution = map_option resolution_value c, al_note = None, al_step = 0\<rparr>"

definition busy_week :: analytics_db where
  "busy_week = quiet_week\<lparr>an_events := [sighting 1 1, sighting 2 2, sighting 3 3, sighting 4 4],
     an_alarms := [closed_alarm 1 (Some RC_FALSE_POSITIVE), closed_alarm 2 None]\<rparr>"

definition plain_env :: analytics_env where
  "plain_env = \<lparr>ae_percentile = \<lambda>_ _. None, ae_day = \<lambda>t. t div day\<rparr>"

definition analyst :: current_user where
  "analyst = \<lparr>cu_user = 11, cu_tenant = 1, cu_role = OWNER, cu_permissions = owner_perms\<rparr>"

lemma analyst_can: "require p analyst = Inr analyst"
  by (cases p) (simp_all add: can_def analyst_def perms_defs)

lemma busy_rows:
  "window_alarms (cu_tenant analyst) (- 604800000000) None busy_week = [closed_alarm 1 (Some RC_FALSE_POSITIVE), closed_alarm 2 None]"
  "window_events 1 (- 604800000000) None busy_week = [sighting 1 1, sighting 2 2, sighting 3 3, sighting 4 4]"
  by (simp_all add: window_alarms_def window_events_def busy_week_def closed_alarm_def sighting_def analyst_def at_site_def)

lemma summary_adds_up_witness:
  "\<exists>s. summary plain_env analyst 7 None 0 busy_week = Inr s \<and> qo_resolved (su_quality s) + qo_unresolved (su_quality s) = 2"
proof -
  obtain q where "quality (cu_tenant analyst) (- 604800000000) None busy_week = Inr q"
    by (simp add: quality_def busy_rows count_by_def closed_alarm_def code_of_def all_resolutions_def Let_def)
  then obtain s where s: "summary plain_env analyst 7 None 0 busy_week = Inr s"
    by (simp add: summary_def analyst_can check_def days_ok_def max_window_days_def Let_def)
  have "qo_resolved (su_quality s) + qo_unresolved (su_quality s) = length (window_alarms (cu_tenant analyst) (0 - 7 * day) None busy_week)"
    by (rule summary_adds_up [OF s, THEN conjunct1])
  with s show ?thesis by (simp add: busy_rows)
qed

lemma repeats_are_counted_twice_witness:
  "vo_events (volume 1 (- 604800000000) None busy_week) = 4 \<and> vo_duplicates (volume 1 (- 604800000000) None busy_week) = 6"
proof -
  have burst: "burst new_dedup ''k'' [0, 1, 2, 3] = [1, 2, 3, 4]"
    using burst_from_nothing [of new_dedup "''k''" "[1, 2, 3]" 0] by (simp add: new_dedup_def default_window_seconds_def seconds_def)
  have h: "map_of (dedup_entries new_dedup) ''k'' = None" "0 < window_seconds new_dedup"
    "\<forall>t \<in> set [1, 2, 3]. t - 0 < seconds (window_seconds new_dedup)"
    "map ev_count (window_events 1 (- 604800000000) None busy_week) = burst new_dedup ''k'' (0 # [1, 2, 3])"
    unfolding burst busy_rows(2) by (simp_all add: sighting_def new_dedup_def default_window_seconds_def seconds_def)
  from repeats_are_counted_twice [OF h] show ?thesis by simp
qed

lemma summary_reads_own_rows_witness:
  "summary plain_env analyst 7 None 0 busy_week = summary plain_env analyst 7 None 0 (own_rows (cu_tenant analyst) busy_week)"
  by (rule summary_reads_own_rows) (simp add: chain_owned_def busy_week_def quiet_week_def closed_alarm_def sighting_def analyst_def)

text \<open>
  The site filter reaches the events but not the pictures: a site with one event and no picture of
  its own is given the rate of another site's pictures.
\<close>

definition two_sites :: analytics_db where
  "two_sites = quiet_week\<lparr>an_events := [sighting 1 1],
     an_media := [\<lparr>ma_id = 1, ma_tenant = 1, ma_event = 8, ma_key = ''a'', ma_type = ''image/jpeg'', ma_size = 1,
         ma_digest = ''a'', ma_created = 0\<rparr>,
       \<lparr>ma_id = 2, ma_tenant = 1, ma_event = 9, ma_key = ''b'', ma_type = ''image/jpeg'', ma_size = 1,
         ma_digest = ''b'', ma_created = 0\<rparr>]\<rparr>"

lemma attachment_rate_above_one: "vo_attachment_rate (volume 1 0 (Some 3) two_sites) = Some 2"
  by (simp add: volume_def Let_def window_events_def two_sites_def quiet_week_def sighting_def at_site_def ratio_def
      round_to_def round_even_def)

end
