(* ===== verification/ConfigSafety.thy ===== *)
theory ConfigSafety
  imports Commissioning
begin

text \<open>
  What the configuration endpoints keep over every sequence of requests, and what the mail intake
  then makes of the tables: credentials, zones, arming and rules.
\<close>

section \<open>Every sequence of requests\<close>





text \<open>
  Keys are unique; every recorder is in a site of its tenant, every camera in its recorder's tenant
  and site, every zone in its camera's tenant and every mail account in its recorder's tenant; a
  recorder has at most one active account; every zone is one the engine can read.  The site of a
  rule is not among these: see \<open>foreign_site\<close> below.
\<close>

definition keys_unique :: "config_db \<Rightarrow> bool" where
  "keys_unique db \<longleftrightarrow> distinct (map site_id (cd_sites db)) \<and> distinct (map device_id (cd_devices db)) \<and>
     distinct (map cam_id (cd_cameras db)) \<and> distinct (map (\<lambda>c. (cam_device c, cam_channel c)) (cd_cameras db)) \<and>
     distinct (map zf_id (cd_zones db)) \<and> distinct (map ac_username (cd_accounts db)) \<and>
     distinct (map rf_id (cd_rules db)) \<and> distinct (map pd_id (cd_push db)) \<and> distinct (map pd_token (cd_push db))"

definition owners_agree :: "config_db \<Rightarrow> bool" where
  "owners_agree db \<longleftrightarrow>
     (\<lambda>d. (device_site d, device_tenant d)) ` set (cd_devices db) \<subseteq> (\<lambda>s. (site_id s, site_tenant s)) ` set (cd_sites db) \<and>
     (\<lambda>c. (cam_device c, cf_tenant c, cf_site c)) ` set (cd_cameras db) \<subseteq>
       (\<lambda>d. (device_id d, device_tenant d, device_site d)) ` set (cd_devices db) \<and>
     (\<lambda>z. (zr_camera z, zf_tenant z)) ` set (cd_zones db) \<subseteq> (\<lambda>c. (cam_id c, cf_tenant c)) ` set (cd_cameras db) \<and>
     (\<lambda>a. (ac_device a, af_tenant a)) ` set (cd_accounts db) \<subseteq> (\<lambda>d. (device_id d, device_tenant d)) ` set (cd_devices db)"

definition one_active :: "account_full list \<Rightarrow> bool" where
  "one_active rows \<longleftrightarrow> (\<forall>dev. length (filter (active_for dev) rows) \<le> 1)"

definition config_wf :: "config_db \<Rightarrow> bool" where
  "config_wf db \<longleftrightarrow> keys_unique db \<and> owners_agree db \<and> one_active (cd_accounts db) \<and>
     (\<forall>z \<in> set (cd_zones db). zone_of_row (zone_row.truncate z) \<noteq> None)"

text \<open>
  The rows of the other tenants.  Phones follow their token and are not among them: what a request
  does to the phones of another tenant is \<open>step_phones\<close> below.
\<close>

definition others :: "uuid \<Rightarrow> config_db \<Rightarrow> site_full list \<times> device_full list \<times> camera_full list \<times> zone_full list \<times>
    account_full list \<times> rule_full list \<times> audit_row list" where
  "others t db = (filter (\<lambda>r. site_tenant r \<noteq> t) (cd_sites db), filter (\<lambda>r. device_tenant r \<noteq> t) (cd_devices db),
     filter (\<lambda>r. cf_tenant r \<noteq> t) (cd_cameras db), filter (\<lambda>r. zf_tenant r \<noteq> t) (cd_zones db),
     filter (\<lambda>r. af_tenant r \<noteq> t) (cd_accounts db), filter (\<lambda>r. rr_tenant r \<noteq> t) (cd_rules db),
     filter (\<lambda>r. au_tenant r \<noteq> t) (cd_audit db))"


subsection \<open>Tables\<close>

lemma insert_row_Inr: "insert_row key r rows = Inr rows' \<longleftrightarrow> key r \<notin> key ` set rows \<and> rows' = rows @ [r]"
  by (auto simp: insert_row_def)

lemma insert_rows_Inr: "insert_rows key rs rows = Inr rows' \<Longrightarrow>
    rows' = rows @ rs \<and> (distinct (map key rows) \<longrightarrow> distinct (map key rows'))"
proof (induction rs arbitrary: rows)
  case (Cons r rs)
  then have r: "key r \<notin> key ` set rows" "insert_rows key rs (rows @ [r]) = Inr rows'"
    by (auto simp: bind_err_Inr_iff insert_row_Inr)
  then have "distinct (map key rows) \<longrightarrow> distinct (map key (rows @ [r]))" by simp
  with Cons.IH [OF r(2)] show ?case by (metis append_Cons append_assoc self_append_conv2)
qed simp

lemma check_Inr [simp]: "check loc ok = Inr v \<longleftrightarrow> ok"
  by (simp add: check_def)

lemma load_owned_Inr: "load_owned key tenant rows i u = Inr r \<longleftrightarrow> lookup_row key i rows = Some r \<and> tenant r = cu_tenant u"
  by (auto simp: load_owned_def assert_owns_def bind_err_Inr_iff split: option.splits)

lemmas loads = load_site_def load_device_def load_camera_def load_rule_def load_owned_Inr




lemma accepted_zone:
  assumes "zone_in_ok p"
  shows "zone_of_row (zone_row.truncate (new_zone u c (p, i))) =
    Some \<lparr>zone_name = zi_name p, ztype = zi_type p, zpoints = zi_points p\<rparr>"
proof -
  have "validate_polygon (zi_points p) = Inr ()"
    using assms by (auto simp: zone_in_ok_def validate_polygon_iff valid_polygon_def list_all_iff)
  moreover have "zone_type_of_value (zone_type_value (zi_type p)) = Some (zi_type p)"
    by (cases "zi_type p") (simp_all add: zone_type_of_value_def)
  ultimately show ?thesis
    by (simp add: zone_of_row_def new_zone_def zone_row.defs make_zone_def)
qed

subsection \<open>Each request\<close>

lemma others_audit [simp]: "others (cu_tenant u) (write_audit u a ty i d db) = others (cu_tenant u) db"
  by (simp add: others_def write_audit_def)

lemma wf_audit [simp]: "config_wf (write_audit u a ty i d db) = config_wf db"
  by (simp add: config_wf_def keys_unique_def owners_agree_def write_audit_def)

lemmas wf_defs = config_wf_def keys_unique_def owners_agree_def





text \<open>Requests that assign to one row.\<close>

lemma update_site_Inr:
  assumes "update_site u i p db = Inr (x, db')"
  obtains r n b where "lookup_row site_id i (cd_sites db) = Some r" "site_tenant r = cu_tenant u"
    "patched (Some (site_name r)) (sp_name p) = Some n" "patched (Some (site_armed r)) (sp_armed p) = Some b"
    "db' = (case sp_armed p of Given (Some b) \<Rightarrow> write_audit u (if b then ''site_armed'' else ''site_disarmed'') ''site'' i []
        | _ \<Rightarrow> (\<lambda>d. d)) (db\<lparr>cd_sites := update_row site_id i
          (\<lambda>_. r\<lparr>site_name := n, site_armed := b, sf_address := patched (sf_address r) (sp_address p)\<rparr>) (cd_sites db)\<rparr>)"
proof -
  obtain r where r: "lookup_row site_id i (cd_sites db) = Some r" "site_tenant r = cu_tenant u"
    using assms by (auto simp: update_site_def bind_err_Inr_iff loads)
  obtain n b where nb: "patched (Some (site_name r)) (sp_name p) = Some n" "patched (Some (site_armed r)) (sp_armed p) = Some b"
    using assms r by (auto simp: update_site_def bind_err_Inr_iff loads split: option.splits)
  show thesis
    by (rule that [OF r nb])
      (use assms r nb in \<open>auto simp: update_site_def bind_err_Inr_iff loads Let_def split: patch.splits option.splits\<close>)
qed




lemma apply_rule_keys [simp]: "rf_id (apply_rule p r) = rf_id r" "rr_tenant (apply_rule p r) = rr_tenant r"
  by (simp_all add: apply_rule_def)














subsection \<open>What a request leaves alone\<close>



lemma tables_audit [simp]:
  "cd_rules (write_audit u a ty i d db) = cd_rules db" "cd_push (write_audit u a ty i d db) = cd_push db"
  "cd_sites (write_audit u a ty i d db) = cd_sites db"
  by (simp_all add: write_audit_def)













subsection \<open>The sites of rules\<close>


definition same_site :: "rule_full \<Rightarrow> rule_full \<Rightarrow> bool" where
  "same_site r q \<longleftrightarrow> rf_id r = rf_id q \<and> rr_tenant r = rr_tenant q \<and> rr_site r = rr_site q"

lemma same_site_refl [simp]: "same_site r r"
  by (simp add: same_site_def)






subsection \<open>Phones\<close>








section \<open>Properties\<close>







text \<open>The mail server's snapshot of the accounts.\<close>

lemma view_accounts [simp]: "accounts (intake_view db) = map account_row.truncate (cd_accounts db)"
  by (simp add: intake_view_def)

lemma truncate_fields [simp]:
  "ac_username (account_row.truncate a) = ac_username a" "ac_device (account_row.truncate a) = ac_device a"
  "ac_active (account_row.truncate a) = ac_active a" "ac_hash (account_row.truncate a) = ac_hash a"
  by (simp_all add: account_row.defs)


lemma device_truncate: "lookup_row device_id i (map device_row.truncate rows) = map_option device_row.truncate (lookup_row device_id i rows)"
  by (induction rows) (auto simp: lookup_row_def device_row.defs)






text \<open>Zones as the intake reads them.\<close>

lemma uuid_text_inj: "a < 2 ^ 128 \<Longrightarrow> b < 2 ^ 128 \<Longrightarrow> uuid_text a = uuid_text b \<Longrightarrow> a = b"
  using parse_uuid_text by (metis option.inject)

lemma camera_fields [simp]:
  "cam_id (camera_row.truncate c) = cam_id c" "cam_device (camera_row.truncate c) = cam_device c"
  "cam_enabled (camera_row.truncate c) = cam_enabled c"
  by (simp_all add: camera_row.defs)

lemma zone_camera [simp]: "zr_camera (zone_row.truncate z) = zr_camera z"
  by (simp add: zone_row.defs)

definition readable :: "config_db \<Rightarrow> uuid \<Rightarrow> string \<Rightarrow> zone_full \<Rightarrow> bool" where
  "readable db dev cid z \<longleftrightarrow> uuid_text (zr_camera z) = cid \<and>
     (\<exists>c \<in> set (cd_cameras db). cam_id c = zr_camera z \<and> cam_device c = dev \<and> cam_enabled c)"

lemma zones_view: "zones_of_camera (intake_view db) dev cid =
    (let zs = List.map_filter zone_of_row (map zone_row.truncate (filter (readable db dev cid) (cd_zones db)))
     in if zs = [] then None else Some zs)"
proof -
  have "(zr_camera z \<in> cam_id ` set (device_cameras (intake_view db) dev)) \<longleftrightarrow>
      (\<exists>c \<in> set (cd_cameras db). cam_id c = zr_camera z \<and> cam_device c = dev \<and> cam_enabled c)" for z :: zone_full
    by (force simp: device_cameras_def intake_view_def filter_map comp_def image_image)
  then have "filter (\<lambda>z. uuid_text (zr_camera z) = cid \<and> zr_camera z \<in> cam_id ` set (device_cameras (intake_view db) dev))
      (zone_rows (intake_view db)) = map zone_row.truncate (filter (readable db dev cid) (cd_zones db))"
    by (simp add: readable_def [abs_def] filter_map comp_def) (simp add: intake_view_def filter_map comp_def)
  then show ?thesis by (simp add: zones_of_camera_def)
qed

lemma replace_zones_Inr:
  assumes "replace_zones u i payload ids db = Inr (x, db')"
  obtains c created where "lookup_row cam_id i (cd_cameras db) = Some c" "list_all zone_in_ok payload"
    "created = map (new_zone u c) (zip payload (map ids [0..<length payload]))" "x = map zone_out_of created"
    "cd_zones db' = filter (\<lambda>z. zr_camera z \<noteq> i) (cd_zones db) @ created" "cd_cameras db' = cd_cameras db"
proof -
  obtain c where c: "lookup_row cam_id i (cd_cameras db) = Some c" and good: "list_all zone_in_ok payload"
    using assms by (auto simp: replace_zones_def bind_err_Inr_iff loads)
  define created where "created = map (new_zone u c) (zip payload (map ids [0..<length payload]))"
  obtain rows where rows: "insert_rows zf_id created (filter (\<lambda>z. zr_camera z \<noteq> i) (cd_zones db)) = Inr rows"
    and x: "x = map zone_out_of created" "cd_zones db' = rows" "cd_cameras db' = cd_cameras db"
    using assms c by (auto simp: replace_zones_def bind_err_Inr_iff loads Let_def created_def write_audit_def)
  from insert_rows_Inr [OF rows] have "rows = filter (\<lambda>z. zr_camera z \<noteq> i) (cd_zones db) @ created" by blast
  with that [OF c good created_def] x show thesis by simp
qed

lemma map_filter_all: "(\<And>x. x \<in> set xs \<Longrightarrow> f x = Some (g x)) \<Longrightarrow> List.map_filter f xs = map g xs"
  by (induction xs) (simp_all add: List.map_filter_def)

lemma created_zones:
  assumes "list_all zone_in_ok payload" and "length ks = length payload"
  shows "List.map_filter zone_of_row (map zone_row.truncate (map (new_zone u c) (zip payload ks))) =
    map (\<lambda>p. \<lparr>zone_name = zi_name p, ztype = zi_type p, zpoints = zi_points p\<rparr>) payload"
  using assms
proof (induction payload arbitrary: ks)
  case (Cons p ps)
  then obtain k ks' where "ks = k # ks'" by (cases ks) auto
  with Cons accepted_zone [of p u c k] show ?case by (simp add: List.map_filter_def)
qed (simp add: List.map_filter_def)

lemma accepted_zones_reach_the_engine_facts:
  assumes "replace_zones u i payload ids db = Inr (x, db')" and "config_wf db"
    and "\<forall>c \<in> set (cd_cameras db). cam_id c < 2 ^ 128"
    and "lookup_row cam_id i (cd_cameras db) = Some c" and "cam_enabled c"
  shows "zones_of_camera (intake_view db') (cam_device c) (uuid_text i) = (if payload = [] then None
      else Some (map (\<lambda>p. \<lparr>zone_name = zi_name p, ztype = zi_type p, zpoints = zi_points p\<rparr>) payload))"
    and "j < 2 ^ 128 \<Longrightarrow> j \<noteq> i \<Longrightarrow>
      zones_of_camera (intake_view db') dev (uuid_text j) = zones_of_camera (intake_view db) dev (uuid_text j)"
proof -
  from assms(1) obtain created where good: "list_all zone_in_ok payload"
    and created: "created = map (new_zone u c) (zip payload (map ids [0..<length payload]))"
    and rows: "cd_zones db' = filter (\<lambda>z. zr_camera z \<noteq> i) (cd_zones db) @ created" "cd_cameras db' = cd_cameras db"
    by (rule replace_zones_Inr) (use assms(4) in auto)
  have c: "c \<in> set (cd_cameras db)" "cam_id c = i" using lookup_row_Some [OF assms(4)] by simp_all
  have mine: "zr_camera z = i" if "z \<in> set created" for z using that c(2) by (auto simp: created new_zone_def)
  have small: "zr_camera z < 2 ^ 128" if "z \<in> set (cd_zones db)" for z
  proof -
    have "(zr_camera z, zf_tenant z) \<in> (\<lambda>c. (cam_id c, cf_tenant c)) ` set (cd_cameras db)"
      using assms(2) that by (auto simp: wf_defs)
    with assms(3) show ?thesis by auto
  qed
  have i: "i < 2 ^ 128" using assms(3) c by auto
  have "filter (readable db' (cam_device c) (uuid_text i)) (filter (\<lambda>z. zr_camera z \<noteq> i) (cd_zones db)) = []"
    using small i uuid_text_inj by (auto simp: filter_empty_conv readable_def)
  moreover have "filter (readable db' (cam_device c) (uuid_text i)) created = created"
    using mine c assms(5) rows(2) by (auto simp: filter_id_conv readable_def)
  ultimately have "filter (readable db' (cam_device c) (uuid_text i)) (cd_zones db') = created"
    by (simp add: rows(1))
  then show "zones_of_camera (intake_view db') (cam_device c) (uuid_text i) = (if payload = [] then None
      else Some (map (\<lambda>p. \<lparr>zone_name = zi_name p, ztype = zi_type p, zpoints = zi_points p\<rparr>) payload))"
    using created_zones [OF good, of "map ids [0..<length payload]" u c] by (simp add: zones_view created Let_def)
  assume j: "j < 2 ^ 128" "j \<noteq> i"
  have none: "filter (readable db' dev (uuid_text j)) created = []"
    using mine i j uuid_text_inj by (auto simp: filter_empty_conv readable_def)
  have "(readable db' dev (uuid_text j) z \<and> zr_camera z \<noteq> i) = readable db dev (uuid_text j) z" for z
    using i j uuid_text_inj by (auto simp: readable_def rows(2))
  then have "filter (\<lambda>z. zr_camera z \<noteq> i \<and> readable db' dev (uuid_text j) z) (cd_zones db) = filter (readable db dev (uuid_text j)) (cd_zones db)"
    by (intro filter_cong) auto
  with none have "filter (readable db' dev (uuid_text j)) (cd_zones db') = filter (readable db dev (uuid_text j)) (cd_zones db)"
    by (simp add: rows(1))
  then show "zones_of_camera (intake_view db') dev (uuid_text j) = zones_of_camera (intake_view db) dev (uuid_text j)"
    by (simp add: zones_view)
qed

text \<open>
  C14. The zones a caller sends are, once accepted, exactly the zones the rule engine loads for that
  camera, in order and without one being skipped; the zones of every other camera stay.
\<close>

theorem accepted_zones_reach_the_engine:
  assumes "replace_zones u i payload ids db = Inr (x, db')" and "config_wf db"
    and "\<forall>c \<in> set (cd_cameras db). cam_id c < 2 ^ 128"
    and "lookup_row cam_id i (cd_cameras db) = Some c" and "cam_enabled c"
  shows "(zones_of_camera (intake_view db') (cam_device c) (uuid_text i) = (if payload = [] then None
      else Some (map (\<lambda>p. \<lparr>zone_name = zi_name p, ztype = zi_type p, zpoints = zi_points p\<rparr>) payload))) \<and>
    ((j < 2 ^ 128) \<longrightarrow> (j \<noteq> i) \<longrightarrow>
      zones_of_camera (intake_view db') dev (uuid_text j) = zones_of_camera (intake_view db) dev (uuid_text j))"
  by (intro conjI impI; ((rule accepted_zones_reach_the_engine_facts [OF assms]; assumption)+ | use accepted_zones_reach_the_engine_facts [OF assms] in blast))

text \<open>Arming.\<close>

definition arm_patch :: "bool \<Rightarrow> site_patch" where
  "arm_patch b = \<lparr>sp_name = Absent, sp_address = Absent, sp_armed = Given (Some b)\<rparr>"

lemma site_truncate: "lookup_row site_id i (map site_row.truncate rows) = map_option site_row.truncate (lookup_row site_id i rows)"
  by (induction rows) (auto simp: lookup_row_def site_row.defs)

text \<open>Only the flag of one site changes in what the mail path reads.\<close>

lemma armed_view:
  assumes "update_site u i (arm_patch b) db = Inr (x, db')"
  obtains r row where "lookup_row site_id i (cd_sites db) = Some r" "row = r\<lparr>site_armed := b\<rparr>" "x = site_out_of row"
    "\<forall>k. lookup_row site_id k (sites (intake_view db')) =
      (if k = i then Some (site_row.truncate row) else lookup_row site_id k (sites (intake_view db)))"
    "devices (intake_view db') = devices (intake_view db)" "cameras (intake_view db') = cameras (intake_view db)"
    "zone_rows (intake_view db') = zone_rows (intake_view db)" "rule_rows (intake_view db') = rule_rows (intake_view db)"
proof -
  from assms obtain r n where r: "lookup_row site_id i (cd_sites db) = Some r" and n: "n = site_name r"
    and db: "db' = write_audit u (if b then ''site_armed'' else ''site_disarmed'') ''site'' i []
      (db\<lparr>cd_sites := update_row site_id i (\<lambda>_. r\<lparr>site_name := n, site_armed := b\<rparr>) (cd_sites db)\<rparr>)"
    by (rule update_site_Inr) (auto simp: arm_patch_def)
  have row: "r\<lparr>site_name := n, site_armed := b\<rparr> = r\<lparr>site_armed := b\<rparr>" by (simp add: n)
  have "x = site_out_of (r\<lparr>site_armed := b\<rparr>)"
    using assms r by (auto simp: update_site_def bind_err_Inr_iff loads Let_def arm_patch_def)
  moreover have "lookup_row site_id k (sites (intake_view db')) =
      (if k = i then Some (site_row.truncate (r\<lparr>site_armed := b\<rparr>)) else lookup_row site_id k (sites (intake_view db)))" for k
    using r lookup_row_Some [OF r] by (simp add: db row intake_view_def write_audit_def site_truncate lookup_overwrite)
  ultimately show thesis using r by (intro that [of r "r\<lparr>site_armed := b\<rparr>"]) (simp_all add: db intake_view_def write_audit_def)
qed

lemma disarming_stops_no_mail_facts:
  assumes "update_site u i (arm_patch b) db = Inr (x, db')"
  shows "so_armed x = b"
    and "load_site_context zones (intake_view db') silence dev = load_site_context zones (intake_view db) silence dev"
proof -
  obtain r row where r: "lookup_row site_id i (cd_sites db) = Some r" and row: "row = r\<lparr>site_armed := b\<rparr>"
    and x: "x = site_out_of row"
    and site: "\<forall>k. lookup_row site_id k (sites (intake_view db')) =
      (if k = i then Some (site_row.truncate row) else lookup_row site_id k (sites (intake_view db)))"
    and rest: "devices (intake_view db') = devices (intake_view db)" "cameras (intake_view db') = cameras (intake_view db)"
      "zone_rows (intake_view db') = zone_rows (intake_view db)" "rule_rows (intake_view db') = rule_rows (intake_view db)"
    by (rule armed_view [OF assms])
  show "so_armed x = b" by (simp add: x row site_out_of_def)
  have old: "lookup_row site_id i (sites (intake_view db)) = Some (site_row.truncate r)"
    using r by (simp add: intake_view_def site_truncate)
  have cams: "device_cameras (intake_view db') = device_cameras (intake_view db)"
    "zones_of_camera (intake_view db') = zones_of_camera (intake_view db)"
    by (simp_all add: fun_eq_iff device_cameras_def zones_of_camera_def rest)
  have rules: "site_rules (intake_view db') d s = site_rules (intake_view db) d s"
    "site_rules (intake_view db) d (site_row.truncate row) = site_rules (intake_view db) d (site_row.truncate r)" for d s
    by (simp_all add: site_rules_def rest row site_row.defs)
  have same: "site_name (site_row.truncate row) = site_name (site_row.truncate r)"
    "site_tz (site_row.truncate row) = site_tz (site_row.truncate r)" by (simp_all add: row site_row.defs)
  show "load_site_context zones (intake_view db') silence dev = load_site_context zones (intake_view db) silence dev"
  proof (cases "lookup_row device_id dev (devices (intake_view db))")
    case (Some d)
    then show ?thesis
      by (cases "device_site d = i")
        (simp_all add: load_site_context_def rest site old cams rules same split: option.split)
  qed (simp add: load_site_context_def rest)
qed

text \<open>
  Arming or disarming a site answers with the new flag and leaves everything the mail path loads
  of the site as it was, so a disarmed site goes on raising alarms.
\<close>

theorem disarming_stops_no_mail:
  assumes "update_site u i (arm_patch b) db = Inr (x, db')"
  shows "(so_armed x = b) \<and>
    (load_site_context zones (intake_view db') silence dev = load_site_context zones (intake_view db) silence dev)"
  by (intro conjI impI; ((rule disarming_stops_no_mail_facts [OF assms]; assumption)+ | use disarming_stops_no_mail_facts [OF assms] in blast))

text \<open>A rule no recorder's mail survives.\<close>

lemma map_err_raises: "x \<in> set xs \<Longrightarrow> f x = Inl e \<Longrightarrow> \<exists>e'. map_err f xs = Inl e'"
proof (induction xs)
  case (Cons y ys)
  then show ?case by (cases "f y"; cases "map_err f ys") auto
qed simp

lemma unknown_action_raises:
  assumes "a \<in> set (rr_actions r)" and "action_of a = None"
  shows "\<exists>e. rule_from_row zones r tz = Inl e"
proof -
  have "rr_actions r \<noteq> []" using assms(1) by auto
  moreover have "\<exists>e. map_err (\<lambda>a. or_raise (Bad_action a) (action_of a)) (rr_actions r) = Inl e"
    by (rule map_err_raises [OF assms(1), where e = "Bad_action a"]) (simp only: assms(2) or_raise_def option.case)
  ultimately show ?thesis by (auto simp: rule_from_row_def Let_def)
qed

text \<open>
  An enabled rule with an action the engine does not know is accepted and stored, and from then on
  the context of every recorder of the rule's sites fails to load.
\<close>

theorem accepted_rule_stops_the_site:
  assumes "create_rule u p new db = Inr (x, db')" and "ri_actions p = Given acts" and "a \<in> set acts" and "action_of a = None"
    and "ri_enabled p \<noteq> Given False" and "ri_site p = Absent \<or> ri_site p = Given None \<or> ri_site p = Given (Some (device_site d))"
    and "lookup_row device_id dev (cd_devices db) = Some d" and "device_tenant d = cu_tenant u"
    and "lookup_row site_id (device_site d) (cd_sites db) = Some s"
  shows "\<exists>e. load_site_context zones (intake_view db') silence dev = Inl e"
proof -
  let ?row = "apply_rule p (default_rule (cu_tenant u) new)"
  have rows: "cd_rules db' = cd_rules db @ [?row]" "cd_devices db' = cd_devices db" "cd_sites db' = cd_sites db"
    using assms(1) by (auto simp: create_rule_def bind_err_Inr_iff insert_row_Inr Let_def)
  let ?d = "device_row.truncate d" and ?s = "site_row.truncate s"
  have s: "site_id ?s = device_site ?d"
    using lookup_row_Some [OF assms(9)] by (simp add: site_row.defs device_row.defs)
  have "rule_row.truncate ?row \<in> set (site_rules (intake_view db') ?d ?s)"
    using assms(5,6,8) s rows(1)
    by (cases "ri_enabled p") (auto simp: site_rules_def intake_view_def rule_row.defs device_row.defs apply_rule_def default_rule_def)
  moreover have "\<exists>e. rule_from_row zones (rule_row.truncate ?row) (site_tz ?s) = Inl e"
    by (rule unknown_action_raises [where a = a]) (use assms(2-4) in \<open>simp_all add: rule_row.defs apply_rule_def\<close>)
  ultimately obtain e where "map_err (\<lambda>r. rule_from_row zones r (site_tz ?s)) (site_rules (intake_view db') ?d ?s) = Inl e"
    using map_err_raises by metis
  moreover have "lookup_row device_id dev (devices (intake_view db')) = Some ?d"
    "lookup_row site_id (device_site ?d) (sites (intake_view db')) = Some ?s"
    using assms(7,9) by (simp_all add: intake_view_def rows device_truncate site_truncate device_row.defs)
  ultimately show ?thesis by (simp add: load_site_context_def)
qed

section \<open>One tenant\<close>

definition chief :: current_user where
  "chief = \<lparr>cu_user = 11, cu_tenant = 1, cu_role = OWNER, cu_permissions = owner_perms\<rparr>"


definition depot :: config_db where
  "depot = \<lparr>cd_sites = [\<lparr>site_id = 3, site_tenant = 1, site_name = ''Depo'', site_tz = ''UTC'', site_armed = True,
       sf_address = None, sf_offline = False\<rparr>],
     cd_devices = [\<lparr>device_id = 5, device_tenant = 1, device_site = 3, device_profile = None, df_name = ''XVR'',
       df_vendor = ''dahua'', df_model = None, df_firmware = None, df_serial = None, df_channels = None, df_commissioned = None\<rparr>],
     cd_cameras = [\<lparr>cam_id = 7, cam_device = 5, cam_name = ''Kapi'', cam_channel = 1, cam_enabled = True, cf_tenant = 1,
       cf_site = 3, cf_perimeter = False\<rparr>],
     cd_zones = [],
     cd_accounts = [\<lparr>ac_username = ''depot'', ac_device = 5, ac_active = True, ac_hash = ''h'', af_id = 9, af_tenant = 1,
       af_recipient = ''r'', af_rotated = None\<rparr>],
     cd_rules = [], cd_push = [], cd_audit = [], cd_verified = {}\<rparr>"

lemma depot_wf: "config_wf depot"
  by (simp add: config_wf_def keys_unique_def owners_agree_def one_active_def depot_def)

lemma chief_can: "can chief p"
  by (cases p) (simp_all add: can_def chief_def perms_defs)


definition doorway :: zone_in where
  "doorway = \<lparr>zi_name = ''Kapi'', zi_type = RESTRICTED, zi_points = [(0, 0), (1, 0), (1, 1)]\<rparr>"

definition mail_rule :: rule_in where
  "mail_rule = \<lparr>ri_name = ''Gece'', ri_site = Given (Some 3), ri_enabled = Absent, ri_event_types = Absent, ri_cameras = Absent,
     ri_zones = Absent, ri_schedule = Absent, ri_min_confidence = Absent, ri_min_severity = Absent,
     ri_actions = Given [''email''], ri_fallback = Absent, ri_weights = Absent\<rparr>"

lemma depot_rows:
  "lookup_row site_id 3 (cd_sites depot) = Some \<lparr>site_id = 3, site_tenant = 1, site_name = ''Depo'', site_tz = ''UTC'',
     site_armed = True, sf_address = None, sf_offline = False\<rparr>"
  "lookup_row device_id 5 (cd_devices depot) = Some \<lparr>device_id = 5, device_tenant = 1, device_site = 3, device_profile = None,
     df_name = ''XVR'', df_vendor = ''dahua'', df_model = None, df_firmware = None, df_serial = None, df_channels = None,
     df_commissioned = None\<rparr>"
  "lookup_row cam_id 7 (cd_cameras depot) = Some \<lparr>cam_id = 7, cam_device = 5, cam_name = ''Kapi'', cam_channel = 1,
     cam_enabled = True, cf_tenant = 1, cf_site = 3, cf_perimeter = False\<rparr>"
  by (simp_all add: depot_def lookup_row_def)

lemma depot_tables:
  "cd_zones depot = []" "cd_rules depot = []"
  "cd_accounts depot = [\<lparr>ac_username = ''depot'', ac_device = 5, ac_active = True, ac_hash = ''h'', af_id = 9, af_tenant = 1,
     af_recipient = ''r'', af_rotated = None\<rparr>]"
  by (simp_all add: depot_def)

lemma chief_loads:
  "require p chief = Inr chief" "load_owned site_id site_tenant (cd_sites depot) 3 chief = Inr (the (lookup_row site_id 3 (cd_sites depot)))"
  "load_owned device_id device_tenant (cd_devices depot) 5 chief = Inr (the (lookup_row device_id 5 (cd_devices depot)))"
  "load_owned cam_id cf_tenant (cd_cameras depot) 7 chief = Inr (the (lookup_row cam_id 7 (cd_cameras depot)))"
  using chief_can by (simp_all add: load_owned_Inr depot_rows) (simp_all add: chief_def)







lemma accepted_zones_reach_the_engine_witness:
  "\<exists>x db'. replace_zones chief 7 [doorway] id depot = Inr (x, db') \<and>
    zones_of_camera (intake_view db') 5 (uuid_text 7) =
      Some [\<lparr>zone_name = ''Kapi'', ztype = RESTRICTED, zpoints = [(0, 0), (1, 0), (1, 1)]\<rparr>]"
proof -
  obtain x db' where run: "replace_zones chief 7 [doorway] id depot = Inr (x, db')"
    by (simp add: replace_zones_def load_camera_def chief_loads depot_rows check_def Let_def insert_row_def doorway_def
        zone_in_ok_def text_ok_def py_len_def continues_def depot_tables new_zone_def)
  have "zones_of_camera (intake_view db') 5 (uuid_text 7) = (if [doorway] = [] then None
      else Some (map (\<lambda>p. \<lparr>zone_name = zi_name p, ztype = zi_type p, zpoints = zi_points p\<rparr>) [doorway]))"
    using accepted_zones_reach_the_engine [OF run depot_wf _ depot_rows(3), THEN conjunct1] by (simp add: depot_def)
  with run show ?thesis by (simp add: doorway_def)
qed

lemma disarming_stops_no_mail_witness:
  "\<exists>x db'. update_site chief 3 (arm_patch False) depot = Inr (x, db') \<and> \<not> so_armed x \<and>
    load_site_context (\<lambda>_. None) (intake_view db') [] 5 = load_site_context (\<lambda>_. None) (intake_view depot) [] 5"
proof -
  obtain x db' where run: "update_site chief 3 (arm_patch False) depot = Inr (x, db')"
    by (simp add: update_site_def load_site_def chief_loads depot_rows check_def Let_def site_patch_ok_def arm_patch_def)
  from disarming_stops_no_mail [OF run] run show ?thesis by blast
qed

lemma accepted_rule_stops_the_site_witness:
  "\<exists>x db' e. create_rule chief mail_rule 20 depot = Inr (x, db') \<and>
    load_site_context (\<lambda>_. None) (intake_view db') [] 5 = Inl e"
proof -
  obtain x db' where run: "create_rule chief mail_rule 20 depot = Inr (x, db')"
    by (simp add: create_rule_def load_site_def chief_loads depot_rows check_def Let_def rule_in_ok_def mail_rule_def text_ok_def py_len_def continues_def
        insert_row_def depot_tables)
  have "\<exists>e. load_site_context (\<lambda>_. None) (intake_view db') [] 5 = Inl e"
    by (rule accepted_rule_stops_the_site [OF run, where a = "''email''" and acts = "[''email'']", OF _ _ _ _ _ depot_rows(2)])
      (simp_all add: mail_rule_def depot_rows chief_def)
  with run show ?thesis by blast
qed

end
