(* ===== verification/EscalationWorker.thy ===== *)
theory EscalationWorker
  imports Escalation Transport Persistence
begin

text \<open>
  The loop that makes an unanswered alarm louder, \<^verbatim>\<open>backend/app/workers/escalation.py\<close>.
  Each sweep reads the open alarms, rebuilds the chain of each from its row and its delivery
  rows, and pages the audience of every step that is due.
\<close>

section \<open>One sweep\<close>

definition max_age_seconds :: int where
  "max_age_seconds = 2 * 60 * 60"

definition role_fallback :: "(string \<times> string list) list" where
  "role_fallback =
    [(''GUARD'', [''SUPERVISOR'', ''SITE_MANAGER'', ''SECURITY_MANAGER'', ''ADMIN'', ''OWNER'']),
     (''SUPERVISOR'', [''SITE_MANAGER'', ''SECURITY_MANAGER'', ''ADMIN'', ''OWNER'']),
     (''SITE_MANAGER'', [''SECURITY_MANAGER'', ''ADMIN'', ''OWNER'']),
     (''SECURITY_MANAGER'', [''ADMIN'', ''OWNER'']),
     (''ADMIN'', [''OWNER'']),
     (''OWNER'', [])]"

definition fallback_for :: "string \<Rightarrow> string list" where
  "fallback_for r = (case map_of role_fallback r of None \<Rightarrow> [] | Some rs \<Rightarrow> rs)"

text \<open>
  The tables a sweep reads; it writes only \<open>cd_push\<close>.  The world it runs in is the
  providers, which see the payload, and the identifiers, clocks and jitter each fan-out draws.
\<close>

record climb_db =
  cd_alarms :: "alarm_row list"
  cd_events :: "event_row list"
  cd_sites :: "site_row list"
  cd_users :: "user_row list"
  cd_push :: push_db

record climb_world =
  cw_platforms :: "platform set"
  cw_send :: "push_payload \<Rightarrow> recipient \<Rightarrow> nat \<Rightarrow> send_outcome"
  cw_jitter :: "uuid \<Rightarrow> nat \<Rightarrow> nat \<Rightarrow> rat"
  cw_ids :: "uuid \<Rightarrow> nat \<Rightarrow> nat \<Rightarrow> uuid"
  cw_clock :: "uuid \<Rightarrow> nat \<Rightarrow> instant"

record escalation_outcome =
  esc_escalated :: "(uuid \<times> nat \<times> string) list"
  esc_reached :: int
  esc_unreachable :: "uuid list"

definition outcome_quiet :: "escalation_outcome \<Rightarrow> bool" where
  "outcome_quiet o' \<longleftrightarrow> esc_escalated o' = []"

definition open_alarms :: "alarm_row list \<Rightarrow> instant \<Rightarrow> alarm_row list" where
  "open_alarms rows now =
    filter (\<lambda>a. now - seconds max_age_seconds \<le> al_opened a)
      (sort_key (\<lambda>a. - al_opened a)
        (filter (\<lambda>a. al_acked_at a = None \<and> al_resolved_at a = None) rows))"

definition delivered_steps :: "alarm_delivery list \<Rightarrow> uuid \<Rightarrow> int set" where
  "delivered_steps ds alarm = set (map ad_step (filter (\<lambda>d. ad_alarm d = alarm) ds))"

text \<open>The chain of one alarm; only steps that are indices of the policy can be looked up in it.\<close>

definition chain_of :: "severity \<Rightarrow> alarm_row \<Rightarrow> alarm_delivery list \<Rightarrow> escalation_state" where
  "chain_of sev a ds = \<lparr>opened_at = al_opened a, policy = policy_for sev, acknowledged_at = al_acked_at a,
     resolved_at = al_resolved_at a, delivered = nat ` {s \<in> delivered_steps ds (al_id a). 0 \<le> s}\<rparr>"

definition fallback_site :: string where
  "fallback_site = u_S @ ''antiye''"

definition climb_push :: "climb_db \<Rightarrow> severity \<Rightarrow> alarm_row \<Rightarrow> push_payload" where
  "climb_push db sev a =
    (let event = lookup_row ev_id (al_event a) (cd_events db);
         site = lookup_row site_id (al_site a) (cd_sites db)
     in build_push (al_event a) (al_id a) sev
          (case site of None \<Rightarrow> fallback_site | Some s \<Rightarrow> site_name s)
          (case event of None \<Rightarrow> ''Kamera'' | Some e \<Rightarrow> or_text (ev_vendor_label e) ''Kamera'')
          (case event of None \<Rightarrow> ''unknown_alarm'' | Some e \<Rightarrow> ev_type e)
          (case event of None \<Rightarrow> al_opened a | Some e \<Rightarrow> ev_occurred e)
          (case event of None \<Rightarrow> 0 | Some e \<Rightarrow> ev_risk e)
          (case event of None \<Rightarrow> [] | Some e \<Rightarrow> ev_reasons e)
          False False)"

datatype climb_error = Bad_severity string | Fan_out dispatch_error | Not_a_step

record climb_state =
  cs_push :: push_db
  cs_chain :: escalation_state
  cs_sent :: "(nat \<times> string) list"

definition audience :: "climb_db \<Rightarrow> push_device list \<Rightarrow> uuid \<Rightarrow> escalation_step \<Rightarrow> recipient list" where
  "audience db phones tenant st = recipients_for_role phones (cd_users db) tenant (step_role st) (step_users st)
     (fallback_for (step_role st))"

definition climb_step :: "climb_world \<Rightarrow> climb_db \<Rightarrow> severity \<Rightarrow> alarm_row \<Rightarrow> escalation_step \<Rightarrow> climb_state
    \<Rightarrow> climb_error + climb_state" where
  "climb_step w db sev a st s =
    (case step_index (policy_for sev) st of
       None \<Rightarrow> Inl Not_a_step
     | Some i \<Rightarrow>
         let rcs = audience db (push_devices (cs_push s)) (al_tenant a) st
         in if rcs = [] then Inr (s\<lparr>cs_chain := mark_delivered (cs_chain s) st\<rparr>)
            else case dispatch (cw_platforms w) (cw_send w (climb_push db sev a)) (cw_jitter w (al_id a) i)
                   (cw_ids w (al_id a) i) (cw_clock w (al_id a) i) (al_id a) (al_tenant a) rcs (int i) (cs_push s) of
                 Inl e \<Rightarrow> Inl (Fan_out e)
               | Inr (rep, push) \<Rightarrow> Inr (s\<lparr>cs_push := push, cs_chain := mark_delivered (cs_chain s) st,
                   cs_sent := cs_sent s @ [(i, step_role st)]\<rparr>))"

text \<open>
  The loop over the steps that are due.  A step that raises ends it, with the rows of the steps
  before it still in the session; \<open>dispatch_returns\<close> below shows that no fan-out raises.
\<close>

fun climb_loop :: "climb_world \<Rightarrow> climb_db \<Rightarrow> severity \<Rightarrow> alarm_row \<Rightarrow> escalation_step list \<Rightarrow> climb_state
    \<Rightarrow> climb_error option \<times> climb_state" where
  "climb_loop w db sev a [] s = (None, s)"
| "climb_loop w db sev a (st # sts) s =
    (case climb_step w db sev a st s of
       Inl e \<Rightarrow> (Some e, s)
     | Inr s' \<Rightarrow> climb_loop w db sev a sts s')"

definition escalate_alarm :: "climb_world \<Rightarrow> climb_db \<Rightarrow> alarm_row \<Rightarrow> instant \<Rightarrow> push_db
    \<Rightarrow> (climb_error + (nat \<times> string) list) \<times> push_db" where
  "escalate_alarm w db a now push =
    (case severity_of_value (al_severity a) of
       None \<Rightarrow> (Inl (Bad_severity (al_severity a)), push)
     | Some sev \<Rightarrow>
         let chain = chain_of sev a (deliveries push); due = due_steps chain now
         in if due = [] then (Inr [], push)
            else case climb_loop w db sev a due \<lparr>cs_push = push, cs_chain = chain, cs_sent = []\<rparr> of
                   (None, s) \<Rightarrow> (Inr (cs_sent s), cs_push s)
                 | (Some e, s) \<Rightarrow> (Inl e, cs_push s))"

definition sweep_alarm :: "climb_world \<Rightarrow> climb_db \<Rightarrow> instant \<Rightarrow> alarm_row \<Rightarrow> escalation_outcome \<times> push_db
    \<Rightarrow> escalation_outcome \<times> push_db" where
  "sweep_alarm w db now a x =
    (case escalate_alarm w db a now (snd x) of
       (Inr sent, push) \<Rightarrow> ((fst x)\<lparr>esc_escalated := esc_escalated (fst x) @ map (\<lambda>(i, r). (al_id a, i, r)) sent\<rparr>, push)
     | (Inl _, push) \<Rightarrow> ((fst x)\<lparr>esc_unreachable := esc_unreachable (fst x) @ [al_id a]\<rparr>, push))"

definition sweep_once :: "climb_world \<Rightarrow> instant \<Rightarrow> climb_db \<Rightarrow> escalation_outcome \<times> climb_db" where
  "sweep_once w now db =
    (case fold (sweep_alarm w db now) (open_alarms (cd_alarms db) now)
        (\<lparr>esc_escalated = [], esc_reached = 0, esc_unreachable = []\<rparr>, cd_push db) of
       (out, push) \<Rightarrow> (out, db\<lparr>cd_push := push\<rparr>))"

section \<open>A fan-out returns\<close>

text \<open>Primary keys: no two phones and no two users share an identifier.\<close>

definition keys_ok :: "user_row list \<Rightarrow> push_db \<Rightarrow> bool" where
  "keys_ok us push \<longleftrightarrow> distinct (map user_id us) \<and> distinct (map pd_id (push_devices push))"

lemma record_all_returns:
  assumes "distinct (map (\<lambda>x. rc_device (fst (snd x))) xs)"
    and "\<forall>x \<in> set xs. rc_device (fst (snd x)) \<in> pd_id ` set (push_devices (snd s))"
  shows "\<exists>t. record_all tenant step now xs s = Inr t"
  using assms
proof (induction xs arbitrary: s)
  case (Cons x xs)
  obtain i rc r rep db where x: "x = (i, rc, r)" and s: "s = (rep, db)" by (cases x, cases s) auto
  from Cons.prems obtain d where "d \<in> set (push_devices db)" "pd_id d = rc_device rc" by (auto simp: x s)
  then obtain d' where d': "lookup_row pd_id (rc_device rc) (push_devices db) = Some d'"
    by (cases "lookup_row pd_id (rc_device rc) (push_devices db)") (auto simp: lookup_row_None)
  obtain t where t: "record_result tenant step now x s = Inr t"
    "push_devices (snd t) = push_devices db \<or> push_devices (snd t) = filter (\<lambda>d. pd_id d \<noteq> rc_device rc) (push_devices db)"
    by (cases "dr_sent r"; cases "dr_status r = UNREGISTERED") (simp_all add: record_result_def x s Let_def d')
  have "rc_device (fst (snd y)) \<in> pd_id ` set (push_devices (snd t))" if "y \<in> set xs" for y
    using that Cons.prems t(2) by (force simp: x s)
  with Cons.IH [of t] Cons.prems(1) t(1) show ?case by simp
qed simp

lemma map_filter_short: "length xs \<le> 1 \<Longrightarrow> length (List.map_filter f xs) \<le> 1"
  by (cases xs) (auto simp: List.map_filter_def)

lemma joined_Cons: "joined (d # ds) us t c =
    map (Pair d) (filter (\<lambda>u. user_id u = pd_user d \<and> pd_tenant d = t \<and> user_active u \<and> c u) us) @ joined ds us t c"
proof -
  have "concat (map (\<lambda>u. if P u then [(d, u)] else []) us) = map (Pair d) (filter P us)" for P
    by (induction us) auto
  then show ?thesis by (simp add: joined_def)
qed

lemma recipients_where_devices:
  assumes "distinct (map user_id us)" and "distinct (map pd_id ds)"
  shows "distinct (map rc_device (recipients_where ds us t c)) \<and>
    rc_device ` set (recipients_where ds us t c) \<subseteq> pd_id ` set ds"
  using assms(2)
proof (induction ds)
  case Nil
  then show ?case by (simp add: recipients_where_def joined_def List.map_filter_def)
next
  case (Cons d ds)
  define new where "new = List.map_filter to_recipient
    (map (Pair d) (filter (\<lambda>u. user_id u = pd_user d \<and> pd_tenant d = t \<and> user_active u \<and> c u) us))"
  have split: "recipients_where (d # ds) us t c = new @ recipients_where ds us t c"
    by (simp add: recipients_where_def joined_Cons new_def List.map_filter_def)
  have "length new \<le> 1"
    unfolding new_def by (rule map_filter_short) (simp only: length_map filter_distinct_key [OF assms(1)])
  then have new: "distinct (map rc_device new)" by (cases new) auto
  have sub: "rc_device ` set new \<subseteq> {pd_id d}"
    by (auto simp: new_def List.map_filter_def to_recipient_def)
  have rows: "distinct (map rc_device (recipients_where ds us t c))"
      "rc_device ` set (recipients_where ds us t c) \<subseteq> pd_id ` set ds" "pd_id d \<notin> pd_id ` set ds"
    using Cons by simp_all
  have disjoint: "rc_device ` set new \<inter> rc_device ` set (recipients_where ds us t c) = {}"
    using Int_mono [OF sub rows(2)] rows(3) by simp
  have "distinct (map rc_device (new @ recipients_where ds us t c))"
    by (simp only: map_append distinct_append set_map new rows(1) disjoint simp_thms)
  moreover have "rc_device ` set (new @ recipients_where ds us t c) \<subseteq> pd_id ` set (d # ds)"
    using sub rows(2) unfolding set_append image_Un by auto
  ultimately show ?case unfolding split ..
qed

lemma first_audience_in: "first_audience q rs = [] \<or> (\<exists>r \<in> set rs. first_audience q rs = q r)"
  by (induction rs) (auto simp: Let_def)

lemma recipients_for_role_devices:
  assumes "distinct (map user_id us)" and "distinct (map pd_id ds)"
  shows "distinct (map rc_device (recipients_for_role ds us t r ids fb)) \<and>
    rc_device ` set (recipients_for_role ds us t r ids fb) \<subseteq> pd_id ` set ds"
proof -
  obtain c where "recipients_for_role ds us t r ids fb = [] \<or> recipients_for_role ds us t r ids fb = recipients_where ds us t c"
    using first_audience_in [of "\<lambda>c. recipients_where ds us t (\<lambda>u. user_role u = c)" "r # fb"]
    unfolding recipients_for_role_def by metis
  then show ?thesis using recipients_where_devices [OF assms, of t c] by auto
qed

lemma dispatch_returns:
  assumes "distinct (map rc_device rcs)" and "rc_device ` set rcs \<subseteq> pd_id ` set (push_devices db)"
  shows "\<exists>rep db'. dispatch ps send jitter ids now alarm tenant rcs step db = Inr (rep, db')"
proof -
  let ?xs = "zip (map ids [0..<length rcs]) (map (\<lambda>rc. (rc, send_one ps send jitter rc)) rcs)"
  have m: "map (\<lambda>x. rc_device (fst (snd x))) ?xs = map rc_device rcs"
    by (rule nth_equalityI) simp_all
  have "rc_device (fst (snd x)) \<in> pd_id ` set (push_devices db)" if "x \<in> set ?xs" for x
  proof -
    have "snd x \<in> set (map (\<lambda>rc. (rc, send_one ps send jitter rc)) rcs)"
      using that by (metis prod.collapse set_zip_rightD)
    then have "fst (snd x) \<in> set rcs" by auto
    with assms(2) show ?thesis by blast
  qed
  then show ?thesis using record_all_returns [of ?xs] assms(1) m by (simp add: dispatch_def Let_def)
qed

section \<open>What a sweep may write\<close>

definition pairs :: "alarm_delivery list \<Rightarrow> (uuid \<times> int) set" where
  "pairs ds = (\<lambda>d. (ad_alarm d, ad_step d)) ` set ds"

definition grows :: "(alarm_delivery \<Rightarrow> bool) \<Rightarrow> push_db \<Rightarrow> push_db \<Rightarrow> bool" where
  "grows P p q \<longleftrightarrow> (\<exists>rows. deliveries q = deliveries p @ rows \<and> (\<forall>r \<in> set rows. P r)) \<and>
     (\<exists>keep. push_devices q = filter keep (push_devices p))"

lemma growsI:
  "deliveries q = deliveries p @ rows \<Longrightarrow> (\<And>r. r \<in> set rows \<Longrightarrow> P r) \<Longrightarrow> push_devices q = filter keep (push_devices p) \<Longrightarrow>
   grows P p q"
  by (auto simp: grows_def)

lemma grows_refl [simp]: "grows P p p"
  by (rule growsI [of _ _ "[]" _ "\<lambda>_. True"]) simp_all

lemma grows_trans:
  assumes "grows P p q" and "grows P q r"
  shows "grows P p r"
proof -
  obtain a b f g where "deliveries q = deliveries p @ a" "\<forall>x \<in> set a. P x" "push_devices q = filter f (push_devices p)"
    "deliveries r = deliveries q @ b" "\<forall>x \<in> set b. P x" "push_devices r = filter g (push_devices q)"
    using assms unfolding grows_def by blast
  then show ?thesis by (intro growsI [of _ _ "a @ b" _ "\<lambda>x. f x \<and> g x"]) (auto intro: filter_cong)
qed

lemma grows_mono: "grows P p q \<Longrightarrow> (\<And>r. P r \<Longrightarrow> Q r) \<Longrightarrow> grows Q p q"
  unfolding grows_def by blast

lemma grows_pairs: "grows P p q \<Longrightarrow> pairs (deliveries p) \<subseteq> pairs (deliveries q)"
  by (auto simp: grows_def pairs_def)

lemma grows_keys: "grows P p q \<Longrightarrow> keys_ok us p \<Longrightarrow> keys_ok us q"
  by (auto simp: grows_def keys_ok_def distinct_map_filter)

lemma grows_devices: "grows P p q \<Longrightarrow> set (push_devices q) \<subseteq> set (push_devices p)"
  by (auto simp: grows_def)

lemma audience_shrinks:
  assumes "set ds' \<subseteq> set ds" and "audience db ds t st = []"
  shows "audience db ds' t st = []"
proof -
  have "recipients_where ds' us t c = []" if "recipients_where ds us t c = []" for us c
    using that assms(1) recipients_where_iff [of _ ds us t c] recipients_where_iff [of _ ds' us t c]
    by (metis last_in_set list.set_cases subsetD empty_iff empty_set)
  with assms(2) show ?thesis
    unfolding audience_def recipients_for_role_def
    by (auto simp only: first_audience_Nil split: if_splits)
qed

text \<open>The rows one step of one alarm may add.\<close>

definition page_of :: "alarm_row \<Rightarrow> nat \<Rightarrow> alarm_delivery \<Rightarrow> bool" where
  "page_of a i r \<longleftrightarrow> ad_alarm r = al_id a \<and> ad_tenant r = al_tenant a \<and> ad_step r = int i"

lemma dispatch_rows:
  assumes "dispatch ps send jitter ids now alarm tenant rcs step db = Inr (rep, db')"
  shows "\<exists>rows keep. deliveries db' = deliveries db @ rows \<and> length rows = length rcs \<and>
    (\<forall>r \<in> set rows. ad_alarm r = alarm \<and> ad_tenant r = tenant \<and> ad_step r = step) \<and>
    push_devices db' = filter keep (push_devices db)"
proof (cases "rcs = []")
  case True
  with assms show ?thesis by (auto simp: dispatch_def intro!: exI [of _ "\<lambda>_. True"])
next
  case False
  let ?xs = "zip (map ids [0..<length rcs]) (map (\<lambda>rc. (rc, send_one ps send jitter rc)) rcs)"
  let ?rep = "\<lparr>rep_alarm = alarm, rep_sent = 0, rep_failed = 0, rep_pruned = 0, rep_results = []\<rparr>"
  let ?rows = "map (\<lambda>(i, rc, r). delivery_row i tenant alarm step now rc r) ?xs"
  from assms False have "record_all tenant step now ?xs (?rep, db) = Inr (rep, db')"
    by (simp add: dispatch_def Let_def)
  note B = record_all_books [OF this]
  have "deliveries db' = deliveries db @ ?rows" using B by simp
  moreover have "length ?rows = length rcs" by simp
  moreover have "\<forall>r \<in> set ?rows. ad_alarm r = alarm \<and> ad_tenant r = tenant \<and> ad_step r = step"
    by (auto simp: delivery_row_def)
  ultimately show ?thesis using B by blast
qed

lemma climb_step_effect:
  assumes i: "step_index (policy_for sev) st = Some i" and keys: "keys_ok (cd_users db) (cs_push s)"
  shows "\<exists>s'. climb_step w db sev a st s = Inr s' \<and> grows (page_of a i) (cs_push s) (cs_push s') \<and>
    ((al_id a, int i) \<in> pairs (deliveries (cs_push s')) \<or> audience db (push_devices (cs_push s')) (al_tenant a) st = [])"
proof (cases "audience db (push_devices (cs_push s)) (al_tenant a) st = []")
  case True
  with i show ?thesis by (simp add: climb_step_def)
next
  case False
  let ?rcs = "audience db (push_devices (cs_push s)) (al_tenant a) st"
  have dev: "distinct (map rc_device ?rcs)" "rc_device ` set ?rcs \<subseteq> pd_id ` set (push_devices (cs_push s))"
    using keys recipients_for_role_devices unfolding audience_def keys_ok_def by blast+
  obtain rep p' where run: "dispatch (cw_platforms w) (cw_send w (climb_push db sev a)) (cw_jitter w (al_id a) i)
      (cw_ids w (al_id a) i) (cw_clock w (al_id a) i) (al_id a) (al_tenant a) ?rcs (int i) (cs_push s) = Inr (rep, p')"
    using dispatch_returns [OF dev] by blast
  from dispatch_rows [OF run] obtain rows keep where
    rows: "deliveries p' = deliveries (cs_push s) @ rows" "push_devices p' = filter keep (push_devices (cs_push s))"
    and len: "length rows = length ?rcs"
    and all: "\<forall>r \<in> set rows. ad_alarm r = al_id a \<and> ad_tenant r = al_tenant a \<and> ad_step r = int i"
    by blast
  have page: "page_of a i r" if "r \<in> set rows" for r
    using all that by (simp add: page_of_def)
  obtain r where r: "r \<in> set rows" using len False by (cases rows) auto
  have "(al_id a, int i) \<in> pairs (deliveries p')"
    using r page [OF r] rows(1) by (auto simp: pairs_def page_of_def image_iff intro!: bexI [of _ r])
  moreover have "grows (page_of a i) (cs_push s) p'" by (rule growsI [OF rows(1) page rows(2)])
  ultimately show ?thesis using i run False by (simp add: climb_step_def Let_def)
qed

lemma climb_loop_effect:
  assumes "\<forall>st \<in> set sts. \<exists>i \<in> I. step_index (policy_for sev) st = Some i" and "keys_ok (cd_users db) (cs_push s)"
  shows "\<exists>s'. climb_loop w db sev a sts s = (None, s') \<and>
    grows (\<lambda>r. \<exists>i \<in> I. page_of a i r) (cs_push s) (cs_push s') \<and>
    (\<forall>st \<in> set sts. \<forall>i. step_index (policy_for sev) st = Some i \<longrightarrow>
      (al_id a, int i) \<in> pairs (deliveries (cs_push s')) \<or> audience db (push_devices (cs_push s')) (al_tenant a) st = [])"
  using assms
proof (induction sts arbitrary: s)
  case (Cons st sts)
  let ?P = "\<lambda>r. \<exists>i \<in> I. page_of a i r"
  obtain i where i: "i \<in> I" "step_index (policy_for sev) st = Some i" using Cons.prems(1) by auto
  from climb_step_effect [OF i(2) Cons.prems(2)] obtain s1 where
    s1: "climb_step w db sev a st s = Inr s1" "grows (page_of a i) (cs_push s) (cs_push s1)"
      "(al_id a, int i) \<in> pairs (deliveries (cs_push s1)) \<or> audience db (push_devices (cs_push s1)) (al_tenant a) st = []"
    by blast
  have g1: "grows ?P (cs_push s) (cs_push s1)" using s1(2) i(1) by (auto elim: grows_mono)
  have "\<forall>st \<in> set sts. \<exists>i \<in> I. step_index (policy_for sev) st = Some i" using Cons.prems(1) by simp
  from Cons.IH [OF this grows_keys [OF g1 Cons.prems(2)]] obtain s' where
    s': "climb_loop w db sev a sts s1 = (None, s')" "grows ?P (cs_push s1) (cs_push s')"
      "\<forall>st \<in> set sts. \<forall>i. step_index (policy_for sev) st = Some i \<longrightarrow>
        (al_id a, int i) \<in> pairs (deliveries (cs_push s')) \<or> audience db (push_devices (cs_push s')) (al_tenant a) st = []"
    by blast
  have "(al_id a, int i) \<in> pairs (deliveries (cs_push s')) \<or> audience db (push_devices (cs_push s')) (al_tenant a) st = []"
    using s1(3) grows_pairs [OF s'(2)] audience_shrinks [OF grows_devices [OF s'(2)]] by blast
  with s'(3) i(2) s1(1) s'(1) grows_trans [OF g1 s'(2)] show ?case by auto
qed simp

definition owes :: "alarm_row \<Rightarrow> instant \<Rightarrow> alarm_delivery list \<Rightarrow> nat \<Rightarrow> bool" where
  "owes a now ds i \<longleftrightarrow> (\<exists>sev. severity_of_value (al_severity a) = Some sev \<and> i < length (steps (policy_for sev)) \<and>
     seconds (after_seconds (steps (policy_for sev) ! i)) \<le> now - al_opened a) \<and> (al_id a, int i) \<notin> pairs ds"

definition step_of :: "alarm_row \<Rightarrow> nat \<Rightarrow> escalation_step" where
  "step_of a i = steps (policy_for (the (severity_of_value (al_severity a)))) ! i"

definition waiting :: "alarm_row \<Rightarrow> bool" where
  "waiting a \<longleftrightarrow> al_acked_at a = None \<and> al_resolved_at a = None"

lemma chain_delivered: "i \<in> delivered (chain_of sev a ds) \<longleftrightarrow> (al_id a, int i) \<in> pairs ds"
proof
  assume "i \<in> delivered (chain_of sev a ds)"
  then show "(al_id a, int i) \<in> pairs ds"
    by (auto simp: chain_of_def delivered_steps_def pairs_def image_iff) metis
next
  assume "(al_id a, int i) \<in> pairs ds"
  then have "int i \<in> delivered_steps ds (al_id a)" by (auto simp: pairs_def delivered_steps_def image_iff)
  then have "nat (int i) \<in> nat ` {s \<in> delivered_steps ds (al_id a). 0 \<le> s}" by (intro imageI) simp
  then show "i \<in> delivered (chain_of sev a ds)" by (simp add: chain_of_def)
qed

lemma chain_due:
  assumes "waiting a" and "severity_of_value (al_severity a) = Some sev"
  shows "set (due_steps (chain_of sev a ds) now) = step_of a ` {i. owes a now ds i}"
    "owes a now ds i \<Longrightarrow> step_index (policy_for sev) (step_of a i) = Some i"
proof -
  have c: "\<not> is_stopped (chain_of sev a ds)" "policy (chain_of sev a ds) = policy_for sev"
    "opened_at (chain_of sev a ds) = al_opened a"
    using assms(1) by (simp_all add: chain_of_def is_stopped_def waiting_def)
  show "set (due_steps (chain_of sev a ds) now) = step_of a ` {i. owes a now ds i}"
    by (auto simp: due_steps_iff c chain_delivered owes_def step_of_def assms(2))
  show "step_index (policy_for sev) (step_of a i) = Some i" if "owes a now ds i"
    using that step_index_distinct [of "policy_for sev" i] policy_for_wf [of sev]
    by (auto simp: owes_def step_of_def assms(2))
qed

definition settled :: "climb_db \<Rightarrow> push_db \<Rightarrow> alarm_row \<Rightarrow> nat \<Rightarrow> bool" where
  "settled db push a i \<longleftrightarrow> (al_id a, int i) \<in> pairs (deliveries push) \<or>
     audience db (push_devices push) (al_tenant a) (step_of a i) = []"

lemma settled_grows: "grows P p q \<Longrightarrow> settled db p a i \<Longrightarrow> settled db q a i"
  unfolding settled_def by (meson audience_shrinks grows_devices grows_pairs subsetD)

lemma escalate_effect:
  assumes open_a: "waiting a" and keys: "keys_ok (cd_users db) push"
    and run: "escalate_alarm w db a now push = (x, push')"
  shows "grows (\<lambda>r. \<exists>i. owes a now (deliveries push) i \<and> page_of a i r) push push' \<and>
    ((\<exists>e. x = Inl e) \<longleftrightarrow> severity_of_value (al_severity a) = None) \<and>
    (\<forall>i. owes a now (deliveries push) i \<longrightarrow> settled db push' a i)"
proof (cases "severity_of_value (al_severity a)")
  case None
  then have "x = Inl (Bad_severity (al_severity a))" "push' = push" using run by (simp_all add: escalate_alarm_def)
  with None show ?thesis by (simp add: owes_def)
next
  case (Some sev)
  let ?due = "due_steps (chain_of sev a (deliveries push)) now"
  let ?I = "{i. owes a now (deliveries push) i}"
  note due = chain_due [OF open_a Some, where ds = "deliveries push" and now = now]
  have steps: "\<forall>st \<in> set ?due. \<exists>i \<in> ?I. step_index (policy_for sev) st = Some i" using due by auto
  show ?thesis
  proof (cases "?due = []")
    case True
    then have "?I = {}" using due(1) by simp
    moreover have "x = Inr []" "push' = push" using run Some True by (simp_all add: escalate_alarm_def Let_def)
    ultimately show ?thesis using Some by simp
  next
    case False
    from climb_loop_effect [OF steps, of db "\<lparr>cs_push = push, cs_chain = chain_of sev a (deliveries push), cs_sent = []\<rparr>" w a] keys
    obtain s' where s': "climb_loop w db sev a ?due \<lparr>cs_push = push, cs_chain = chain_of sev a (deliveries push), cs_sent = []\<rparr> = (None, s')"
      "grows (\<lambda>r. \<exists>i \<in> ?I. page_of a i r) push (cs_push s')"
      "\<forall>st \<in> set ?due. \<forall>i. step_index (policy_for sev) st = Some i \<longrightarrow>
        (al_id a, int i) \<in> pairs (deliveries (cs_push s')) \<or> audience db (push_devices (cs_push s')) (al_tenant a) st = []"
      by auto
    then have x: "x = Inr (cs_sent s')" "push' = cs_push s'"
      using run Some False by (simp_all add: escalate_alarm_def Let_def)
    have "settled db push' a i" if "owes a now (deliveries push) i" for i
      using s'(3) due(1) due(2) [OF that] that unfolding settled_def x by blast
    with s'(2) x Some show ?thesis by simp
  qed
qed

section \<open>Every sweep\<close>

lemma open_alarms_iff: "a \<in> set (open_alarms rows now) \<longleftrightarrow>
    a \<in> set rows \<and> waiting a \<and> now - seconds max_age_seconds \<le> al_opened a"
  by (auto simp: open_alarms_def waiting_def)

lemma owes_earlier: "grows P p q \<Longrightarrow> owes a now (deliveries q) i \<Longrightarrow> owes a now (deliveries p) i"
  using grows_pairs unfolding owes_def by blast

lemma sweep_fold_effect:
  assumes "\<forall>a \<in> set as. waiting a" and "keys_ok (cd_users db) (snd x)"
  shows "grows (\<lambda>r. \<exists>a \<in> set as. \<exists>i. owes a now (deliveries (snd x)) i \<and> page_of a i r) (snd x)
      (snd (fold (sweep_alarm w db now) as x)) \<and>
    (\<forall>a \<in> set as. \<forall>i. owes a now (deliveries (snd x)) i \<longrightarrow> settled db (snd (fold (sweep_alarm w db now) as x)) a i) \<and>
    esc_unreachable (fst (fold (sweep_alarm w db now) as x)) = esc_unreachable (fst x) @
      map al_id (filter (\<lambda>a. severity_of_value (al_severity a) = None) as)"
  using assms
proof (induction as arbitrary: x)
  case (Cons a as)
  obtain y push where run: "escalate_alarm w db a now (snd x) = (y, push)" by (cases "escalate_alarm w db a now (snd x)")
  let ?x = "sweep_alarm w db now a x"
  have push: "snd ?x = push" using run by (auto simp: sweep_alarm_def split: sum.splits)
  from Cons.prems have open_a: "waiting a" and keys: "keys_ok (cd_users db) (snd x)" by simp_all
  note one = escalate_effect [OF open_a keys run]
  let ?P = "\<lambda>r. \<exists>b \<in> set (a # as). \<exists>i. owes b now (deliveries (snd x)) i \<and> page_of b i r"
  have g1: "grows ?P (snd x) push" using one [THEN conjunct1] by (rule grows_mono) auto
  note IH = Cons.IH [of ?x, unfolded push, OF _ grows_keys [OF g1 keys]]
  have rest: "\<forall>b \<in> set as. waiting b" using Cons.prems by simp
  have g2: "grows ?P push (snd (fold (sweep_alarm w db now) as ?x))"
    using IH [OF rest, THEN conjunct1] by (rule grows_mono) (auto dest: owes_earlier [OF g1])
  have "settled db (snd (fold (sweep_alarm w db now) as ?x)) b i"
    if "b \<in> set (a # as)" "owes b now (deliveries (snd x)) i" for b i
  proof (cases "settled db push b i")
    case True
    with g2 show ?thesis by (rule settled_grows)
  next
    case False
    with that one have "b \<in> set as" by auto
    moreover from False that(2) have "owes b now (deliveries push) i" by (simp add: owes_def settled_def)
    ultimately show ?thesis using IH [OF rest] by blast
  qed
  moreover have "esc_unreachable (fst ?x) = esc_unreachable (fst x) @
      map al_id (filter (\<lambda>a. severity_of_value (al_severity a) = None) [a])"
    using one run by (cases y) (auto simp: sweep_alarm_def)
  ultimately show ?case using IH [OF rest] grows_trans [OF g1 g2] by auto
qed simp

lemma sweep_effect:
  assumes "keys_ok (cd_users db) (cd_push db)"
  shows "grows (\<lambda>r. \<exists>a \<in> set (open_alarms (cd_alarms db) now). \<exists>i. owes a now (deliveries (cd_push db)) i \<and> page_of a i r)
      (cd_push db) (cd_push (snd (sweep_once w now db))) \<and>
    (\<forall>a \<in> set (open_alarms (cd_alarms db) now). \<forall>i. owes a now (deliveries (cd_push db)) i \<longrightarrow>
      settled db (cd_push (snd (sweep_once w now db))) a i) \<and>
    esc_unreachable (fst (sweep_once w now db)) =
      map al_id (filter (\<lambda>a. severity_of_value (al_severity a) = None) (open_alarms (cd_alarms db) now))"
proof -
  have "\<forall>a \<in> set (open_alarms (cd_alarms db) now). waiting a" by (simp add: open_alarms_iff)
  from sweep_fold_effect [OF this, of db "(\<lparr>esc_escalated = [], esc_reached = 0, esc_unreachable = []\<rparr>, cd_push db)" now w] assms
  show ?thesis by (simp add: sweep_once_def case_prod_unfold)
qed

lemma climb_loop_idle:
  assumes "\<forall>st \<in> set sts. \<exists>i. step_index (policy_for sev) st = Some i"
    and "\<forall>st \<in> set sts. audience db (push_devices (cs_push s)) (al_tenant a) st = []"
  shows "\<exists>s'. climb_loop w db sev a sts s = (None, s') \<and> cs_push s' = cs_push s"
  using assms
proof (induction sts arbitrary: s)
  case (Cons st sts)
  let ?s = "s\<lparr>cs_chain := mark_delivered (cs_chain s) st\<rparr>"
  have "climb_step w db sev a st s = Inr ?s" using Cons.prems by (auto simp: climb_step_def)
  with Cons.IH [of ?s] Cons.prems show ?case by simp
qed simp

lemma escalate_idle:
  assumes "waiting a" and "\<forall>i. owes a now (deliveries push) i \<longrightarrow> settled db push a i"
  shows "snd (escalate_alarm w db a now push) = push"
proof (cases "severity_of_value (al_severity a)")
  case None
  then show ?thesis by (simp add: escalate_alarm_def)
next
  case (Some sev)
  let ?s = "\<lparr>cs_push = push, cs_chain = chain_of sev a (deliveries push), cs_sent = []\<rparr>"
  note due = chain_due [OF assms(1) Some, where ds = "deliveries push" and now = now]
  have "audience db (push_devices push) (al_tenant a) (step_of a i) = []" if "owes a now (deliveries push) i" for i
    using assms(2) that by (simp add: settled_def owes_def)
  then obtain s' where "climb_loop w db sev a (due_steps (chain_of sev a (deliveries push)) now) ?s = (None, s')"
    "cs_push s' = push"
    using climb_loop_idle [of "due_steps (chain_of sev a (deliveries push)) now" sev db ?s a w] due by auto
  with Some show ?thesis by (simp add: escalate_alarm_def Let_def)
qed

lemma sweep_fold_idle:
  assumes "\<forall>a \<in> set as. waiting a \<and> (\<forall>i. owes a now (deliveries push) i \<longrightarrow> settled db push a i)" and "snd x = push"
  shows "snd (fold (sweep_alarm w db now) as x) = push"
  using assms
proof (induction as arbitrary: x)
  case (Cons a as)
  have "snd (sweep_alarm w db now a x) = push"
    using escalate_idle [of a now push db w] Cons.prems
    by (auto simp: sweep_alarm_def split: prod.splits sum.splits)
  with Cons show ?case by simp
qed simp

lemma settled_push: "settled (db\<lparr>cd_push := p\<rparr>) = settled db" 
  by (intro ext) (simp add: settled_def audience_def)

lemma sweep_frame: "snd (sweep_once w now db) = db\<lparr>cd_push := cd_push (snd (sweep_once w now db))\<rparr>"
  by (simp add: sweep_once_def case_prod_unfold)

text \<open>
  C3. Every row a sweep writes pages an alarm that nobody has acknowledged or resolved and that is
  at most two hours old, in that alarm's tenant, for a step of its policy whose delay has passed and
  for which no delivery was recorded before; nothing but phones and deliveries is written.
\<close>

theorem sweep_pages_each_step_once:
  assumes "sweep_once w now db = (out, db')" and "keys_ok (cd_users db) (cd_push db)"
  shows "db' = db\<lparr>cd_push := cd_push db'\<rparr> \<and>
    (\<exists>rows. deliveries (cd_push db') = deliveries (cd_push db) @ rows \<and>
      (\<forall>r \<in> set rows. (ad_alarm r, ad_step r) \<notin> pairs (deliveries (cd_push db)) \<and>
        (\<exists>a \<in> set (cd_alarms db). ad_alarm r = al_id a \<and> ad_tenant r = al_tenant a \<and>
          al_acked_at a = None \<and> al_resolved_at a = None \<and> now - seconds max_age_seconds \<le> al_opened a \<and>
          (\<exists>sev i. severity_of_value (al_severity a) = Some sev \<and> ad_step r = int i \<and> i < length (steps (policy_for sev)) \<and>
            seconds (after_seconds (steps (policy_for sev) ! i)) \<le> now - al_opened a))))"
proof -
  have db': "db' = snd (sweep_once w now db)" by (simp add: assms(1))
  obtain rows where rows: "deliveries (cd_push db') = deliveries (cd_push db) @ rows"
    "\<forall>r \<in> set rows. \<exists>a \<in> set (open_alarms (cd_alarms db) now). \<exists>i. owes a now (deliveries (cd_push db)) i \<and> page_of a i r"
    using sweep_effect [OF assms(2), of now w] unfolding grows_def db' by blast
  have "(ad_alarm r, ad_step r) \<notin> pairs (deliveries (cd_push db)) \<and>
        (\<exists>a \<in> set (cd_alarms db). ad_alarm r = al_id a \<and> ad_tenant r = al_tenant a \<and>
          al_acked_at a = None \<and> al_resolved_at a = None \<and> now - seconds max_age_seconds \<le> al_opened a \<and>
          (\<exists>sev i. severity_of_value (al_severity a) = Some sev \<and> ad_step r = int i \<and> i < length (steps (policy_for sev)) \<and>
            seconds (after_seconds (steps (policy_for sev) ! i)) \<le> now - al_opened a))" if r: "r \<in> set rows" for r
  proof -
    obtain a i where ai: "a \<in> set (open_alarms (cd_alarms db) now)" "owes a now (deliveries (cd_push db)) i" "page_of a i r"
      using rows(2) r by blast
    from ai(2,3) have "(ad_alarm r, ad_step r) \<notin> pairs (deliveries (cd_push db))" by (simp add: owes_def page_of_def)
    moreover have "a \<in> set (cd_alarms db)" "ad_alarm r = al_id a" "ad_tenant r = al_tenant a" "al_acked_at a = None"
      "al_resolved_at a = None" "now - seconds max_age_seconds \<le> al_opened a" "ad_step r = int i"
      using ai(1,3) by (simp_all add: open_alarms_iff waiting_def page_of_def)
    ultimately show ?thesis using ai(2) unfolding owes_def by blast
  qed
  with rows(1) sweep_frame [of w now db] show ?thesis unfolding db' by blast
qed

text \<open>
  C4. A sweep leaves no debt: afterwards every step an open alarm owed has a delivery row or has
  nobody left to tell, only alarms of unknown severity are reported as failed, and a second sweep at
  the same moment writes nothing, whatever the providers would answer.
\<close>

theorem sweep_leaves_no_debt:
  assumes "sweep_once w now db = (out, db')" and "keys_ok (cd_users db) (cd_push db)"
  shows "(\<forall>a \<in> set (open_alarms (cd_alarms db) now). \<forall>i. owes a now (deliveries (cd_push db)) i \<longrightarrow>
      (al_id a, int i) \<in> pairs (deliveries (cd_push db')) \<or>
      audience db (push_devices (cd_push db')) (al_tenant a) (step_of a i) = []) \<and>
    esc_unreachable out = map al_id (filter (\<lambda>a. severity_of_value (al_severity a) = None)
      (open_alarms (cd_alarms db) now)) \<and>
    snd (sweep_once w' now db') = db'"
proof -
  have db': "db' = snd (sweep_once w now db)" "out = fst (sweep_once w now db)" by (simp_all add: assms(1))
  note E = sweep_effect [OF assms(2), of now w, folded db']
  have same: "db' = db\<lparr>cd_push := cd_push db'\<rparr>" unfolding db' by (rule sweep_frame)
  have "cd_alarms (db\<lparr>cd_push := q\<rparr>) = cd_alarms db" for q by simp
  with same settled_push have tables: "cd_alarms db' = cd_alarms db" "settled db' = settled db"
    by metis+
  have "settled db' (cd_push db') a i"
    if "a \<in> set (open_alarms (cd_alarms db') now)" "owes a now (deliveries (cd_push db')) i" for a i
    using E that owes_earlier [OF E [THEN conjunct1]] unfolding tables by blast
  then have "cd_push (snd (sweep_once w' now db')) = cd_push db'"
    using sweep_fold_idle [of "open_alarms (cd_alarms db') now" now "cd_push db'" db'
        "(\<lparr>esc_escalated = [], esc_reached = 0, esc_unreachable = []\<rparr>, cd_push db')" w']
    by (simp add: sweep_once_def case_prod_unfold open_alarms_iff)
  then have "snd (sweep_once w' now db') = db'" using sweep_frame [of w' now db'] by simp
  with E show ?thesis unfolding settled_def by blast
qed

definition sweeps :: "(climb_world \<times> instant) list \<Rightarrow> climb_db \<Rightarrow> climb_db" where
  "sweeps ws db = fold (\<lambda>(w, now) db. snd (sweep_once w now db)) ws db"

lemma sweep_users: "cd_users (snd (sweep_once w now db)) = cd_users db"
  by (simp add: sweep_once_def case_prod_unfold)

lemma sweep_keeps_page:
  assumes "keys_ok (cd_users db) (cd_push db)" and "(k, i) \<in> pairs (deliveries (cd_push db))"
  shows "filter (\<lambda>d. ad_alarm d = k \<and> ad_step d = i) (deliveries (cd_push (snd (sweep_once w now db)))) =
    filter (\<lambda>d. ad_alarm d = k \<and> ad_step d = i) (deliveries (cd_push db))"
proof -
  obtain rows where rows: "deliveries (cd_push (snd (sweep_once w now db))) = deliveries (cd_push db) @ rows"
    "\<forall>r \<in> set rows. \<exists>a \<in> set (open_alarms (cd_alarms db) now). \<exists>i. owes a now (deliveries (cd_push db)) i \<and> page_of a i r"
    using sweep_effect [OF assms(1), of now w] unfolding grows_def by blast
  have "(ad_alarm r, ad_step r) \<noteq> (k, i)" if "r \<in> set rows" for r
    using rows(2) that assms(2) by (auto simp: owes_def page_of_def)
  then show ?thesis by (auto simp: rows(1) filter_empty_conv)
qed

text \<open>
  C39. A step whose every push failed is spent: once one delivery row of an alarm and a step exists,
  be its status \<open>FAILED\<close>, no later sweep sends that step again, however long the alarm stays
  unanswered.
\<close>

theorem failed_step_is_never_retried:
  assumes "keys_ok (cd_users db) (cd_push db)"
    and "r \<in> set (deliveries (cd_push db))" and "ad_status r = delivery_value FAILED"
  shows "filter (\<lambda>d. ad_alarm d = ad_alarm r \<and> ad_step d = ad_step r) (deliveries (cd_push (sweeps ws db))) =
    filter (\<lambda>d. ad_alarm d = ad_alarm r \<and> ad_step d = ad_step r) (deliveries (cd_push db))"
  using assms(1,2)
proof (induction ws arbitrary: db)
  case Nil
  then show ?case by (simp add: sweeps_def)
next
  case (Cons x ws)
  obtain w now where x: "x = (w, now)" by (cases x)
  let ?db = "snd (sweep_once w now db)"
  note g = sweep_effect [OF Cons.prems(1), of now w, THEN conjunct1]
  have "keys_ok (cd_users ?db) (cd_push ?db)" unfolding sweep_users by (rule grows_keys [OF g Cons.prems(1)])
  moreover have "r \<in> set (deliveries (cd_push ?db))" using g Cons.prems(2) by (auto simp: grows_def)
  ultimately have "filter (\<lambda>d. ad_alarm d = ad_alarm r \<and> ad_step d = ad_step r) (deliveries (cd_push (sweeps ws ?db))) =
    filter (\<lambda>d. ad_alarm d = ad_alarm r \<and> ad_step d = ad_step r) (deliveries (cd_push ?db))" by (rule Cons.IH)
  moreover have "(ad_alarm r, ad_step r) \<in> pairs (deliveries (cd_push db))" using Cons.prems(2) by (simp add: pairs_def)
  ultimately show ?case using sweep_keeps_page [OF Cons.prems(1)] by (simp add: sweeps_def x)
qed

section \<open>A night with the providers down\<close>

definition ringing :: alarm_row where
  "ringing = \<lparr>al_id = 51, al_tenant = 1, al_site = 30, al_event = 1, al_severity = ''HIGH'',
     al_status = ''ALERTED'', al_opened = 0, al_acked_at = None, al_acked_by = None, al_resolved_at = None,
     al_resolved_by = None, al_resolution = None, al_note = None, al_step = 0\<rparr>"

definition night_db :: climb_db where
  "night_db = \<lparr>cd_alarms = [ringing], cd_events = [], cd_sites = [], cd_users = [sample_user 3 ''GUARD''],
     cd_push = \<lparr>push_devices = [sample_device 3], deliveries = []\<rparr>\<rparr>"

definition provider_world :: "send_outcome \<Rightarrow> climb_world" where
  "provider_world o' = \<lparr>cw_platforms = {IOS}, cw_send = (\<lambda>p rc n. o'), cw_jitter = (\<lambda>_ _ _. 0),
     cw_ids = (\<lambda>a i n. n), cw_clock = (\<lambda>_ _. 0)\<rparr>"

abbreviation down :: climb_world where
  "down \<equiv> provider_world (Transport_error ''503'' False)"

lemma night_keys: "keys_ok (cd_users night_db) (cd_push night_db)"
  by (simp add: keys_ok_def night_db_def)

lemmas climb_eval = night_db_def ringing_def provider_world_def sweep_once_def sweep_alarm_def escalate_alarm_def
  open_alarms_def max_age_seconds_def severity_of_value_def chain_of_def delivered_steps_def due_steps_def due_index_def
  is_stopped_def policy_for_def default_policy_def role_step_def climb_step_def step_index_def audience_def Let_def
  recipients_for_role_def recipients_where_def joined_def to_recipient_def platform_of_def lower_def lower_char_def
  sample_user_def sample_device_def dispatch_def send_one_def send_with_retry_def max_attempts_def finished_def
  numeral_eq_Suc record_result_def dr_sent_def delivery_row_def mark_delivered_def seconds_def

lemma night_first: "map (\<lambda>r. (ad_alarm r, ad_step r, ad_status r))
    (deliveries (cd_push (snd (sweep_once down (10 * second) night_db)))) = [(51, 0, ''FAILED'')]"
  by (simp add: climb_eval List.map_filter_def)

lemma night_row: "\<exists>r. deliveries (cd_push (snd (sweep_once down (10 * second) night_db))) = [r] \<and>
    ad_alarm r = 51 \<and> ad_step r = 0 \<and> ad_status r = delivery_value FAILED"
  using night_first by (auto simp: map_eq_Cons_conv)

lemma night_after_keys: "keys_ok (cd_users (snd (sweep_once down (10 * second) night_db)))
    (cd_push (snd (sweep_once down (10 * second) night_db)))"
  using grows_keys [OF sweep_effect [OF night_keys, THEN conjunct1] night_keys] by (simp add: sweep_users)

theorem failed_step_is_never_retried_witness:
  "let db = snd (sweep_once down (10 * second) night_db);
       later = sweeps (map (\<lambda>n. (provider_world (Accepted None), (20 + 10 * int n) * second)) [0..<700]) db
   in length (deliveries (cd_push db)) = 1 \<and>
      length (filter (\<lambda>d. ad_alarm d = 51 \<and> ad_step d = 0) (deliveries (cd_push later))) = 1"
proof -
  obtain r where r: "deliveries (cd_push (snd (sweep_once down (10 * second) night_db))) = [r]"
    "ad_alarm r = 51" "ad_step r = 0" "ad_status r = delivery_value FAILED" using night_row by blast
  from failed_step_is_never_retried [OF night_after_keys, of r] r show ?thesis by (simp add: Let_def)
qed

theorem sweep_pages_each_step_once_witness:
  "let db = snd (sweep_once down (10 * second) night_db)
   in deliveries (cd_push db) \<noteq> [] \<and> (\<forall>r \<in> set (deliveries (cd_push db)). ad_alarm r = 51 \<and> ad_tenant r = 1)"
proof -
  obtain out db' where run: "sweep_once down (10 * second) night_db = (out, db')"
    by (cases "sweep_once down (10 * second) night_db")
  have "deliveries (cd_push db') \<noteq> []" using night_row run by auto
  moreover have "\<forall>r \<in> set (deliveries (cd_push db')). ad_alarm r = 51 \<and> ad_tenant r = 1"
    using sweep_pages_each_step_once [OF run night_keys] by (auto simp: night_db_def ringing_def)
  ultimately show ?thesis unfolding Let_def run snd_conv by blast
qed

theorem sweep_leaves_no_debt_witness:
  "let db = snd (sweep_once down (10 * second) night_db)
   in snd (sweep_once (provider_world (Accepted None)) (10 * second) db) = db \<and> (51, 0) \<in> pairs (deliveries (cd_push db))"
proof -
  obtain out db' where run: "sweep_once down (10 * second) night_db = (out, db')"
    by (cases "sweep_once down (10 * second) night_db")
  have "snd (sweep_once (provider_world (Accepted None)) (10 * second) db') = db'"
    using sweep_leaves_no_debt [OF run night_keys] by blast
  moreover have "(51, 0) \<in> pairs (deliveries (cd_push db'))" using night_row run by (auto simp: pairs_def)
  ultimately show ?thesis unfolding Let_def run snd_conv by blast
qed

end
