(* ===== verification/EventParser.thy ===== *)
theory EventParser
  imports Identifiers
begin

text \<open>
  The edge agent's reader of a recorder's event stream,
  \<^verbatim>\<open>edge-agent/nightshift_edge/devices/dahua/event_parser.py\<close>: the incremental
  multipart parser, the payload inside a part, and its normalisation.  Bytes are characters;
  the text codecs and the JSON reader are the parameters \<open>lib\<close>.
\<close>

record stream_lib =
  lb_ascii :: "string \<Rightarrow> string"
  lb_utf8 :: "string \<Rightarrow> string"
  lb_json :: "string \<Rightarrow> pyval option"

section \<open>Payloads\<close>

record raw_event =
  re_code :: string
  re_action :: string
  re_index :: "int option"
  re_data :: "(string \<times> pyval) list"
  re_raw :: string
  re_headers :: "(string, string) dict"

definition is_heartbeat :: "raw_event \<Rightarrow> bool" where
  "is_heartbeat e \<longleftrightarrow> lower (re_code e) \<in> {''heartbeat'', ''keepalive''}"

text \<open>\<^verbatim>\<open>bytes.strip\<close>, which knows fewer blanks than \<^verbatim>\<open>str.strip\<close>.\<close>

definition byte_blank :: "char \<Rightarrow> bool" where
  "byte_blank c = (let n = of_char c :: nat in (9 \<le> n \<and> n \<le> 13) \<or> n = 32)"

definition byte_strip :: "string \<Rightarrow> string" where
  "byte_strip s = rev (dropWhile byte_blank (rev (dropWhile byte_blank s)))"

text \<open>\<^verbatim>\<open>partition\<close>, \<^verbatim>\<open>split\<close> on one character and \<^verbatim>\<open>rstrip\<close>.\<close>

definition partition_at :: "char \<Rightarrow> string \<Rightarrow> string \<times> bool \<times> string" where
  "partition_at c s = (takeWhile (\<lambda>x. x \<noteq> c) s, c \<in> set s, tl (dropWhile (\<lambda>x. x \<noteq> c) s))"

fun split_at :: "char \<Rightarrow> string \<Rightarrow> string list" where
  "split_at c [] = [[]]"
| "split_at c (x # xs) = (if x = c then [] # split_at c xs
     else case split_at c xs of [] \<Rightarrow> [[x]] | p # ps \<Rightarrow> (x # p) # ps)"

definition rstrip_char :: "char \<Rightarrow> string \<Rightarrow> string" where
  "rstrip_char c s = rev (dropWhile (\<lambda>x. x = c) (rev s))"

definition find_data_marker :: "string \<Rightarrow> nat option" where
  "find_data_marker s =
    (if take 5 s = ''data='' then Some 0 else map_option Suc (find_sub '';data='' s))"

fun payload_fields_of :: "string list \<Rightarrow> (string, string) dict \<Rightarrow> (string, string) dict" where
  "payload_fields_of [] d = d"
| "payload_fields_of (t # ts) d =
    (case partition_at CHR ''='' t of (k, sep, v) \<Rightarrow>
       payload_fields_of ts (if sep then dict_set (py_strip k) (py_strip v) d else d))"

definition payload_data :: "stream_lib \<Rightarrow> string \<Rightarrow> (string \<times> pyval) list" where
  "payload_data lib blob =
    (if blob = [] then []
     else case lb_json lib blob of
       None \<Rightarrow> [(''_unparsed'', PStr blob)]
     | Some (PDict kvs) \<Rightarrow> kvs
     | Some v \<Rightarrow> [(''value'', v)])"

definition parse_event_payload :: "stream_lib \<Rightarrow> string \<Rightarrow> (string, string) dict \<Rightarrow> raw_event option" where
  "parse_event_payload lib body headers =
    (let s = py_strip body in
     if s = [] \<or> \<not> contains_sub ''Code='' s then None
     else
       let marker = find_data_marker s;
           pre = (case marker of None \<Rightarrow> s | Some m \<Rightarrow> rstrip_char CHR '';'' (take m s));
           data = (case marker of None \<Rightarrow> [] | Some m \<Rightarrow> payload_data lib (py_strip (drop (m + 5) s)));
           fs = payload_fields_of (split_at CHR '';'' pre) []
       in case map_of fs ''Code'' of
            None \<Rightarrow> None
          | Some code \<Rightarrow>
              if code = [] then None
              else Some \<lparr>re_code = code,
                re_action = (case map_of fs ''action'' of None \<Rightarrow> [] | Some a \<Rightarrow> a),
                re_index = (case map_of fs ''index'' of None \<Rightarrow> None | Some i \<Rightarrow> py_int i),
                re_data = data, re_raw = s, re_headers = headers\<rparr>)"

section \<open>The incremental parser\<close>

text \<open>
  A boundary always starts with two hyphens, so \<open>sp_boundary\<close> holds what follows them.
\<close>

record stream_parser =
  sp_buffer :: string
  sp_headers :: "(string, string) dict"
  sp_expected :: "int option"
  sp_in_body :: bool
  sp_boundary :: "string option"

definition max_buffer_bytes :: nat where
  "max_buffer_bytes = 1048576"

definition boundary_of :: "string \<Rightarrow> string" where
  "boundary_of s = (let raw = strip_chars {CHR 0x22} (byte_strip s)
     in if take 2 raw = ''--'' then drop 2 raw else raw)"

definition set_boundary :: "string \<Rightarrow> stream_parser \<Rightarrow> stream_parser" where
  "set_boundary s p = p\<lparr>sp_boundary := Some (boundary_of s)\<rparr>"

definition new_parser :: "string option \<Rightarrow> stream_parser" where
  "new_parser b = (let p = \<lparr>sp_buffer = [], sp_headers = [], sp_expected = None, sp_in_body = False, sp_boundary = None\<rparr>
     in case b of None \<Rightarrow> p | Some s \<Rightarrow> if s = [] then p else set_boundary s p)"

fun boundary_in :: "string list \<Rightarrow> string option" where
  "boundary_in [] = None"
| "boundary_in (part # parts) =
    (case partition_at CHR ''='' (py_strip part) of (k, _, v) \<Rightarrow>
       if lower (py_strip k) = ''boundary''
       then (let b = strip_chars {CHR 0x22} (py_strip v) in if b = [] then None else Some b)
       else boundary_in parts)"

definition boundary_from_content_type :: "string option \<Rightarrow> string option" where
  "boundary_from_content_type ct = (case ct of
     None \<Rightarrow> None | Some s \<Rightarrow> if s = [] then None else boundary_in (split_at CHR '';'' s))"

definition looks_like_body :: "string \<Rightarrow> bool" where
  "looks_like_body line =
    (let s = byte_strip line in
     if s = [] then False
     else if take 2 s = ''--'' then False
     else case find_sub ''='' s of
       None \<Rightarrow> False
     | Some e \<Rightarrow> (case find_sub '':'' s of None \<Rightarrow> True | Some c \<Rightarrow> e < c))"

text \<open>One line end, \<^verbatim>\<open>\r?\n\<close>, at the front; and the first blank line of a buffer.\<close>

fun after_newline :: "string \<Rightarrow> string option" where
  "after_newline (c # cs) =
    (if c = CHR 0x0A then Some cs
     else if c = CHR 0x0D then (case cs of d # ds \<Rightarrow> if d = CHR 0x0A then Some ds else None | [] \<Rightarrow> None)
     else None)"
| "after_newline [] = None"

definition after_blank :: "string \<Rightarrow> string option" where
  "after_blank s = (case after_newline s of None \<Rightarrow> None | Some r \<Rightarrow> after_newline r)"

fun header_sep :: "string \<Rightarrow> (string \<times> string) option" where
  "header_sep [] = None"
| "header_sep (c # cs) = (case after_blank (c # cs) of
     Some r \<Rightarrow> Some ([], r)
   | None \<Rightarrow> map_option (\<lambda>(h, r). (c # h, r)) (header_sep cs))"

fun cut_line :: "string \<Rightarrow> string \<times> string option" where
  "cut_line [] = ([], None)"
| "cut_line (c # cs) = (case after_newline (c # cs) of
     Some r \<Rightarrow> ([], Some r)
   | None \<Rightarrow> (case cut_line cs of (l, r) \<Rightarrow> (c # l, r)))"

lemma after_newline_length: "after_newline s = Some r \<Longrightarrow> length r < length s"
  by (induction s rule: after_newline.induct) (auto split: if_splits list.splits)

lemma cut_line_length: "cut_line s = (l, Some r) \<Longrightarrow> length r < length s"
proof (induction s arbitrary: l)
  case (Cons c cs)
  show ?case
  proof (cases "after_newline (c # cs)")
    case None
    with Cons show ?thesis by (auto split: prod.splits)
  next
    case (Some q)
    with Cons.prems after_newline_length [OF Some] show ?thesis by simp
  qed
qed simp

text \<open>Reading the header lines: all of them, or up to a line that is already payload.\<close>

datatype head_scan = Header_block "(string, string) dict" | Payload_at nat "(string, string) dict"

definition header_line :: "stream_lib \<Rightarrow> (string, string) dict \<Rightarrow> string \<Rightarrow> (string, string) dict option" where
  "header_line lib hs s =
    (if s = [] \<or> take 2 s = ''--'' then Some hs
     else if looks_like_body s then None
     else case partition_at CHR '':'' s of (k, _, v) \<Rightarrow>
       Some (if v \<noteq> [] then dict_set (lower (py_strip (lb_ascii lib k))) (py_strip (lb_utf8 lib v)) hs else hs))"

function scan_head :: "stream_lib \<Rightarrow> nat \<Rightarrow> (string, string) dict \<Rightarrow> string \<Rightarrow> head_scan" where
  "scan_head lib pos hs head =
    (case cut_line head of (line, rest) \<Rightarrow>
      (case header_line lib hs (byte_strip line) of
         None \<Rightarrow> Payload_at pos hs
       | Some hs' \<Rightarrow> (case rest of
             None \<Rightarrow> Header_block hs'
           | Some r \<Rightarrow> scan_head lib (pos + (length head - length r)) hs' r)))"
  by pat_completeness auto
termination
  by (relation "measure (\<lambda>(_, _, _, h). length h)") (auto intro: cut_line_length [OF sym])

declare scan_head.simps [simp del]

definition skip_newlines :: "string \<Rightarrow> string" where
  "skip_newlines s = dropWhile (\<lambda>c. c = CHR 0x0D \<or> c = CHR 0x0A) s"

definition enter_body :: "stream_lib \<Rightarrow> (string, string) dict \<Rightarrow> stream_parser \<Rightarrow> stream_parser" where
  "enter_body lib hs p =
    (let q = p\<lparr>sp_headers := hs, sp_in_body := True,
               sp_expected := (case map_of hs ''content-length'' of None \<Rightarrow> None | Some n \<Rightarrow> py_int n)\<rparr>
     in if sp_boundary q = None
        then (case boundary_from_content_type (map_of hs ''content-type'') of
               None \<Rightarrow> q | Some b \<Rightarrow> set_boundary b q)
        else q)"

text \<open>What the header scan reads: up to the blank line, or all there is.\<close>

definition head_of :: "string \<Rightarrow> string" where
  "head_of buf = (case header_sep buf of None \<Rightarrow> buf | Some (h, _) \<Rightarrow> h)"

definition consume_headers :: "stream_lib \<Rightarrow> stream_parser \<Rightarrow> bool \<times> stream_parser" where
  "consume_headers lib p =
    (let buf = skip_newlines (sp_buffer p); p1 = p\<lparr>sp_buffer := buf\<rparr>
     in if buf = [] then (False, p1)
        else case scan_head lib 0 [] (head_of buf) of
          Payload_at pos hs \<Rightarrow> (True, p1\<lparr>sp_buffer := drop pos buf, sp_headers := hs, sp_expected := None, sp_in_body := True\<rparr>)
        | Header_block hs \<Rightarrow> (case header_sep buf of
              None \<Rightarrow> (False, p1)
            | Some (_, r) \<Rightarrow> (True, enter_body lib hs (p1\<lparr>sp_buffer := r\<rparr>))))"

text \<open>Where the body ends, \<^verbatim>\<open>buffer[:n]\<close> for a possibly negative \<open>n\<close> included.\<close>

definition slice_end :: "int \<Rightarrow> nat \<Rightarrow> nat" where
  "slice_end n len = (if 0 \<le> n then nat n else nat (int len + n))"

definition body_end :: "stream_parser \<Rightarrow> nat option" where
  "body_end p = (case sp_expected p of
     Some n \<Rightarrow> if int (length (sp_buffer p)) < n then None else Some (slice_end n (length (sp_buffer p)))
   | None \<Rightarrow> find_sub (case sp_boundary p of None \<Rightarrow> [CHR 0x0D, CHR 0x0A] @ ''--'' | Some b \<Rightarrow> ''--'' @ b) (sp_buffer p))"

definition build :: "stream_lib \<Rightarrow> string \<Rightarrow> (string, string) dict \<Rightarrow> raw_event option" where
  "build lib body headers = (let s = py_strip (lb_utf8 lib body) in
     if s = [] then None else parse_event_payload lib s headers)"

definition consume_body :: "stream_lib \<Rightarrow> stream_parser \<Rightarrow> (raw_event option \<times> stream_parser) option" where
  "consume_body lib p = (case body_end p of
     None \<Rightarrow> None
   | Some k \<Rightarrow> Some (build lib (take k (sp_buffer p)) (sp_headers p),
       p\<lparr>sp_buffer := drop k (sp_buffer p), sp_in_body := False, sp_headers := [], sp_expected := None\<rparr>))"

section \<open>Every iteration consumes input\<close>

lemma after_blank_length: "after_blank s = Some r \<Longrightarrow> length r < length s"
  by (auto simp: after_blank_def dest!: after_newline_length split: option.splits)

lemma header_sep_split: "header_sep s = Some (h, r) \<Longrightarrow> \<exists>sep. s = h @ sep @ r \<and> after_blank (sep @ r) = Some r"
proof (induction s arbitrary: h)
  case (Cons c cs)
  show ?case
  proof (cases "after_blank (c # cs)")
    case None
    with Cons show ?thesis by force
  next
    case (Some q)
    with Cons.prems have q: "h = []" "q = r" by simp_all
    have "\<exists>sep. c # cs = sep @ r"
      using Some by (auto simp: q after_blank_def split: option.splits if_splits list.splits elim!: after_newline.elims)
    with Some q show ?thesis by auto
  qed
qed simp

lemma header_sep_length: "header_sep s = Some (h, r) \<Longrightarrow> length r < length s"
  using header_sep_split after_blank_length by fastforce

lemma scan_head_pos:
  assumes "scan_head lib pos hs head = Payload_at pos' hs'"
  shows "pos \<le> pos' \<and> pos' \<le> pos + length head"
  using assms
proof (induction lib pos hs head rule: scan_head.induct)
  case (1 lib pos hs head)
  obtain line rest where cut: "cut_line head = (line, rest)" by (cases "cut_line head")
  show ?case
  proof (cases "header_line lib hs (byte_strip line)")
    case None
    with "1.prems" show ?thesis by (simp add: scan_head.simps [of lib pos hs head] cut)
  next
    case (Some hs1)
    then obtain r where r: "rest = Some r" "scan_head lib (pos + (length head - length r)) hs1 r = Payload_at pos' hs'"
      using "1.prems" by (auto simp: scan_head.simps [of lib pos hs head] cut split: option.splits)
    have "length r < length head" using cut r(1) by (simp add: cut_line_length)
    with "1.IH" [OF cut [symmetric] Some r] show ?thesis by linarith
  qed
qed

lemma strip_dashes: "take 2 s = ''--'' \<Longrightarrow> take 2 (byte_strip s) = ''--''"
proof -
  assume "take 2 s = ''--''"
  then obtain t where s: "s = CHR ''-'' # CHR ''-'' # t"
    by (cases s; cases "tl s") auto
  have dash: "\<not> byte_blank (CHR ''-'')" by (simp add: byte_blank_def Let_def)
  then have "dropWhile byte_blank (rev t @ [CHR ''-'', CHR ''-'']) = dropWhile byte_blank (rev t) @ [CHR ''-'', CHR ''-'']"
    by (simp add: dropWhile_append dropWhile_eq_Nil_conv)
  with dash show ?thesis by (simp add: s byte_strip_def)
qed

lemma cut_line_dashes:
  assumes "take 2 s = ''--''" and "cut_line s = (l, r)"
  shows "take 2 l = ''--''"
proof -
  obtain t where "s = CHR ''-'' # CHR ''-'' # t" using assms(1) by (cases s; cases "tl s") auto
  with assms(2) show ?thesis by (auto split: prod.splits)
qed

lemma payload_at_front:
  assumes "scan_head lib pos hs head = Payload_at pos hs'" and "take 2 head = ''--''"
  shows False
proof -
  obtain line rest where cut: "cut_line head = (line, rest)" by (cases "cut_line head")
  then have "take 2 (byte_strip line) = ''--''" using cut_line_dashes [OF assms(2)] strip_dashes by blast
  with assms(1) obtain r where r: "rest = Some r"
    "scan_head lib (pos + (length head - length r)) hs r = Payload_at pos hs'"
    by (auto simp: scan_head.simps [of lib pos hs head] cut header_line_def split: option.splits)
  have "length r < length head" using cut r(1) by (simp add: cut_line_length)
  with scan_head_pos [OF r(2)] show False by simp
qed

lemma skip_newlines_hd: "skip_newlines s = c # cs \<Longrightarrow> c \<noteq> CHR 0x0D \<and> c \<noteq> CHR 0x0A"
  unfolding skip_newlines_def by (induction s) (auto split: if_splits)

lemma header_sep_dashes:
  assumes "header_sep (CHR ''-'' # CHR ''-'' # t) = Some (h, r)"
  shows "take 2 h = ''--''"
proof -
  have "after_blank (CHR ''-'' # xs) = None" for xs by (simp add: after_blank_def)
  with assms obtain z where "header_sep t = Some z" "h = CHR ''-'' # CHR ''-'' # fst z"
    by (auto simp: case_prod_unfold)
  then show ?thesis by simp
qed

lemma find_sub_0: "find_sub pat s = Some 0 \<Longrightarrow> take (length pat) s = pat"
  using find_sub_Some_take by fastforce

lemma body_end_length: "body_end p = Some k \<Longrightarrow> 0 < k \<Longrightarrow> sp_buffer p \<noteq> [] \<Longrightarrow> length (drop k (sp_buffer p)) < length (sp_buffer p)"
  by simp

lemma iteration_consumes:
  assumes head: "consume_headers lib p = (True, q)" and body: "consume_body lib q = Some (e, r)"
  shows "length (sp_buffer r) < length (sp_buffer p)"
proof -
  let ?buf = "skip_newlines (sp_buffer p)"
  have le: "length ?buf \<le> length (sp_buffer p)" unfolding skip_newlines_def by (rule length_dropWhile_le)
  have ne: "?buf \<noteq> []" using head by (auto simp: consume_headers_def Let_def)
  obtain k where k: "body_end q = Some k" "sp_buffer r = drop k (sp_buffer q)"
    using body by (auto simp: consume_body_def split: option.splits)
  let ?head = "head_of ?buf"
  show ?thesis
  proof (cases "scan_head lib 0 [] ?head")
    case (Header_block hs)
    with head ne obtain h t where "header_sep ?buf = Some (h, t)" "sp_buffer q = t"
      by (auto simp: consume_headers_def Let_def enter_body_def set_boundary_def split: option.splits prod.splits if_splits)
    with header_sep_length le k(2) show ?thesis by fastforce
  next
    case (Payload_at pos hs)
    with head ne have q: "q = p\<lparr>sp_buffer := drop pos ?buf, sp_headers := hs, sp_expected := None, sp_in_body := True\<rparr>"
      by (auto simp: consume_headers_def Let_def split: option.splits prod.splits)
    show ?thesis
    proof (cases "pos = 0 \<and> k = 0")
      case True
      let ?marker = "case sp_boundary p of None \<Rightarrow> [CHR 0x0D, CHR 0x0A] @ ''--'' | Some b \<Rightarrow> ''--'' @ b"
      have "take (length ?marker) ?buf = ?marker"
        using k(1) True find_sub_0 by (simp add: body_end_def q)
      moreover obtain c cs where c: "?buf = c # cs" using ne by (cases ?buf) auto
      ultimately obtain t where dashes: "?buf = CHR ''-'' # CHR ''-'' # t"
        using skip_newlines_hd [OF c] by (cases "sp_boundary p"; cases cs) auto
      have "take 2 ?head = ''--''"
        using header_sep_dashes [of t] by (auto simp: head_of_def dashes split: option.splits)
      with payload_at_front Payload_at True show ?thesis by blast
    next
      case False
      then have "length (drop k (drop pos ?buf)) < length ?buf" using ne by auto
      with le show ?thesis by (simp add: k(2) q)
    qed
  qed
qed

lemma body_shrinks: "consume_body lib q = Some (e, r) \<Longrightarrow> length (sp_buffer r) \<le> length (sp_buffer q) \<and> \<not> sp_in_body r"
  by (auto simp: consume_body_def split: option.splits)

section \<open>Feeding\<close>

function drain :: "stream_lib \<Rightarrow> stream_parser \<Rightarrow> raw_event list \<times> stream_parser" where
  "drain lib p = (case (if sp_in_body p then (True, p) else consume_headers lib p) of
     (False, q) \<Rightarrow> ([], q)
   | (True, q) \<Rightarrow> (case consume_body lib q of
       None \<Rightarrow> ([], q)
     | Some (e, r) \<Rightarrow> (case drain lib r of (es, t) \<Rightarrow> ((case e of None \<Rightarrow> es | Some v \<Rightarrow> v # es), t))))"
  by pat_completeness auto
termination
  by (relation "measure (\<lambda>(_, p). 2 * length (sp_buffer p) + (if sp_in_body p then 1 else 0))")
    (auto dest!: sym [of "Some _"] dest: body_shrinks iteration_consumes [OF sym] split: if_splits)

declare drain.simps [simp del]

text \<open>\<^verbatim>\<open>rfind\<close>\<close>

fun find_last :: "string \<Rightarrow> string \<Rightarrow> nat option" where
  "find_last pat [] = (if pat = [] then Some 0 else None)"
| "find_last pat (x # xs) = (case find_last pat xs of
     Some i \<Rightarrow> Some (Suc i)
   | None \<Rightarrow> if take (length pat) (x # xs) = pat then Some 0 else None)"

definition resync :: "stream_parser \<Rightarrow> stream_parser" where
  "resync p = p\<lparr>sp_in_body := False, sp_expected := None, sp_headers := [],
     sp_buffer := (case sp_boundary p of
         None \<Rightarrow> []
       | Some b \<Rightarrow> (case find_last (''--'' @ b) (sp_buffer p) of
           None \<Rightarrow> [] | Some i \<Rightarrow> if 0 < i then drop i (sp_buffer p) else []))\<rparr>"

definition feed :: "stream_lib \<Rightarrow> string \<Rightarrow> stream_parser \<Rightarrow> raw_event list \<times> stream_parser" where
  "feed lib chunk p =
    (let q = p\<lparr>sp_buffer := sp_buffer p @ chunk\<rparr>
     in drain lib (if max_buffer_bytes < length (sp_buffer q) then resync q else q))"

definition flush :: "stream_lib \<Rightarrow> stream_parser \<Rightarrow> raw_event list \<times> stream_parser" where
  "flush lib p =
    (if sp_in_body p \<and> sp_expected p = None \<and> byte_strip (sp_buffer p) \<noteq> []
     then ((case build lib (sp_buffer p) (sp_headers p) of None \<Rightarrow> [] | Some e \<Rightarrow> [e]),
           p\<lparr>sp_buffer := [], sp_in_body := False, sp_headers := []\<rparr>)
     else ([], p))"

section \<open>Chunk boundaries\<close>

definition push :: "string \<Rightarrow> stream_parser \<Rightarrow> stream_parser" where
  "push c p = p\<lparr>sp_buffer := sp_buffer p @ c\<rparr>"

lemma push_fields [simp]:
  "sp_buffer (push c p) = sp_buffer p @ c" "sp_headers (push c p) = sp_headers p"
  "sp_expected (push c p) = sp_expected p" "sp_in_body (push c p) = sp_in_body p"
  "sp_boundary (push c p) = sp_boundary p"
  by (simp_all add: push_def)

lemma push_updates:
  "sp_headers_update f (push c p) = push c (sp_headers_update f p)"
  "sp_expected_update g (push c p) = push c (sp_expected_update g p)"
  "sp_in_body_update h (push c p) = push c (sp_in_body_update h p)"
  by (simp_all add: push_def)

lemma push_push [simp]: "push d (push c p) = push (c @ d) p"
  by (simp add: push_def)

lemma after_newline_append: "after_newline s = Some r \<Longrightarrow> after_newline (s @ c) = Some (r @ c)"
  by (induction s rule: after_newline.induct) (auto split: if_splits list.splits)

lemma after_blank_append: "after_blank s = Some r \<Longrightarrow> after_blank (s @ c) = Some (r @ c)"
  by (auto simp: after_blank_def after_newline_append split: option.splits)

text \<open>A line end that more input completes lies at the end of the old input.\<close>

lemma after_newline_stable:
  "after_newline (s @ c) = Some r \<Longrightarrow> after_newline s = None \<Longrightarrow> s = [] \<or> s = [CHR 0x0D]"
  by (induction s rule: after_newline.induct) (auto split: if_splits list.splits)

text \<open>The beginnings of a blank line that is not there yet.\<close>

definition partial_blank :: "string set" where
  "partial_blank = {[], [CHR 0x0D], [CHR 0x0A], [CHR 0x0A, CHR 0x0D], [CHR 0x0D, CHR 0x0A],
     [CHR 0x0D, CHR 0x0A, CHR 0x0D]}"

lemma after_newline_cases:
  "after_newline s = Some r \<Longrightarrow> s = CHR 0x0A # r \<or> s = CHR 0x0D # CHR 0x0A # r"
  by (induction s rule: after_newline.induct) (auto split: if_splits list.splits)

lemma after_blank_stable:
  assumes "after_blank (s @ c) = Some r" and "after_blank s = None"
  shows "s \<in> partial_blank"
proof (cases "after_newline s")
  case None
  with assms(1) have "s = [] \<or> s = [CHR 0x0D]"
    by (auto simp: after_blank_def split: option.splits dest: after_newline_stable)
  then show ?thesis by (auto simp: partial_blank_def)
next
  case (Some q)
  then have "after_newline (s @ c) = Some (q @ c)" by (rule after_newline_append)
  with assms Some have "q = [] \<or> q = [CHR 0x0D]"
    by (auto simp: after_blank_def dest: after_newline_stable)
  with after_newline_cases [OF Some] show ?thesis by (auto simp: partial_blank_def)
qed

lemma partial_blank_no_sep: "s \<in> partial_blank \<Longrightarrow> header_sep (tl s) = None"
  by (auto simp: partial_blank_def after_blank_def)

lemma header_sep_append:
  "header_sep s = Some (h, r) \<Longrightarrow> header_sep (s @ c) = Some (h, r @ c)"
proof (induction s arbitrary: h)
  case (Cons x xs)
  show ?case
  proof (cases "after_blank (x # xs)")
    case None
    with Cons.prems obtain h' where h': "header_sep xs = Some (h', r)" "h = x # h'" by auto
    have "after_blank (x # xs @ c) = None"
    proof (rule ccontr)
      assume "\<not> ?thesis"
      with None have "x # xs \<in> partial_blank" using after_blank_stable [of "x # xs" c] by auto
      then show False using partial_blank_no_sep h'(1) by fastforce
    qed
    with Cons.IH [OF h'(1)] h'(2) show ?thesis by simp
  next
    case (Some q)
    with Cons.prems after_blank_append [OF Some, of c] show ?thesis by simp
  qed
qed simp

text \<open>A payload line is recognised by what precedes its first equals sign.\<close>

lemma after_newline_two: "after_newline (x # y # a) = None \<Longrightarrow> after_newline (x # y # b) = None"
  by (auto split: if_splits)

lemma cut_line_split:
  "cut_line s = (l, Some r) \<Longrightarrow> \<exists>e. e \<noteq> [] \<and> s = l @ e @ r \<and> (\<forall>m. cut_line (l @ e @ m) = (l, Some m))"
proof (induction s arbitrary: l)
  case (Cons x xs)
  show ?case
  proof (cases "after_newline (x # xs)")
    case None
    with Cons.prems obtain l' where l': "cut_line xs = (l', Some r)" "l = x # l'" by (auto split: prod.splits)
    from Cons.IH [OF l'(1)] obtain e where e: "e \<noteq> []" "xs = l' @ e @ r" "\<forall>m. cut_line (l' @ e @ m) = (l', Some m)" by blast
    obtain y ys where "l' @ e = y # ys" using e(1) by (cases "l' @ e") auto
    then have "after_newline (x # l' @ e @ m) = None" for m
      using None e(2) by (metis append_Cons append_assoc after_newline_two)
    with e l'(2) show ?thesis by auto
  next
    case (Some q)
    with Cons.prems have q: "l = []" "q = r" by simp_all
    from after_newline_cases [OF Some] q show ?thesis
      by (auto intro: exI [of _ "[CHR 0x0A]"] exI [of _ "[CHR 0x0D, CHR 0x0A]"])
  qed
qed simp

lemma cut_line_no_lf: "cut_line s = (l, r) \<Longrightarrow> CHR 0x0A \<notin> set l"
proof (induction s arbitrary: l)
  case (Cons x xs)
  then show ?case by (cases "after_newline (x # xs)") (auto split: prod.splits if_splits)
qed simp

lemma cut_line_prefix:
  assumes "CHR 0x0A \<notin> set x" and "x \<noteq> []" and "last x \<noteq> CHR 0x0D"
  shows "cut_line (x @ m) = (x @ fst (cut_line m), snd (cut_line m))"
  using assms
proof (induction x)
  case (Cons a x)
  have "after_newline ((a # x) @ m) = None"
    using Cons.prems by (cases x) auto
  with Cons show ?case by (cases "x = []") (auto split: prod.splits)
qed simp

lemma cut_line_first: "cut_line s = (l, r) \<Longrightarrow> \<exists>y. s = l @ y"
proof (induction s arbitrary: l)
  case (Cons x xs)
  then show ?case by (cases "after_newline (x # xs)") (auto split: prod.splits)
qed simp

lemma find_sub_char: "find_sub [c] s = (if c \<in> set s then Some (length (takeWhile (\<lambda>x. x \<noteq> c) s)) else None)"
  by (induction s) auto

lemma takeWhile_first: "c \<notin> set u \<Longrightarrow> takeWhile (\<lambda>x. x \<noteq> c) (u @ c # v) = u"
  by (induction u) auto

lemma looks_like_iff: "looks_like_body s \<longleftrightarrow> (\<exists>u v. byte_strip s = u @ CHR ''='' # v \<and>
    CHR ''='' \<notin> set u \<and> CHR '':'' \<notin> set u \<and> take 2 u \<noteq> ''--'')"
proof
  let ?s = "byte_strip s"
  assume l: "looks_like_body s"
  then have eq: "CHR ''='' \<in> set ?s" "take 2 ?s \<noteq> ''--''"
    by (auto simp: looks_like_body_def find_sub_char Let_def split: if_splits)
  obtain u v where v: "?s = u @ CHR ''='' # v" "CHR ''='' \<notin> set u"
    using split_list_first [OF eq(1)] by blast
  have at: "find_sub ''='' ?s = Some (length u)" unfolding find_sub_char using v by (simp add: takeWhile_first)
  have "CHR '':'' \<notin> set u"
  proof
    assume c: "CHR '':'' \<in> set u"
    then obtain a b where u: "u = a @ CHR '':'' # b" "CHR '':'' \<notin> set a" using split_list_first by metis
    then have "find_sub '':'' ?s = Some (length a)"
      unfolding find_sub_char v(1) by (simp add: takeWhile_first)
    with l at u(1) eq show False by (simp add: looks_like_body_def Let_def split: if_splits)
  qed
  moreover have "take 2 u \<noteq> ''--''" using eq(2) v(1) by (cases u; cases "tl u") auto
  ultimately show "\<exists>u v. ?s = u @ CHR ''='' # v \<and> CHR ''='' \<notin> set u \<and> CHR '':'' \<notin> set u \<and> take 2 u \<noteq> ''--''"
    using v by blast
next
  assume "\<exists>u v. byte_strip s = u @ CHR ''='' # v \<and> CHR ''='' \<notin> set u \<and> CHR '':'' \<notin> set u \<and> take 2 u \<noteq> ''--''"
  then obtain u v where v: "byte_strip s = u @ CHR ''='' # v" "CHR ''='' \<notin> set u" "CHR '':'' \<notin> set u" "take 2 u \<noteq> ''--''" by blast
  have dashes: "take 2 (byte_strip s) \<noteq> ''--''" using v by (cases u; cases "tl u") auto
  have e: "find_sub ''='' (byte_strip s) = Some (length u)" unfolding find_sub_char using v by (simp add: takeWhile_first)
  have c: "length u < c" if "find_sub '':'' (byte_strip s) = Some c" for c
  proof -
    have "takeWhile (\<lambda>x. x \<noteq> CHR '':'') (u @ CHR ''='' # v) = u @ CHR ''='' # takeWhile (\<lambda>x. x \<noteq> CHR '':'') v"
      using v(3) by (induction u) auto
    with that show ?thesis unfolding find_sub_char v(1) by (auto split: if_splits)
  qed
  have "byte_strip s \<noteq> []" using v(1) by simp
  with dashes e c show "looks_like_body s" by (auto simp: looks_like_body_def Let_def split: option.splits)
qed

lemma blank_chars: "\<not> byte_blank (CHR ''='')" "byte_blank (CHR 0x0A)" "byte_blank (CHR 0x0D)"
  by (simp_all add: byte_blank_def Let_def)

lemma dropWhile_last: "\<not> P c \<Longrightarrow> \<exists>z. dropWhile P (xs @ c # ys) = z @ c # ys"
  by (induction xs) auto

lemma byte_strip_split: "\<exists>a b. s = a @ byte_strip s @ b \<and> (\<forall>c \<in> set a. byte_blank c) \<and> dropWhile byte_blank s = byte_strip s @ b"
proof -
  let ?d = "dropWhile byte_blank s"
  have d: "?d = byte_strip s @ rev (takeWhile byte_blank (rev ?d))"
    unfolding byte_strip_def by (metis rev_append rev_rev_ident takeWhile_dropWhile_id)
  have "s = takeWhile byte_blank s @ ?d" by simp
  with d show ?thesis
    by (intro exI [of _ "takeWhile byte_blank s"] exI [of _ "rev (takeWhile byte_blank (rev ?d))"]) (auto dest: set_takeWhileD)
qed

lemma byte_strip_idem: "byte_strip (byte_strip s) = byte_strip s"
proof -
  obtain a b where d: "dropWhile byte_blank s = byte_strip s @ b" using byte_strip_split by blast
  have "dropWhile byte_blank (byte_strip s) = byte_strip s"
  proof (cases "byte_strip s")
    case (Cons c cs)
    then have "\<not> byte_blank c" using d hd_dropWhile [of byte_blank s] by auto
    with Cons show ?thesis by simp
  qed simp
  moreover have "rev (dropWhile byte_blank (rev (byte_strip s))) = byte_strip s"
    by (simp add: byte_strip_def)
  ultimately show ?thesis by (simp add: byte_strip_def [of "byte_strip s"])
qed

text \<open>A line that is payload up to an equals sign stays payload whatever follows.\<close>

lemma payload_line:
  assumes "looks_like_body (byte_strip line)"
  shows "\<exists>x y. line = x @ y \<and> x \<noteq> [] \<and> last x = CHR ''='' \<and>
    (\<forall>z. byte_strip (x @ z) \<noteq> [] \<and> take 2 (byte_strip (x @ z)) \<noteq> ''--'' \<and> looks_like_body (byte_strip (x @ z)))"
proof -
  obtain u v where v: "byte_strip line = u @ CHR ''='' # v" "CHR ''='' \<notin> set u" "CHR '':'' \<notin> set u" "take 2 u \<noteq> ''--''"
    using assms unfolding looks_like_iff byte_strip_idem by blast
  obtain a b where ab: "line = a @ byte_strip line @ b" "\<forall>c \<in> set a. byte_blank c" "dropWhile byte_blank line = byte_strip line @ b"
    using byte_strip_split by blast
  have hd: "dropWhile byte_blank (u @ CHR ''='' # w) = u @ CHR ''='' # w" for w
  proof -
    have "\<not> byte_blank (hd (u @ [CHR ''='']))"
      using ab(3) v(1) hd_dropWhile [of byte_blank line] by (cases u) auto
    then show ?thesis by (cases u) auto
  qed
  have strip: "\<exists>w. byte_strip ((a @ u @ [CHR ''='']) @ z) = u @ CHR ''='' # w" for z
  proof -
    have "dropWhile byte_blank ((a @ u @ [CHR ''='']) @ z) = u @ CHR ''='' # z"
      using ab(2) hd by (simp add: dropWhile_append2)
    then have "byte_strip ((a @ u @ [CHR ''='']) @ z) = rev (dropWhile byte_blank (rev z @ CHR ''='' # rev u))"
      by (simp add: byte_strip_def)
    moreover obtain w where "dropWhile byte_blank (rev z @ CHR ''='' # rev u) = w @ CHR ''='' # rev u"
      using dropWhile_last [where P = byte_blank, OF blank_chars(1)] by blast
    ultimately show ?thesis by auto
  qed
  show ?thesis
  proof (intro exI conjI allI)
    show "line = (a @ u @ [CHR ''='']) @ v @ b" using ab(1) v(1) by simp
    fix z
    obtain w where w: "byte_strip ((a @ u @ [CHR ''='']) @ z) = u @ CHR ''='' # w" using strip by blast
    then show "byte_strip ((a @ u @ [CHR ''='']) @ z) \<noteq> []" by simp
    show "take 2 (byte_strip ((a @ u @ [CHR ''='']) @ z)) \<noteq> ''--''"
      unfolding w using v(4) by (cases u; cases "tl u") auto
    show "looks_like_body (byte_strip ((a @ u @ [CHR ''='']) @ z))"
      unfolding looks_like_iff byte_strip_idem unfolding w using v by blast
  qed auto
qed

lemma payload_prefix:
  assumes "scan_head lib pos hs b = Payload_at pos' hs'"
  shows "\<exists>x y. b = x @ y \<and> x \<noteq> [] \<and> last x = CHR ''='' \<and> (\<forall>m. scan_head lib pos hs (x @ m) = Payload_at pos' hs')"
  using assms
proof (induction lib pos hs b rule: scan_head.induct)
  case (1 lib pos hs b)
  obtain line rest where cut: "cut_line b = (line, rest)" by (cases "cut_line b")
  show ?case
  proof (cases "header_line lib hs (byte_strip line)")
    case None
    then have here: "pos' = pos" "hs' = hs" using "1.prems" by (simp_all add: scan_head.simps [of lib pos hs b] cut)
    have "looks_like_body (byte_strip line)" using None by (auto simp: header_line_def split: if_splits prod.splits)
    from payload_line [OF this] obtain x y where
      xy: "line = x @ y" "x \<noteq> []" "last x = CHR ''=''" and
      all: "\<And>z. byte_strip (x @ z) \<noteq> [] \<and> take 2 (byte_strip (x @ z)) \<noteq> ''--'' \<and> looks_like_body (byte_strip (x @ z))" by blast
    have "CHR 0x0A \<notin> set x" using cut_line_no_lf [OF cut] xy(1) by simp
    then have "cut_line (x @ m) = (x @ fst (cut_line m), snd (cut_line m))" for m
      using xy(2,3) by (intro cut_line_prefix) simp_all
    then have "scan_head lib pos hs (x @ m) = Payload_at pos' hs'" for m
      by (simp add: scan_head.simps [of lib pos hs "x @ m"] header_line_def all here)
    moreover obtain q where "b = line @ q" using cut_line_first [OF cut] by blast
    ultimately show ?thesis using xy by (intro exI [of _ x] exI [of _ "y @ q"]) simp
  next
    case (Some hs1)
    then obtain r where r: "rest = Some r" "scan_head lib (pos + (length b - length r)) hs1 r = Payload_at pos' hs'"
      using "1.prems" by (auto simp: scan_head.simps [of lib pos hs b] cut split: option.splits)
    obtain e where e: "b = line @ e @ r" "\<And>m. cut_line (line @ e @ m) = (line, Some m)"
      using cut_line_split cut r(1) by blast
    from "1.IH" [OF cut [symmetric] Some r] obtain x y where
      xy: "r = x @ y" "x \<noteq> []" "last x = CHR ''=''" and
      all: "\<And>m. scan_head lib (pos + (length b - length r)) hs1 (x @ m) = Payload_at pos' hs'" by blast
    have "scan_head lib pos hs ((line @ e @ x) @ m) = Payload_at pos' hs'" for m
      using all [of m] e(2) [of "x @ m"] by (simp add: scan_head.simps [of lib pos hs "line @ e @ x @ m"] Some e(1))
    then show ?thesis using e(1) xy by (intro exI [of _ "line @ e @ x"] exI [of _ y]) simp
  qed
qed


lemma header_sep_keeps:
  assumes "header_sep (x @ m) = Some (h, r)" and "header_sep x = None" and "x \<noteq> []"
    and "last x \<noteq> CHR 0x0D" and "last x \<noteq> CHR 0x0A"
  shows "\<exists>t. h = x @ t"
  using assms
proof (induction x arbitrary: h)
  case (Cons a x)
  have none: "after_blank (a # x) = None" and x: "header_sep x = None"
    using Cons.prems(2) by (auto split: option.splits)
  have "after_blank ((a # x) @ m) = None"
  proof (rule ccontr)
    assume "\<not> ?thesis"
    then have "a # x \<in> partial_blank" using after_blank_stable none by blast
    then show False using Cons.prems(4,5) by (auto simp: partial_blank_def)
  qed
  with Cons.prems(1) obtain h' where h': "header_sep (x @ m) = Some (h', r)" "h = a # h'" by auto
  show ?case
  proof (cases "x = []")
    case False
    with Cons.IH [OF h'(1) x] Cons.prems(4,5) h'(2) show ?thesis by simp
  qed (simp add: h'(2))
qed simp

lemma head_of_append: "header_sep buf = Some z \<Longrightarrow> head_of (buf @ c) = head_of buf"
  by (cases z) (simp add: head_of_def header_sep_append)

lemma head_of_length: "length (head_of buf) \<le> length buf"
  by (auto simp: head_of_def split: option.splits dest!: header_sep_split)

lemma payload_found_stays:
  assumes "scan_head lib 0 [] (head_of buf) = Payload_at pos hs"
  shows "scan_head lib 0 [] (head_of (buf @ c)) = Payload_at pos hs"
proof (cases "header_sep buf")
  case None
  then have "scan_head lib 0 [] buf = Payload_at pos hs" using assms by (simp add: head_of_def)
  from payload_prefix [OF this] obtain x y where xy: "buf = x @ y" "x \<noteq> []" "last x = CHR ''=''"
    and all: "\<And>m. scan_head lib 0 [] (x @ m) = Payload_at pos hs" by blast
  have x: "header_sep x = None"
    using None xy(1) header_sep_append [of x _ _ y] by (cases "header_sep x") auto
  show ?thesis
  proof (cases "header_sep (buf @ c)")
    case None
    with all [of "y @ c"] xy(1) show ?thesis by (simp add: head_of_def)
  next
    case (Some z)
    then obtain h r where z: "header_sep (x @ y @ c) = Some (h, r)" using xy(1) by (cases z) simp
    obtain t where "h = x @ t" using header_sep_keeps [OF z x xy(2)] xy(3) by auto
    with z all xy(1) show ?thesis by (simp add: head_of_def)
  qed
next
  case (Some z)
  with assms show ?thesis by (simp add: head_of_append)
qed

lemma skip_newlines_append: "skip_newlines s \<noteq> [] \<Longrightarrow> skip_newlines (s @ c) = skip_newlines s @ c"
  unfolding skip_newlines_def dropWhile_eq_Nil_conv by (auto intro: dropWhile_append1)

lemma skip_newlines_again: "skip_newlines (skip_newlines s @ c) = skip_newlines (s @ c)"
proof (cases "skip_newlines s = []")
  case True
  then have "skip_newlines (s @ c) = skip_newlines c"
    unfolding skip_newlines_def by (simp add: dropWhile_append2)
  with True show ?thesis by simp
next
  case False
  moreover have "skip_newlines (skip_newlines s) = skip_newlines s"
    unfolding skip_newlines_def by (rule dropWhile_idem)
  ultimately show ?thesis by (simp add: skip_newlines_append)
qed

lemma enter_body_push: "enter_body lib hs (push c p) = push c (enter_body lib hs p)"
proof -
  have "set_boundary b (push c q) = push c (set_boundary b q)" for b q by (simp add: push_def set_boundary_def)
  then show ?thesis unfolding enter_body_def Let_def by (simp add: push_updates split: option.split)
qed

lemma headers_append_ready:
  assumes "consume_headers lib p = (True, q)"
  shows "consume_headers lib (push c p) = (True, push c q)"
proof -
  let ?buf = "skip_newlines (sp_buffer p)"
  have ne: "?buf \<noteq> []" using assms by (auto simp: consume_headers_def Let_def)
  have buf: "skip_newlines (sp_buffer p @ c) = ?buf @ c" by (rule skip_newlines_append [OF ne])
  show ?thesis
  proof (cases "scan_head lib 0 [] (head_of ?buf)")
    case (Payload_at pos hs)
    then have "pos \<le> length (head_of ?buf)" using scan_head_pos by fastforce
    then have "pos \<le> length ?buf" using head_of_length le_trans by blast
    moreover have "scan_head lib 0 [] (head_of (?buf @ c)) = Payload_at pos hs"
      using Payload_at by (rule payload_found_stays)
    ultimately show ?thesis
      using assms ne Payload_at by (simp add: consume_headers_def Let_def buf push_def) (auto simp: push_def)
  next
    case (Header_block hs)
    with assms ne obtain h r where sep: "header_sep ?buf = Some (h, r)"
      and q: "q = enter_body lib hs (p\<lparr>sp_buffer := r\<rparr>)"
      by (auto simp: consume_headers_def Let_def split: option.splits)
    have more: "header_sep (?buf @ c) = Some (h, r @ c)" using sep by (rule header_sep_append)
    have "(push c p)\<lparr>sp_buffer := r @ c\<rparr> = push c (p\<lparr>sp_buffer := r\<rparr>)" by (simp add: push_def)
    then have "enter_body lib hs ((push c p)\<lparr>sp_buffer := r @ c\<rparr>) = push c q"
      by (simp only: q enter_body_push)
    with ne Header_block show ?thesis
      by (simp add: consume_headers_def [of lib "push c p"] Let_def buf head_of_append [OF sep] more)
  qed
qed

lemma headers_append_wait:
  assumes "consume_headers lib p = (False, q)"
  shows "consume_headers lib (push c q) = consume_headers lib (push c p)" "sp_in_body q = sp_in_body p"
proof -
  have q: "q = p\<lparr>sp_buffer := skip_newlines (sp_buffer p)\<rparr>"
    using assms by (auto simp: consume_headers_def Let_def split: if_splits head_scan.splits option.splits prod.splits)
  show "consume_headers lib (push c q) = consume_headers lib (push c p)"
    by (simp add: consume_headers_def Let_def push_def q skip_newlines_again)
  show "sp_in_body q = sp_in_body p" by (simp add: q)
qed

definition expected_fits :: "stream_parser \<Rightarrow> bool" where
  "expected_fits p = (case sp_expected p of None \<Rightarrow> True | Some n \<Rightarrow> 0 \<le> n)"

lemma body_append:
  assumes "consume_body lib q = Some (e, r)" and "expected_fits q"
  shows "consume_body lib (push c q) = Some (e, push c r)"
proof -
  obtain k where k: "body_end q = Some k" using assms(1) by (auto simp: consume_body_def split: option.splits)
  have le: "k \<le> length (sp_buffer q)"
    using k assms(2) by (auto simp: body_end_def expected_fits_def slice_end_def nat_le_iff dest!: find_sub_Some_take
        split: option.splits if_splits)
  have "body_end (push c q) = Some k"
    using k assms(2) by (auto simp: body_end_def expected_fits_def slice_end_def intro: find_sub_append
        split: option.splits if_splits)
  with assms(1) k le show ?thesis by (auto simp: consume_body_def push_def)
qed


text \<open>The lengths that the parts of the buffer declare, in the order they are met.\<close>

function declared_lengths :: "stream_lib \<Rightarrow> stream_parser \<Rightarrow> int list" where
  "declared_lengths lib p = (case (if sp_in_body p then (True, p) else consume_headers lib p) of
     (False, q) \<Rightarrow> []
   | (True, q) \<Rightarrow> (case sp_expected q of None \<Rightarrow> [] | Some n \<Rightarrow> [n]) @ (case consume_body lib q of
       None \<Rightarrow> []
     | Some (e, r) \<Rightarrow> declared_lengths lib r))"
  by pat_completeness auto
termination
  by (relation "measure (\<lambda>(_, p). 2 * length (sp_buffer p) + (if sp_in_body p then 1 else 0))")
    (auto dest!: sym [of "Some _"] dest: body_shrinks iteration_consumes [OF sym] split: if_splits)

declare declared_lengths.simps [simp del]

lemma step_append:
  assumes "(if sp_in_body p then (True, p) else consume_headers lib p) = (True, q)"
  shows "(if sp_in_body (push c p) then (True, push c p) else consume_headers lib (push c p)) = (True, push c q)"
  using assms by (auto simp: headers_append_ready split: if_splits)

lemma drain_same_step:
  assumes "(if sp_in_body p then (True, p) else consume_headers lib p) = (if sp_in_body q then (True, q) else consume_headers lib q)"
  shows "drain lib p = drain lib q" "declared_lengths lib p = declared_lengths lib q"
  by (simp_all only: drain.simps [of lib p] drain.simps [of lib q]
      declared_lengths.simps [of lib p] declared_lengths.simps [of lib q] assms)

text \<open>Draining, then receiving more, is receiving more, then draining.\<close>

lemma drain_append:
  assumes "drain lib p = (es, q)" and "\<forall>n \<in> set (declared_lengths lib (push c p)). 0 \<le> n"
  shows "drain lib (push c p) = (case drain lib (push c q) of (fs, r) \<Rightarrow> (es @ fs, r))"
    and "set (declared_lengths lib (push c q)) \<subseteq> set (declared_lengths lib (push c p))"
proof -
  let ?step = "\<lambda>p. if sp_in_body p then (True, p) else consume_headers lib p"
  have "drain lib (push c p) = (case drain lib (push c q) of (fs, r) \<Rightarrow> (es @ fs, r)) \<and>
    set (declared_lengths lib (push c q)) \<subseteq> set (declared_lengths lib (push c p))"
    using assms
  proof (induction lib p arbitrary: es rule: drain.induct)
    case (1 lib p)
    obtain b u where step: "(if sp_in_body p then (True, p) else consume_headers lib p) = (b, u)" by fastforce
    show ?case
    proof (cases b)
      case False
      then have wait: "\<not> sp_in_body p" "consume_headers lib p = (False, u)" using step by (auto split: if_splits)
      then have "es = []" "q = u" using "1.prems"(1) by (simp_all add: drain.simps [of lib p])
      moreover have "(if sp_in_body (push c u) then (True, push c u) else consume_headers lib (push c u))
        = (if sp_in_body (push c p) then (True, push c p) else consume_headers lib (push c p))"
        using headers_append_wait [OF wait(2)] wait(1) by simp
      from drain_same_step [OF this] have "drain lib (push c u) = drain lib (push c p)"
        "declared_lengths lib (push c u) = declared_lengths lib (push c p)" .
      ultimately show ?thesis by (auto split: prod.split)
    next
      case True
      then have ready: "(if sp_in_body p then (True, p) else consume_headers lib p) = (True, u)" using step by simp
      note more = step_append [OF ready]
      show ?thesis
      proof (cases "consume_body lib u")
        case None
        then have q: "es = []" "q = u" using "1.prems"(1) step True by (simp_all add: drain.simps [of lib p])
        have "sp_in_body u"
          using step True by (auto simp: consume_headers_def enter_body_def set_boundary_def Let_def
              split: if_splits head_scan.splits option.splits)
        then have "(if sp_in_body (push c u) then (True, push c u) else consume_headers lib (push c u))
          = (if sp_in_body (push c p) then (True, push c p) else consume_headers lib (push c p))"
          using more by simp
        from drain_same_step [OF this] q show ?thesis by (auto split: prod.split)
      next
        case (Some z)
        obtain e r where z: "consume_body lib u = Some (e, r)" using Some by (cases z) simp
        obtain fs where fs: "drain lib r = (fs, q)" "es = (case e of None \<Rightarrow> fs | Some v \<Rightarrow> v # fs)"
          using "1.prems"(1) step True z by (auto simp: drain.simps [of lib p] split: prod.splits)
        have all: "declared_lengths lib (push c p) = (case sp_expected u of None \<Rightarrow> [] | Some n \<Rightarrow> [n]) @
            (case consume_body lib (push c u) of None \<Rightarrow> [] | Some (e, r) \<Rightarrow> declared_lengths lib r)"
          by (simp only: declared_lengths.simps [of lib "push c p"] more) simp
        have "expected_fits u" using all "1.prems"(2) by (auto simp: expected_fits_def split: option.splits)
        from body_append [OF z this] have body: "consume_body lib (push c u) = Some (e, push c r)" .
        have "drain lib (push c r) = (case drain lib (push c q) of (gs, t) \<Rightarrow> (fs @ gs, t)) \<and>
          set (declared_lengths lib (push c q)) \<subseteq> set (declared_lengths lib (push c r))"
          using "1.IH" [OF ready [symmetric] refl z refl fs(1)] "1.prems"(2) all body by simp
        with all body fs(2) show ?thesis
          by (simp only: drain.simps [of lib "push c p"] more) (auto split: prod.split option.split)
      qed
    qed
  qed
  then show "drain lib (push c p) = (case drain lib (push c q) of (fs, r) \<Rightarrow> (es @ fs, r))"
    "set (declared_lengths lib (push c q)) \<subseteq> set (declared_lengths lib (push c p))" by auto
qed


text \<open>The chunks of one connection, in the order the socket gives them.\<close>

fun feed_chunks :: "stream_lib \<Rightarrow> string list \<Rightarrow> stream_parser \<Rightarrow> raw_event list \<times> stream_parser" where
  "feed_chunks lib [] p = ([], p)"
| "feed_chunks lib (c # cs) p = (case feed lib c p of (es, q) \<Rightarrow>
     (case feed_chunks lib cs q of (fs, r) \<Rightarrow> (es @ fs, r)))"

lemma feed_below_limit:
  "length (sp_buffer p) + length c \<le> max_buffer_bytes \<Longrightarrow> feed lib c p = drain lib (push c p)"
  by (simp add: feed_def push_def Let_def)

lemma headers_shrink: "consume_headers lib p = (b, q) \<Longrightarrow> length (sp_buffer q) \<le> length (sp_buffer p)"
proof -
  assume a: "consume_headers lib p = (b, q)"
  have "length (skip_newlines (sp_buffer p)) \<le> length (sp_buffer p)"
    unfolding skip_newlines_def by (rule length_dropWhile_le)
  with a show ?thesis
    by (auto simp: consume_headers_def enter_body_def set_boundary_def Let_def dest!: header_sep_length
        split: if_splits head_scan.splits option.splits)
qed

lemma drain_shrinks: "drain lib p = (es, q) \<Longrightarrow> length (sp_buffer q) \<le> length (sp_buffer p)"
proof (induction lib p arbitrary: es rule: drain.induct)
  case (1 lib p)
  obtain b u where step: "(if sp_in_body p then (True, p) else consume_headers lib p) = (b, u)" by fastforce
  then have u: "length (sp_buffer u) \<le> length (sp_buffer p)"
    by (auto dest: headers_shrink split: if_splits)
  show ?case
  proof (cases "b \<and> consume_body lib u \<noteq> None")
    case False
    with "1.prems" step u show ?thesis
      by (cases b; cases "consume_body lib u") (auto simp: drain.simps [of lib p])
  next
    case True
    then obtain e r where z: "consume_body lib u = Some (e, r)" by auto
    obtain fs where fs: "drain lib r = (fs, q)"
      using "1.prems" step True z by (auto simp: drain.simps [of lib p] split: prod.splits)
    have ready: "(if sp_in_body p then (True, p) else consume_headers lib p) = (True, u)" using step True by simp
    from "1.IH" [OF ready [symmetric] refl z refl fs] body_shrinks [OF z] u show ?thesis by linarith
  qed
qed

lemma feed_all_chunks:
  assumes "cs \<noteq> []" and "length (sp_buffer p) + length (concat cs) \<le> max_buffer_bytes"
    and "\<forall>n \<in> set (declared_lengths lib (push (concat cs) p)). 0 \<le> n"
  shows "feed_chunks lib cs p = drain lib (push (concat cs) p)"
  using assms
proof (induction cs arbitrary: p)
  case (Cons c cs)
  obtain es q where d: "drain lib (push c p) = (es, q)" by fastforce
  have c: "feed lib c p = (es, q)" using Cons.prems(2) d by (simp add: feed_below_limit)
  show ?case
  proof (cases "cs = []")
    case True
    with c d show ?thesis by simp
  next
    case False
    have "\<forall>n \<in> set (declared_lengths lib (push (concat cs) (push c p))). 0 \<le> n" using Cons.prems(3) by simp
    note app = drain_append [OF d this]
    have "length (sp_buffer q) + length (concat cs) \<le> max_buffer_bytes"
      using drain_shrinks [OF d] Cons.prems(2) by simp
    with Cons.IH [OF False] app(2) Cons.prems(3)
    have "feed_chunks lib cs q = drain lib (push (concat cs) q)" by auto
    with c app(1) show ?thesis by simp
  qed
qed simp

section \<open>Normalised events\<close>

definition event_code_map :: "(string \<times> string) list" where
  "event_code_map = [(''SmartMotionHuman'', ''person_detected''), (''SmartMotionVehicle'', ''vehicle_detected''),
     (''VideoMotion'', ''motion_detected''), (''VideoMotionInfo'', ''motion_info''), (''VideoLoss'', ''video_loss''),
     (''VideoBlind'', ''video_blind''), (''StorageNotExist'', ''storage_not_exist''),
     (''StorageFailure'', ''storage_failure''), (''StorageLowSpace'', ''storage_low_space''),
     (''CrossLineDetection'', ''line_crossing''), (''CrossRegionDetection'', ''zone_intrusion''),
     (''VideoAbnormalDetection'', ''scene_abnormal''), (''NewFile'', ''new_recording_file''),
     (''AlarmLocal'', ''alarm_input''), (''TamperDetection'', ''camera_tamper''), (''SceneChange'', ''scene_change''),
     (''Heartbeat'', ''heartbeat''), (''KeepAlive'', ''heartbeat''), (''TimeChange'', ''device_time_changed''),
     (''NTPAdjustTime'', ''device_time_synced''), (''Reboot'', ''device_reboot''),
     (''RtspSessionDisconnect'', ''rtsp_session_disconnect''), (''WanderDetection'', ''loitering_detected''),
     (''LeftDetection'', ''abandoned_object''), (''TakenAwayDetection'', ''object_removed''),
     (''ParkingDetection'', ''illegal_parking'')]"

definition blocked_event_codes :: "string list" where
  "blocked_event_codes = [''FaceDetection'', ''FaceRecognition'', ''FaceComparison'', ''FaceAnalysis'',
     ''HumanFaceDetect'', ''FaceCapture'']"

definition is_blocked_code :: "string \<Rightarrow> bool" where
  "is_blocked_code code \<longleftrightarrow> code \<in> set blocked_event_codes \<or> take 4 (lower code) = ''face''"

datatype event_action = EA_OPENED | EA_CLOSED | EA_PULSE | EA_UNKNOWN

definition action_map :: "(string \<times> event_action) list" where
  "action_map = [(''start'', EA_OPENED), (''stop'', EA_CLOSED), (''pulse'', EA_PULSE), (''state'', EA_PULSE)]"

record normalized_event =
  ne_type :: string
  ne_vendor :: string
  ne_code :: string
  ne_vendor_action :: string
  ne_action :: event_action
  ne_index :: "int option"
  ne_channel :: "int option"
  ne_occurred :: instant
  ne_data :: "(string \<times> pyval) list"
  ne_object :: "string option"
  ne_known_code :: bool
  ne_known_action :: bool

text \<open>\<^verbatim>\<open>value.get(a) or value.get(b)\<close>.\<close>

definition get_or :: "(string \<times> pyval) list \<Rightarrow> string \<Rightarrow> string \<Rightarrow> pyval" where
  "get_or d a b = (case map_of d a of Some v \<Rightarrow> if truth v then v
       else (case map_of d b of Some w \<Rightarrow> w | None \<Rightarrow> PNone)
     | None \<Rightarrow> (case map_of d b of Some w \<Rightarrow> w | None \<Rightarrow> PNone))"

definition class_of :: "pyval \<Rightarrow> string option" where
  "class_of v = (case v of
     PDict d \<Rightarrow> (case get_or d ''ObjectType'' ''Type'' of PStr s \<Rightarrow> if s = [] then None else Some s | _ \<Rightarrow> None)
   | _ \<Rightarrow> None)"

definition object_keys :: "string list" where
  "object_keys = [''Object'', ''Objects'', ''DetectObject'']"

definition lowered :: "(string \<times> pyval) list \<Rightarrow> (string, pyval) dict" where
  "lowered data = foldl (\<lambda>d (k, v). dict_set (lower k) v d) [] data"

definition class_at :: "(string, pyval) dict \<Rightarrow> string \<Rightarrow> string option" where
  "class_at d k = (case map_of d (lower k) of
     Some (PList items) \<Rightarrow> first_some class_of items
   | Some v \<Rightarrow> class_of v
   | None \<Rightarrow> None)"

definition extract_object_type :: "(string \<times> pyval) list \<Rightarrow> string option" where
  "extract_object_type data =
    (let d = lowered data in
     case first_some (class_at d) object_keys of
       Some s \<Rightarrow> Some s
     | None \<Rightarrow> (case map_of d ''objecttypes'' of
         Some (PList (PStr s # _)) \<Rightarrow> Some s
       | _ \<Rightarrow> None))"

definition logical_of :: "int \<Rightarrow> int \<Rightarrow> (int \<rightharpoonup> int) option \<Rightarrow> int \<Rightarrow> int" where
  "logical_of index_base logical_base overrides i =
    (case overrides of
       Some m \<Rightarrow> (case m i of Some c \<Rightarrow> c | None \<Rightarrow> i - index_base + logical_base)
     | None \<Rightarrow> i - index_base + logical_base)"

definition normalize_event :: "int \<Rightarrow> int \<Rightarrow> (int \<rightharpoonup> int) option \<Rightarrow> instant option \<Rightarrow> instant \<Rightarrow> raw_event
    \<Rightarrow> normalized_event" where
  "normalize_event index_base logical_base overrides occurred received e =
    (let code = re_code e;
         known = map_of event_code_map code;
         blocked = is_blocked_code code;
         action = lower (py_strip (re_action e))
     in \<lparr>ne_type = (if blocked then ''blocked:face_event''
                   else case known of Some t \<Rightarrow> t | None \<Rightarrow> ''vendor_unknown:'' @ code),
         ne_vendor = ''dahua'', ne_code = code, ne_vendor_action = re_action e,
         ne_action = (case map_of action_map action of Some a \<Rightarrow> a | None \<Rightarrow> EA_UNKNOWN),
         ne_index = re_index e,
         ne_channel = map_option (logical_of index_base logical_base overrides) (re_index e),
         ne_occurred = (case occurred of Some t \<Rightarrow> t | None \<Rightarrow> received),
         ne_data = (if blocked then [] else re_data e),
         ne_object = extract_object_type (re_data e),
         ne_known_code = (known \<noteq> None),
         ne_known_action = (map_of action_map action \<noteq> None)\<rparr>)"

text \<open>What a connection hands to the gateway: heartbeats and face events stop here.\<close>

definition gateway_events :: "int \<Rightarrow> (int \<rightharpoonup> int) option \<Rightarrow> instant \<Rightarrow> raw_event list \<Rightarrow> normalized_event list" where
  "gateway_events index_base overrides received es =
    map (normalize_event index_base 1 overrides None received)
      (filter (\<lambda>e. \<not> is_heartbeat e \<and> \<not> is_blocked_code (re_code e)) es)"


section \<open>Parts that declare their length\<close>

definition blank_line :: string where
  "blank_line = [CHR 0x0D, CHR 0x0A, CHR 0x0D, CHR 0x0A]"

definition wire :: "string \<times> string \<Rightarrow> string" where
  "wire part = fst part @ blank_line @ snd part"

definition part_headers :: "stream_lib \<Rightarrow> string \<times> string \<Rightarrow> (string, string) dict option" where
  "part_headers lib part = (case scan_head lib 0 [] (skip_newlines (fst part)) of
     Header_block hs \<Rightarrow> Some hs | Payload_at _ _ \<Rightarrow> None)"

text \<open>
  A header block, possibly after stray line ends, without a blank line or a payload line in it,
  whose \<^verbatim>\<open>Content-Length\<close> is the length of the body.
\<close>

definition declares_length :: "stream_lib \<Rightarrow> string \<times> string \<Rightarrow> bool" where
  "declares_length lib part \<longleftrightarrow> (let h = skip_newlines (fst part) in
     h \<noteq> [] \<and> header_sep (h @ blank_line) = Some (h, []) \<and>
     (case part_headers lib part of None \<Rightarrow> False
      | Some hs \<Rightarrow> (case map_of hs ''content-length'' of None \<Rightarrow> False
          | Some s \<Rightarrow> py_int s = Some (int (length (snd part))))))"

definition part_event :: "stream_lib \<Rightarrow> string \<times> string \<Rightarrow> raw_event option" where
  "part_event lib part = build lib (snd part) (case part_headers lib part of None \<Rightarrow> [] | Some hs \<Rightarrow> hs)"

definition idle :: "stream_parser \<Rightarrow> bool" where
  "idle p \<longleftrightarrow> sp_buffer p = [] \<and> \<not> sp_in_body p"

lemma enter_body_fields:
  "sp_buffer (enter_body lib hs p) = sp_buffer p" "sp_headers (enter_body lib hs p) = hs"
  "sp_in_body (enter_body lib hs p)"
  "sp_expected (enter_body lib hs p) = (case map_of hs ''content-length'' of None \<Rightarrow> None | Some n \<Rightarrow> py_int n)"
  by (simp_all add: enter_body_def set_boundary_def Let_def split: option.split)

lemma one_part:
  assumes ok: "declares_length lib part" and p: "sp_buffer p = wire part @ rest" "\<not> sp_in_body p"
  obtains r where "drain lib p = (case drain lib r of (es, t) \<Rightarrow>
      ((case part_event lib part of None \<Rightarrow> es | Some v \<Rightarrow> v # es), t))"
    "declared_lengths lib p = int (length (snd part)) # declared_lengths lib r"
    "sp_buffer r = rest" "\<not> sp_in_body r"
proof -
  let ?h = "skip_newlines (fst part)"
  obtain hs s where hs: "part_headers lib part = Some hs" "map_of hs ''content-length'' = Some s"
    "py_int s = Some (int (length (snd part)))"
    using ok by (auto simp: declares_length_def Let_def split: option.splits)
  have h: "?h \<noteq> []" "header_sep (?h @ blank_line) = Some (?h, [])"
    using ok by (auto simp: declares_length_def Let_def)
  have buf: "skip_newlines (sp_buffer p) = ?h @ blank_line @ snd part @ rest"
    using skip_newlines_append [OF h(1)] by (simp add: p(1) wire_def)
  have sep: "header_sep (?h @ blank_line @ snd part @ rest) = Some (?h, snd part @ rest)"
    using header_sep_append [OF h(2), of "snd part @ rest"] by simp
  have scan: "scan_head lib 0 [] ?h = Header_block hs"
    using hs(1) by (auto simp: part_headers_def split: head_scan.splits)
  define q where "q = enter_body lib hs (p\<lparr>sp_buffer := snd part @ rest\<rparr>)"
  have step: "consume_headers lib p = (True, q)"
    by (simp add: consume_headers_def Let_def buf head_of_def sep scan h(1) q_def)
  define r where "r = q\<lparr>sp_buffer := rest, sp_in_body := False, sp_headers := [], sp_expected := None\<rparr>"
  have q: "sp_expected q = Some (int (length (snd part)))" "sp_buffer q = snd part @ rest" "sp_headers q = hs"
    unfolding q_def by (simp_all add: enter_body_fields hs)
  have body: "consume_body lib q = Some (part_event lib part, r)"
    by (simp add: consume_body_def body_end_def q slice_end_def part_event_def hs(1) r_def)
  show thesis
  proof (rule that)
    show "drain lib p = (case drain lib r of (es, t) \<Rightarrow>
        ((case part_event lib part of None \<Rightarrow> es | Some v \<Rightarrow> v # es), t))"
      by (simp add: drain.simps [of lib p] p(2) step body)
    show "declared_lengths lib p = int (length (snd part)) # declared_lengths lib r"
      by (simp add: declared_lengths.simps [of lib p] p(2) step body q(1))
  qed (simp_all add: r_def)
qed

lemma idle_drain: "idle p \<Longrightarrow> drain lib p = ([], p) \<and> declared_lengths lib p = []"
  by (simp add: idle_def drain.simps [of lib p] declared_lengths.simps [of lib p] consume_headers_def skip_newlines_def)

lemma all_parts:
  assumes "\<forall>part \<in> set parts. declares_length lib part"
    and "sp_buffer p = concat (map wire parts)" and "\<not> sp_in_body p"
  shows "(\<exists>q. drain lib p = (List.map_filter (part_event lib) parts, q) \<and> idle q) \<and>
    (\<forall>n \<in> set (declared_lengths lib p). 0 \<le> n)"
  using assms
proof (induction parts arbitrary: p)
  case Nil
  then have "idle p" by (simp add: idle_def)
  with idle_drain [OF this] show ?case by (simp add: List.map_filter_def)
next
  case (Cons part parts)
  then have "declares_length lib part" "sp_buffer p = wire part @ concat (map wire parts)" by simp_all
  from one_part [OF this Cons.prems(3)] obtain r where
    r: "drain lib p = (case drain lib r of (es, t) \<Rightarrow> ((case part_event lib part of None \<Rightarrow> es | Some v \<Rightarrow> v # es), t))"
    "declared_lengths lib p = int (length (snd part)) # declared_lengths lib r"
    "sp_buffer r = concat (map wire parts)" "\<not> sp_in_body r" by blast
  from Cons.IH [OF _ r(3,4)] Cons.prems(1) show ?case
    by (auto simp: r(1,2) List.map_filter_def split: option.split)
qed

text \<open>One part, as the recorder frames it.\<close>

definition plain_lib :: stream_lib where
  "plain_lib = \<lparr>lb_ascii = \<lambda>s. s, lb_utf8 = \<lambda>s. s, lb_json = \<lambda>_. None\<rparr>"

definition sample_part :: "string \<times> string" where
  "sample_part = (''Content-Length:6'', ''Code=A'')"

lemma sample_headers: "part_headers plain_lib sample_part = Some [(''content-length'', ''6'')]"
  by code_simp
lemma sample_len: "py_int ''6'' = Some 6"
  by code_simp
lemma sample_skip: "skip_newlines (fst sample_part) = ''Content-Length:6''"
  by code_simp
lemma sample_sep: "header_sep (''Content-Length:6'' @ blank_line) = Some (''Content-Length:6'', [])"
  by code_simp
lemma sample_body: "length (snd sample_part) = 6"
  by (simp add: sample_part_def)
lemma sample_declares: "declares_length plain_lib sample_part"
  unfolding declares_length_def sample_headers sample_skip Let_def sample_sep
  by (simp add: sample_len sample_body)
lemma sample_event: "map_option re_code (part_event plain_lib sample_part) = Some ''A''"
  by code_simp
lemma sample_lengths: "declared_lengths plain_lib (push (wire sample_part) (new_parser None)) = [6]"
  by code_simp

lemma sample_length: "length (wire sample_part) = 26" "26 \<le> max_buffer_bytes" "52 \<le> max_buffer_bytes"
  by (simp_all add: wire_def sample_part_def blank_line_def max_buffer_bytes_def)

lemma sample_start: "sp_buffer (new_parser None) = []" "idle (new_parser None)"
  by (simp_all add: new_parser_def idle_def)

section \<open>Chunks\<close>

text \<open>
  C5. However the network cut the bytes into chunks, feeding them one by one yields the same events,
  in the same order, and leaves the parser in the same state as feeding them at once, as long as
  they fit the buffer and no part announces a negative length.
\<close>

theorem chunks_do_not_matter:
  assumes "cs \<noteq> []" and "length (sp_buffer p) + length (concat cs) \<le> max_buffer_bytes"
    and "\<forall>n \<in> set (declared_lengths lib (push (concat cs) p)). 0 \<le> n"
  shows "feed_chunks lib cs p = feed lib (concat cs) p"
  using feed_all_chunks [OF assms] feed_below_limit [OF assms(2)] by simp

lemma chunks_do_not_matter_witness:
  "feed_chunks plain_lib [take 9 (wire sample_part), drop 9 (wire sample_part)] (new_parser None)
    = feed plain_lib (wire sample_part) (new_parser None)"
  using chunks_do_not_matter [of "[take 9 (wire sample_part), drop 9 (wire sample_part)]" "new_parser None" plain_lib]
  by (simp add: sample_lengths sample_start sample_length del: feed_chunks.simps)

text \<open>
  C13. A stream of parts that declare their length, cut into chunks in any way below the buffer
  limit, comes out of an idle parser as exactly the events of the parts, in order, and leaves it idle.
  A part whose text holds no code yields nothing and disturbs no other part.
\<close>

theorem parts_come_out_in_order:
  assumes "\<forall>part \<in> set parts. declares_length lib part" and "idle p"
    and "cs \<noteq> []" and "concat cs = concat (map wire parts)" and "length (concat cs) \<le> max_buffer_bytes"
  shows "\<exists>q. feed_chunks lib cs p = (List.map_filter (part_event lib) parts, q) \<and> idle q"
proof -
  have p: "sp_buffer (push (concat cs) p) = concat (map wire parts)" "\<not> sp_in_body (push (concat cs) p)"
    "length (sp_buffer p) + length (concat cs) \<le> max_buffer_bytes"
    using assms(2,4,5) by (simp_all add: idle_def)
  from all_parts [OF assms(1) p(1,2)] feed_all_chunks [OF assms(3) p(3)] show ?thesis by auto
qed

lemma parts_come_out_in_order_witness:
  "\<exists>e q. feed_chunks plain_lib [take 9 (wire sample_part), drop 9 (wire sample_part) @ wire sample_part] (new_parser None)
     = ([e, e], q) \<and> re_code e = ''A'' \<and> idle q"
proof -
  obtain e where e: "part_event plain_lib sample_part = Some e" "re_code e = ''A''" using sample_event by auto
  have "\<exists>q. feed_chunks plain_lib [take 9 (wire sample_part), drop 9 (wire sample_part) @ wire sample_part] (new_parser None)
    = (List.map_filter (part_event plain_lib) [sample_part, sample_part], q) \<and> idle q"
    by (rule parts_come_out_in_order) (simp_all add: sample_declares sample_start sample_length)
  with e show ?thesis by (auto simp: List.map_filter_def)
qed

text \<open>
  A negative length is taken at its word: \<^verbatim>\<open>buffer[:-4]\<close> depends on how much has arrived, so the
  same bytes give different events when they are cut differently.
\<close>

definition short_part :: string where
  "short_part = ''Content-Length:-4'' @ blank_line"

lemma short_part_whole:
  "map re_code (fst (drain plain_lib (push (short_part @ ''Code=A;zCode=B;'') (new_parser None)))) = [''A'']"
  by code_simp

lemma short_part_cut:
  "case drain plain_lib (push short_part (new_parser None)) of (es, q) \<Rightarrow>
     map re_code (es @ fst (drain plain_lib (push ''Code=A;zCode=B;'' q))) = []"
  by code_simp

end
