(* ===== verification/EventStream.thy ===== *)
theory EventStream
  imports EventParser
begin

text \<open>
  The reconnecting listener, \<^verbatim>\<open>edge-agent/nightshift_edge/devices/dahua/event_stream.py\<close>.
  A connection is what the HTTP client makes of one attempt: refused, or opened with a content type,
  the chunks that arrive and the way it ends.  Times are seconds; the random draws are inputs.
\<close>

section \<open>Query and delays\<close>

datatype attach_codes = One_text string | Code_list "string list"

definition build_attach_query :: "attach_codes \<Rightarrow> int \<Rightarrow> string" where
  "build_attach_query codes heartbeat =
    (let cs = (case codes of Code_list xs \<Rightarrow> ''['' @ join_with '','' xs @ '']''
       | One_text s \<Rightarrow> if take 1 s = ''['' then s else ''['' @ s @ '']'')
     in ''action=attach&codes='' @ cs @ ''&heartbeat='' @ show_int heartbeat)"

definition backoff_ladder :: "rat list" where
  "backoff_ladder = [1, 2, 5, 10, 30]"

definition backoff_delay :: "nat \<Rightarrow> rat \<Rightarrow> rat \<Rightarrow> rat" where
  "backoff_delay attempt jitter draw =
    (let base = backoff_ladder ! min attempt (length backoff_ladder - 1)
     in if jitter \<le> 0 then base else max (1/10) (base * (1 + draw)))"

definition default_jitter :: rat where
  "default_jitter = 1/4"

definition watchdog_seconds :: "rat \<Rightarrow> rat \<Rightarrow> rat" where
  "watchdog_seconds heartbeat multiplier = max 15 (heartbeat * multiplier)"

section \<open>One connection\<close>

datatype stream_failure = Auth_rejected | Transport_lost | Device_error | Unexpected

datatype stream_end = Closed_by_device | No_data_in_time | Broken stream_failure

record opened =
  op_content_type :: "string option"
  op_chunks :: "(rat \<times> string) list"
  op_end :: stream_end

datatype connection = Refused stream_failure | Opened opened

record stream_stats =
  ss_connects :: nat
  ss_disconnects :: nat
  ss_auth_failures :: nat
  ss_events :: nat
  ss_heartbeats :: nat
  ss_last_event :: "rat option"
  ss_connected :: bool

definition fresh_stats :: stream_stats where
  "fresh_stats = \<lparr>ss_connects = 0, ss_disconnects = 0, ss_auth_failures = 0, ss_events = 0, ss_heartbeats = 0,
     ss_last_event = None, ss_connected = False\<rparr>"

text \<open>The callback runs only when the flag changes; its calls are logged.\<close>

definition set_connected :: "bool \<Rightarrow> stream_stats \<times> bool list \<Rightarrow> stream_stats \<times> bool list" where
  "set_connected b s = (if ss_connected (fst s) = b then s
     else ((fst s)\<lparr>ss_connected := b\<rparr>, snd s @ [b]))"

definition record_event :: "rat \<Rightarrow> raw_event \<Rightarrow> stream_stats \<Rightarrow> stream_stats" where
  "record_event now e s =
    (let s' = s\<lparr>ss_last_event := Some now\<rparr> in
     if is_heartbeat e then s'\<lparr>ss_heartbeats := ss_heartbeats s' + 1\<rparr> else s'\<lparr>ss_events := ss_events s' + 1\<rparr>)"

fun receive :: "stream_lib \<Rightarrow> (rat \<times> string) list \<Rightarrow> stream_parser \<Rightarrow> stream_stats
    \<Rightarrow> raw_event list \<times> stream_parser \<times> stream_stats" where
  "receive lib [] p s = ([], p, s)"
| "receive lib ((t, c) # cs) p s = (case feed lib c p of (es, q) \<Rightarrow>
     (case receive lib cs q (fold (record_event t) es s) of (fs, r, s') \<Rightarrow> (es @ fs, r, s')))"

definition stream_parser_for :: "string option \<Rightarrow> stream_parser" where
  "stream_parser_for ct = (case boundary_from_content_type ct of
     None \<Rightarrow> new_parser None | Some b \<Rightarrow> set_boundary b (new_parser None))"

definition connect_once :: "stream_lib \<Rightarrow> connection \<Rightarrow> stream_stats \<times> bool list
    \<Rightarrow> raw_event list \<times> stream_failure option \<times> stream_stats \<times> bool list" where
  "connect_once lib c st = (case c of
     Refused f \<Rightarrow> ([], Some f, st)
   | Opened d \<Rightarrow>
       (let st1 = set_connected True ((fst st)\<lparr>ss_connects := ss_connects (fst st) + 1\<rparr>, snd st) in
        case receive lib (op_chunks d) (stream_parser_for (op_content_type d)) (fst st1) of (es, p, s) \<Rightarrow>
          (case op_end d of
             Closed_by_device \<Rightarrow> (es, None, s\<lparr>ss_disconnects := ss_disconnects s + 1\<rparr>, snd st1)
           | No_data_in_time \<Rightarrow> (es, Some Transport_lost, s\<lparr>ss_disconnects := ss_disconnects s + 1\<rparr>, snd st1)
           | Broken f \<Rightarrow> (es, Some f, s, snd st1))))"

section \<open>The listener\<close>

record listener =
  ls_stats :: stream_stats
  ls_calls :: "bool list"
  ls_attempt :: nat

definition new_listener :: listener where
  "new_listener = \<lparr>ls_stats = fresh_stats, ls_calls = [], ls_attempt = 0\<rparr>"

definition listen_turn :: "stream_lib \<Rightarrow> connection \<Rightarrow> rat \<Rightarrow> listener \<Rightarrow> (raw_event list \<times> rat) \<times> listener" where
  "listen_turn lib c draw l =
    (case connect_once lib c (ls_stats l, ls_calls l) of (es, failure, s, calls) \<Rightarrow>
       let attempt = (if es = [] then ls_attempt l else 0);
           s1 = (if failure = Some Auth_rejected then s\<lparr>ss_auth_failures := ss_auth_failures s + 1\<rparr> else s);
           (s2, calls2) = set_connected False (s1, calls)
       in ((es, backoff_delay attempt default_jitter draw),
           \<lparr>ls_stats = s2, ls_calls = calls2, ls_attempt = attempt + 1\<rparr>))"

fun listen :: "stream_lib \<Rightarrow> (connection \<times> rat) list \<Rightarrow> listener \<Rightarrow> (raw_event list \<times> rat) list \<times> listener" where
  "listen lib [] l = ([], l)"
| "listen lib ((c, draw) # cs) l = (case listen_turn lib c draw l of (x, m) \<Rightarrow>
     (case listen lib cs m of (xs, r) \<Rightarrow> (x # xs, r)))"

section \<open>What it keeps\<close>

text \<open>Connections in a row without an event, counted back from the end.\<close>

definition fruitless :: "(raw_event list \<times> rat) list \<Rightarrow> nat" where
  "fruitless xs = length (takeWhile (\<lambda>x. fst x = []) (rev xs))"

fun alternating :: "bool list \<Rightarrow> bool" where
  "alternating (x # y # zs) \<longleftrightarrow> x \<noteq> y \<and> alternating (y # zs)"
| "alternating _ \<longleftrightarrow> True"

definition calls_ok :: "stream_stats \<times> bool list \<Rightarrow> bool" where
  "calls_ok s \<longleftrightarrow> alternating (False # snd s) \<and> last (False # snd s) = ss_connected (fst s)"

lemma alternating_snoc: "alternating (xs @ [x]) \<longleftrightarrow> alternating xs \<and> (xs = [] \<or> last xs \<noteq> x)"
  by (induction xs rule: alternating.induct) auto

lemma set_connected_ok: "calls_ok s \<Longrightarrow> calls_ok (set_connected b s) \<and> ss_connected (fst (set_connected b s)) = b"
  using alternating_snoc [of "False # snd s" b] by (auto simp: calls_ok_def set_connected_def)

lemma fold_record_connected [simp]: "ss_connected (fold (record_event t) es s) = ss_connected s"
  by (induction es arbitrary: s) (simp_all add: record_event_def Let_def)

lemma receive_connected: "receive lib cs p s = (es, q, s') \<Longrightarrow> ss_connected s' = ss_connected s"
  by (induction lib cs p s arbitrary: es rule: receive.induct) (fastforce split: prod.splits)+

lemma connect_once_ok:
  assumes "calls_ok st" and "connect_once lib c st = (es, f, s, calls)"
  shows "calls_ok (s, calls)"
proof (cases c)
  case (Refused g)
  with assms show ?thesis by (simp add: connect_once_def)
next
  case (Opened d)
  let ?st = "set_connected True ((fst st)\<lparr>ss_connects := ss_connects (fst st) + 1\<rparr>, snd st)"
  have "calls_ok ((fst st)\<lparr>ss_connects := ss_connects (fst st) + 1\<rparr>, snd st)"
    using assms(1) by (simp add: calls_ok_def)
  from set_connected_ok [OF this] have st: "calls_ok ?st" by blast
  obtain es' p s' where r: "receive lib (op_chunks d) (stream_parser_for (op_content_type d)) (fst ?st) = (es', p, s')"
    by (cases "receive lib (op_chunks d) (stream_parser_for (op_content_type d)) (fst ?st)") auto
  with assms(2) Opened have "ss_connected s = ss_connected s'" "calls = snd ?st"
    by (auto simp: connect_once_def Let_def split: stream_end.splits)
  with receive_connected [OF r] st show ?thesis by (simp add: calls_ok_def)
qed

lemma listen_turn_ok:
  assumes "calls_ok (ls_stats l, ls_calls l)" and "listen_turn lib c u l = ((es, d), m)"
  shows "calls_ok (ls_stats m, ls_calls m)" "\<not> ss_connected (ls_stats m)"
    "ls_attempt m = Suc (if es = [] then ls_attempt l else 0)" "d = backoff_delay (ls_attempt m - 1) default_jitter u"
proof -
  obtain es' f s calls where c: "connect_once lib c (ls_stats l, ls_calls l) = (es', f, s, calls)"
    by (cases "connect_once lib c (ls_stats l, ls_calls l)") auto
  define s1 where "s1 = (if f = Some Auth_rejected then s\<lparr>ss_auth_failures := ss_auth_failures s + 1\<rparr> else s)"
  have "calls_ok (s1, calls)" using connect_once_ok [OF assms(1) c] by (simp add: s1_def calls_ok_def)
  from set_connected_ok [OF this, of False]
  have ok: "calls_ok (set_connected False (s1, calls))" "\<not> ss_connected (fst (set_connected False (s1, calls)))" by auto
  have m: "es' = es" "m = \<lparr>ls_stats = fst (set_connected False (s1, calls)), ls_calls = snd (set_connected False (s1, calls)),
      ls_attempt = Suc (if es = [] then ls_attempt l else 0)\<rparr>" "d = backoff_delay (if es = [] then ls_attempt l else 0) default_jitter u"
    using assms(2) c by (auto simp: listen_turn_def Let_def s1_def split: prod.splits)
  show "calls_ok (ls_stats m, ls_calls m)" "\<not> ss_connected (ls_stats m)" using ok by (simp_all add: m(2))
  show "ls_attempt m = Suc (if es = [] then ls_attempt l else 0)" "d = backoff_delay (ls_attempt m - 1) default_jitter u"
    by (simp_all add: m(2,3))
qed


definition ladder_step :: "(raw_event list \<times> rat) list \<Rightarrow> nat" where
  "ladder_step xs = (if \<forall>x \<in> set xs. fst x = [] then length xs - 1 else fruitless xs)"

definition next_attempt :: "(raw_event list \<times> rat) list \<Rightarrow> nat" where
  "next_attempt xs = (if \<forall>x \<in> set xs. fst x = [] then length xs else Suc (fruitless xs))"

lemma fruitless_snoc: "fruitless (xs @ [x]) = (if fst x = [] then Suc (fruitless xs) else 0)"
  by (simp add: fruitless_def)

lemma ladder_snoc:
  "ladder_step (xs @ [x]) = (if fst x = [] then next_attempt xs else 0)"
  "next_attempt (xs @ [x]) = Suc (ladder_step (xs @ [x]))"
  by (auto simp: ladder_step_def next_attempt_def fruitless_snoc)

lemma listen_snoc:
  "listen lib (cs @ [(c, u)]) l = (case listen lib cs l of (xs, m) \<Rightarrow>
     (case listen_turn lib c u m of (x, r) \<Rightarrow> (xs @ [x], r)))"
  by (induction cs arbitrary: l) (auto split: prod.splits)

lemma listen_invariant:
  assumes "listen lib cs new_listener = (xs, m)"
  shows "calls_ok (ls_stats m, ls_calls m) \<and> \<not> ss_connected (ls_stats m) \<and> length xs = length cs \<and>
    ls_attempt m = next_attempt xs \<and>
    (\<forall>i < length cs. snd (xs ! i) = backoff_delay (ladder_step (take (Suc i) xs)) default_jitter (snd (cs ! i)))"
  using assms
proof (induction cs arbitrary: xs m rule: rev_induct)
  case Nil
  then show ?case by (auto simp: new_listener_def fresh_stats_def calls_ok_def next_attempt_def)
next
  case (snoc c cs)
  obtain ys n where ys: "listen lib cs new_listener = (ys, n)" by fastforce
  obtain e d r where turn: "listen_turn lib (fst c) (snd c) n = ((e, d), r)"
    by (cases "listen_turn lib (fst c) (snd c) n") auto
  have xs: "xs = ys @ [(e, d)]" "m = r"
    using snoc.prems listen_snoc [of lib cs "fst c" "snd c"] by (simp_all add: ys turn)
  note old = snoc.IH [OF ys]
  then have ok: "calls_ok (ls_stats n, ls_calls n)" by blast
  note new = listen_turn_ok [OF ok turn]
  have step: "ls_attempt m = Suc (ladder_step xs)" using new(3) old by (simp add: xs ladder_snoc)
  have "snd (xs ! i) = backoff_delay (ladder_step (take (Suc i) xs)) default_jitter (snd ((cs @ [c]) ! i))"
    if i: "i < Suc (length cs)" for i
  proof (cases "i < length cs")
    case True
    with old show ?thesis by (simp add: xs nth_append)
  next
    case False
    with i old have "i = length ys" "i = length cs" by simp_all
    moreover have "d = backoff_delay (ladder_step xs) default_jitter (snd c)"
      using new(4) step by (simp only: xs(2) diff_Suc_1)
    ultimately show ?thesis by (simp add: xs(1) nth_append)
  qed
  with new(1,2) step old show ?case by (auto simp: xs(2) ladder_snoc xs(1))
qed

lemma ladder_values: "backoff_ladder ! min k (length backoff_ladder - 1) =
    (if k = 0 then 1 else if k = 1 then 2 else if k = 2 then 5 else if k = 3 then 10 else 30)"
proof -
  consider "k = 0" | "k = 1" | "k = 2" | "k = 3" | "4 \<le> k" by linarith
  then show ?thesis by cases (simp_all add: backoff_ladder_def min_def)
qed

lemma delay_bounds:
  assumes "\<bar>u\<bar> \<le> default_jitter"
  shows "3/4 \<le> backoff_delay k default_jitter u" "backoff_delay k default_jitter u \<le> 75/2"
    "4 \<le> k \<Longrightarrow> 45/2 \<le> backoff_delay k default_jitter u"
  using assms unfolding backoff_delay_def ladder_values default_jitter_def Let_def by (auto simp: abs_le_iff)

lemma listener_backs_off_facts:
  assumes "listen lib cs new_listener = (xs, m)" and "\<forall>c \<in> set cs. \<bar>snd c\<bar> \<le> default_jitter" and "i < length cs"
  shows "snd (xs ! i) = backoff_delay (ladder_step (take (Suc i) xs)) default_jitter (snd (cs ! i))"
    and "3/4 \<le> snd (xs ! i)" and "snd (xs ! i) \<le> 75/2"
    and "4 \<le> ladder_step (take (Suc i) xs) \<Longrightarrow> 45/2 \<le> snd (xs ! i)"
    and "alternating (False # ls_calls m) \<and> \<not> last (False # ls_calls m)"
proof -
  have all: "calls_ok (ls_stats m, ls_calls m)" "\<not> ss_connected (ls_stats m)"
    "snd (xs ! i) = backoff_delay (ladder_step (take (Suc i) xs)) default_jitter (snd (cs ! i))"
    using listen_invariant [OF assms(1)] assms(3) by auto
  have u: "\<bar>snd (cs ! i)\<bar> \<le> default_jitter" using assms(2,3) by simp
  show "snd (xs ! i) = backoff_delay (ladder_step (take (Suc i) xs)) default_jitter (snd (cs ! i))"
    "3/4 \<le> snd (xs ! i)" "snd (xs ! i) \<le> 75/2" "4 \<le> ladder_step (take (Suc i) xs) \<Longrightarrow> 45/2 \<le> snd (xs ! i)"
    using all(3) delay_bounds [OF u] by simp_all
  show "alternating (False # ls_calls m) \<and> \<not> last (False # ls_calls m)"
    using all(1,2) by (simp add: calls_ok_def)
qed

text \<open>
  C26. Whatever the recorder answers, each wait before a reconnect is the delay of the step the
  listener has reached: the number of fruitless turns since the last one that brought an event, or
  before this one when none ever did, capped by the ladder.  With jitter it stays between 0.75 and 37.5 seconds, is at least 22.5 seconds from the
  ladder's fifth step on, and the callback is told connected and disconnected in turn, ending with
  disconnected.
\<close>

theorem listener_backs_off:
  assumes "listen lib cs new_listener = (xs, m)" and "\<forall>c \<in> set cs. \<bar>snd c\<bar> \<le> default_jitter" and "i < length cs"
  shows "(snd (xs ! i) = backoff_delay (ladder_step (take (Suc i) xs)) default_jitter (snd (cs ! i))) \<and>
    (3/4 \<le> snd (xs ! i)) \<and>
    (snd (xs ! i) \<le> 75/2) \<and>
    ((4 \<le> ladder_step (take (Suc i) xs)) \<longrightarrow>
      45/2 \<le> snd (xs ! i)) \<and>
    (alternating (False # ls_calls m) \<and> \<not> last (False # ls_calls m))"
  by (intro conjI impI; ((rule listener_backs_off_facts [OF assms]; assumption)+ | use listener_backs_off_facts [OF assms] in blast))

definition flaky :: "(connection \<times> rat) list" where
  "flaky = replicate 5 (Refused Transport_lost, 0)"

lemma listener_backs_off_witness:
  "map snd (fst (listen plain_lib flaky new_listener)) = [1, 2, 5, 10, 30] \<and>
   (45/2 :: rat) \<le> snd (fst (listen plain_lib flaky new_listener) ! 4)"
proof -
  have run: "listen plain_lib flaky new_listener =
      (map (Pair []) [1, 2, 5, 10, 30], \<lparr>ls_stats = fresh_stats, ls_calls = [], ls_attempt = 5\<rparr>)"
    by code_simp
  have "45/2 \<le> snd (map (Pair ([] :: raw_event list)) [1, 2, 5, 10, 30 :: rat] ! 4)"
    by (rule listener_backs_off [OF run, THEN conjunct2, THEN conjunct2, THEN conjunct2, THEN conjunct1, rule_format]) (simp_all add: flaky_def default_jitter_def ladder_step_def)
  then show ?thesis by (simp add: run)
qed

text \<open>
  A recorder that sends no lengths has its last event still open when it closes the stream: the
  parser would give it on \<^verbatim>\<open>flush\<close>, which the listener never calls.
\<close>

definition unfinished :: connection where
  "unfinished = Opened \<lparr>op_content_type = None, op_chunks = [(0, ''Code=A'')], op_end = Closed_by_device\<rparr>"

lemma unfinished_start:
  "map re_code (fst (drain plain_lib (push ''Code=A'' (new_parser None)))) = []"
  "map re_code (fst (flush plain_lib (snd (drain plain_lib (push ''Code=A'' (new_parser None)))))) = [''A'']"
  by code_simp+

lemma closing_drops_the_open_part: "fst (connect_once plain_lib unfinished (fresh_stats, [])) = []"
proof -
  have "feed plain_lib ''Code=A'' (new_parser None) = drain plain_lib (push ''Code=A'' (new_parser None))"
    by (rule feed_below_limit) (simp add: new_parser_def max_buffer_bytes_def)
  with unfinished_start(1) show ?thesis
    by (simp add: unfinished_def connect_once_def stream_parser_for_def boundary_from_content_type_def Let_def
        case_prod_unfold)
qed

end
