(* ===== verification/Outbox.thy ===== *)
theory Outbox
  imports MediaStore Tables "HOL-Library.List_Lexorder" "HOL-Library.Char_ord"
begin

text \<open>
  The offline outbox of the edge agent, \<^verbatim>\<open>edge-agent/nightshift_edge/queue/sqlite_store.py\<close>:
  the event and media tables of its SQLite file and the operations on them.  Timestamps are stored
  and compared as text, as the code does.  The file enables no foreign keys, so media may name an
  event that is not there.  Rows a statement leaves unordered come in the order of insertion, and the
  media columns no operation writes are left out.
\<close>

section \<open>Timestamps\<close>

text \<open>A \<^verbatim>\<open>datetime\<close> has an offset in minutes, or none when it is naive.\<close>

record stamp =
  st_instant :: instant
  st_offset :: "int option"

definition pad :: "nat \<Rightarrow> int \<Rightarrow> string" where
  "pad n k = replicate (n - length (show_int k)) CHR ''0'' @ show_int k"

definition offset_text :: "int option \<Rightarrow> string" where
  "offset_text z = (case z of None \<Rightarrow> []
     | Some m \<Rightarrow> (if m < 0 then ''-'' else ''+'') @ pad 2 (\<bar>m\<bar> div 60) @ '':'' @ pad 2 (\<bar>m\<bar> mod 60))"

definition isoformat :: "stamp \<Rightarrow> string" where
  "isoformat s =
    (let l = st_instant s + (case st_offset s of None \<Rightarrow> 0 | Some m \<Rightarrow> m * minute);
         r = l mod day; us = r mod second
     in case civil_date (l div day) of (y, m, d) \<Rightarrow>
       pad 4 y @ ''-'' @ pad 2 m @ ''-'' @ pad 2 d @ ''T'' @
       pad 2 (r div hour) @ '':'' @ pad 2 (r mod hour div minute) @ '':'' @ pad 2 (r mod minute div second) @
       (if us = 0 then [] else ''.'' @ pad 6 us) @ offset_text (st_offset s))"

definition utc_text :: "instant \<Rightarrow> string" where
  "utc_text t = isoformat \<lparr>st_instant = t, st_offset = Some 0\<rparr>"

section \<open>Tables\<close>

datatype outbox_state = OB_PENDING | OB_UPLOADING | OB_DONE | OB_FAILED_RETRYABLE | OB_FAILED_PERMANENT

fun outbox_value :: "outbox_state \<Rightarrow> string" where
  "outbox_value OB_PENDING = ''PENDING''"
| "outbox_value OB_UPLOADING = ''UPLOADING''"
| "outbox_value OB_DONE = ''DONE''"
| "outbox_value OB_FAILED_RETRYABLE = ''FAILED_RETRYABLE''"
| "outbox_value OB_FAILED_PERMANENT = ''FAILED_PERMANENT''"

record outbox_event =
  oe_id :: uuid
  oe_edge :: string
  oe_device :: string
  oe_channel :: "int option"
  oe_type :: string
  oe_payload :: string
  oe_occurred :: string
  oe_created :: string
  oe_state :: outbox_state
  oe_attempts :: nat
  oe_next :: "string option"
  oe_error :: "string option"

record outbox_media =
  om_id :: uuid
  om_edge :: string
  om_kind :: string
  om_path :: string
  om_size :: int
  om_priority :: int
  om_created :: string
  om_state :: outbox_state

record outbox =
  ob_events :: "outbox_event list"
  ob_media :: "outbox_media list"

definition empty_outbox :: outbox where
  "empty_outbox = \<lparr>ob_events = [], ob_media = []\<rparr>"

text \<open>Opening an existing file creates no table again and changes no row.\<close>

definition reopen :: "outbox \<Rightarrow> outbox" where
  "reopen ob = ob"

datatype outbox_error = Not_serializable | Integrity_error

section \<open>Events\<close>

record event_request =
  rq_device :: string
  rq_type :: string
  rq_payload :: pyval
  rq_occurred :: stamp
  rq_channel :: "int option"
  rq_edge :: "string option"

text \<open>
  \<open>dumps\<close> is \<^verbatim>\<open>json.dumps\<close>, which has no text for some values; \<open>edge\<close> and \<open>row\<close> are the
  identifiers drawn.
\<close>

definition edge_id :: "uuid \<Rightarrow> string option \<Rightarrow> string" where
  "edge_id edge given = (case given of None \<Rightarrow> uuid_text edge | Some s \<Rightarrow> if s = [] then uuid_text edge else s)"

definition enqueue_event :: "(pyval \<Rightarrow> string option) \<Rightarrow> instant \<Rightarrow> uuid \<Rightarrow> uuid \<Rightarrow> event_request \<Rightarrow> outbox
    \<Rightarrow> outbox_error + string \<times> outbox" where
  "enqueue_event dumps now edge row q ob =
    (let k = edge_id edge (rq_edge q)
     in case dumps (rq_payload q) of None \<Rightarrow> Inl Not_serializable
      | Some body \<Rightarrow>
          if k \<in> oe_edge ` set (ob_events ob) then Inr (k, ob)
          else if row \<in> oe_id ` set (ob_events ob) then Inl Integrity_error
          else Inr (k, ob\<lparr>ob_events := ob_events ob @ [\<lparr>oe_id = row, oe_edge = k, oe_device = rq_device q,
            oe_channel = rq_channel q, oe_type = rq_type q, oe_payload = body, oe_occurred = isoformat (rq_occurred q),
            oe_created = utc_text now, oe_state = OB_PENDING, oe_attempts = 0, oe_next = None, oe_error = None\<rparr>]\<rparr>))"

definition claimable :: "outbox_state \<Rightarrow> bool" where
  "claimable s \<longleftrightarrow> s = OB_PENDING \<or> s = OB_FAILED_RETRYABLE"

definition due_event :: "instant \<Rightarrow> outbox_event \<Rightarrow> bool" where
  "due_event now e \<longleftrightarrow> claimable (oe_state e) \<and> (case oe_next e of None \<Rightarrow> True | Some t \<Rightarrow> t \<le> utc_text now)"

text \<open>A negative limit is no limit.\<close>

definition limited :: "int \<Rightarrow> 'r list \<Rightarrow> 'r list" where
  "limited n rows = (if n < 0 then rows else take (nat n) rows)"

definition claim_events :: "instant \<Rightarrow> int \<Rightarrow> outbox \<Rightarrow> outbox_event list \<times> outbox" where
  "claim_events now limit ob =
    (let rows = limited limit (sort_key oe_occurred (filter (due_event now) (ob_events ob)))
     in (rows, ob\<lparr>ob_events := map (\<lambda>e. if oe_id e \<in> oe_id ` set rows then e\<lparr>oe_state := OB_UPLOADING\<rparr> else e)
          (ob_events ob)\<rparr>))"

definition mark_event :: "string \<Rightarrow> outbox_state \<Rightarrow> string option \<Rightarrow> stamp option \<Rightarrow> outbox \<Rightarrow> outbox" where
  "mark_event k s err next_at ob = ob\<lparr>ob_events := map (\<lambda>e. if oe_edge e = k
     then e\<lparr>oe_state := s, oe_error := err, oe_attempts := oe_attempts e + 1, oe_next := map_option isoformat next_at\<rparr>
     else e) (ob_events ob)\<rparr>"

section \<open>Media\<close>

record media_request =
  mq_edge :: string
  mq_kind :: string
  mq_path :: string
  mq_size :: int
  mq_priority :: int

definition enqueue_media :: "instant \<Rightarrow> uuid \<Rightarrow> media_request \<Rightarrow> outbox \<Rightarrow> outbox_error + string \<times> outbox" where
  "enqueue_media now new q ob =
    (if new \<in> om_id ` set (ob_media ob) then Inl Integrity_error
     else Inr (uuid_text new, ob\<lparr>ob_media := ob_media ob @ [\<lparr>om_id = new, om_edge = mq_edge q, om_kind = mq_kind q,
       om_path = mq_path q, om_size = mq_size q, om_priority = mq_priority q, om_created = utc_text now,
       om_state = OB_PENDING\<rparr>]\<rparr>))"

definition spooled :: "outbox \<Rightarrow> outbox_media list" where
  "spooled ob = filter (\<lambda>m. om_state m \<noteq> OB_DONE) (ob_media ob)"

definition spool_bytes :: "outbox \<Rightarrow> int" where
  "spool_bytes ob = sum_list (map om_size (spooled ob))"

text \<open>\<^verbatim>\<open>ORDER BY priority DESC, created_at ASC\<close>.\<close>

definition eviction_order :: "outbox_media list \<Rightarrow> outbox_media list" where
  "eviction_order rows = sort_key (\<lambda>m. - om_priority m) (sort_key om_created rows)"

fun evict_loop :: "int \<Rightarrow> int \<Rightarrow> outbox_media list \<Rightarrow> outbox_media list \<Rightarrow> string list \<times> outbox_media list" where
  "evict_loop target held [] rows = ([], rows)"
| "evict_loop target held (m # ms) rows =
    (if held \<le> target then ([], rows)
     else case evict_loop target (held - om_size m) ms (filter (\<lambda>r. om_id r \<noteq> om_id m) rows) of
            (freed, left) \<Rightarrow> (om_path m # freed, left))"

definition evict_media :: "int \<Rightarrow> outbox \<Rightarrow> string list \<times> outbox" where
  "evict_media target ob =
    (if spool_bytes ob \<le> target then ([], ob)
     else case evict_loop target (spool_bytes ob) (eviction_order (spooled ob)) (ob_media ob) of
            (freed, rows) \<Rightarrow> (freed, ob\<lparr>ob_media := rows\<rparr>))"

definition counts :: "outbox \<Rightarrow> (string \<times> nat) list" where
  "counts ob = count_by (\<lambda>e. outbox_value (oe_state e)) (ob_events ob)"

lemma counts_total: "sum_list (map snd (counts ob)) = length (ob_events ob)"
  by (simp add: counts_def count_by_total)

section \<open>Every operation\<close>

datatype outbox_op = Enqueue instant uuid uuid event_request | Claim instant int
  | Mark string outbox_state "string option" "stamp option" | Enqueue_media instant uuid media_request
  | Evict int | Reopen

definition outbox_step :: "(pyval \<Rightarrow> string option) \<Rightarrow> outbox_op \<Rightarrow> outbox \<Rightarrow> outbox" where
  "outbox_step dumps op ob = (case op of
     Enqueue now edge row q \<Rightarrow> (case enqueue_event dumps now edge row q ob of Inl _ \<Rightarrow> ob | Inr (_, ob') \<Rightarrow> ob')
   | Claim now limit \<Rightarrow> snd (claim_events now limit ob)
   | Mark k s err nxt \<Rightarrow> mark_event k s err nxt ob
   | Enqueue_media now new q \<Rightarrow> (case enqueue_media now new q ob of Inl _ \<Rightarrow> ob | Inr (_, ob') \<Rightarrow> ob')
   | Evict target \<Rightarrow> snd (evict_media target ob)
   | Reopen \<Rightarrow> reopen ob)"

definition outbox_wf :: "outbox \<Rightarrow> bool" where
  "outbox_wf ob \<longleftrightarrow> distinct (map oe_id (ob_events ob)) \<and> distinct (map oe_edge (ob_events ob)) \<and>
     distinct (map om_id (ob_media ob))"

text \<open>What no later operation changes of an event.\<close>

definition content :: "outbox_event \<Rightarrow> uuid \<times> string \<times> string \<times> int option \<times> string \<times> string \<times> string \<times> string" where
  "content e = (oe_id e, oe_edge e, oe_device e, oe_channel e, oe_type e, oe_payload e, oe_occurred e, oe_created e)"

section \<open>No event is lost\<close>

lemma content_fields: "map oe_id es = map fst (map content es)" "map oe_edge es = map (fst \<circ> snd) (map content es)"
  by (simp_all add: content_def comp_def)

lemma claim_content: "map content (ob_events (snd (claim_events now limit ob))) = map content (ob_events ob)"
  by (simp add: claim_events_def Let_def content_def comp_def)

lemma mark_content: "map content (ob_events (mark_event k s err nxt ob)) = map content (ob_events ob)"
  by (simp add: mark_event_def content_def comp_def)

lemma evict_events: "ob_events (snd (evict_media target ob)) = ob_events ob"
  by (simp add: evict_media_def split: prod.split)

lemma enqueue_cases:
  assumes "enqueue_event dumps now edge row q ob = Inr (k, ob')"
  obtains "k \<in> oe_edge ` set (ob_events ob)" "ob' = ob"
    | e where "k \<notin> oe_edge ` set (ob_events ob)" "oe_id e \<notin> oe_id ` set (ob_events ob)" "oe_edge e = k"
        "Some (oe_payload e) = dumps (rq_payload q)" "oe_state e = OB_PENDING" "ob' = ob\<lparr>ob_events := ob_events ob @ [e]\<rparr>"
proof -
  from assms obtain body where body: "dumps (rq_payload q) = Some body" and k: "k = edge_id edge (rq_edge q)"
    by (auto simp: enqueue_event_def Let_def split: option.splits if_splits)
  show thesis
  proof (cases "k \<in> oe_edge ` set (ob_events ob)")
    case True
    with assms body k show thesis by (intro that(1)) (simp_all add: enqueue_event_def)
  next
    case False
    with assms body k show thesis by (intro that(2) [OF False, of "last (ob_events ob')"])
      (auto simp: enqueue_event_def Let_def simp del: split_paired_Ex split: if_splits)
  qed
qed

lemma enqueue_keeps:
  "enqueue_event dumps now edge row q ob = Inr (k, ob') \<Longrightarrow>
    \<exists>xs. ob_events ob' = ob_events ob @ xs \<and> ob_media ob' = ob_media ob"
  by (erule enqueue_cases) auto

lemma enqueue_media_keeps: "enqueue_media now new q ob = Inr (x, ob') \<Longrightarrow> ob_events ob' = ob_events ob"
  by (auto simp: enqueue_media_def split: if_splits)

lemma step_grows: "\<exists>xs. map content (ob_events (outbox_step dumps op ob)) = map content (ob_events ob) @ xs"
  by (cases op) (auto simp: outbox_step_def claim_content mark_content evict_events reopen_def
      dest: enqueue_keeps enqueue_media_keeps split: sum.splits)

lemma steps_grow: "\<exists>xs. map content (ob_events (fold (outbox_step dumps) ops ob)) = map content (ob_events ob) @ xs"
proof (induction ops arbitrary: ob)
  case (Cons op ops)
  from Cons.IH [of "outbox_step dumps op ob"] step_grows [of dumps op ob] show ?case by auto
qed simp

lemma evict_loop_subset: "set (snd (evict_loop target held ms rows)) \<subseteq> set rows \<and>
    (distinct (map om_id rows) \<longrightarrow> distinct (map om_id (snd (evict_loop target held ms rows))))"
proof (induction target held ms rows rule: evict_loop.induct)
  case (2 target held m ms rows)
  then show ?case by (auto simp: distinct_map_filter split: prod.split)
qed simp

lemma evict_wf: "outbox_wf ob \<Longrightarrow> outbox_wf (snd (evict_media target ob))"
  using evict_loop_subset [of target "spool_bytes ob" "eviction_order (spooled ob)" "ob_media ob"]
  by (auto simp: outbox_wf_def evict_media_def split: prod.split)

lemma enqueue_wf: "enqueue_event dumps now edge row q ob = Inr (k, ob') \<Longrightarrow> outbox_wf ob \<Longrightarrow> outbox_wf ob'"
  by (erule enqueue_cases) (auto simp: outbox_wf_def)

lemma content_wf:
  "map content (ob_events ob') = map content (ob_events ob) \<Longrightarrow> ob_media ob' = ob_media ob \<Longrightarrow> outbox_wf ob' = outbox_wf ob"
  by (simp only: outbox_wf_def content_fields)

lemma step_wf: "outbox_wf ob \<Longrightarrow> outbox_wf (outbox_step dumps op ob)"
proof (cases op)
  case (Claim now limit)
  assume "outbox_wf ob"
  then show ?thesis unfolding Claim outbox_step_def outbox_op.case
    by (subst content_wf [OF claim_content]) (simp_all add: claim_events_def Let_def)
next
  case (Mark k s err nxt)
  assume "outbox_wf ob"
  then show ?thesis unfolding Mark outbox_step_def outbox_op.case
    by (subst content_wf [OF mark_content]) (simp_all add: mark_event_def)
next
  case (Evict target)
  then show "outbox_wf ob \<Longrightarrow> ?thesis" by (simp add: outbox_step_def evict_wf)
qed (auto simp: outbox_step_def reopen_def enqueue_wf enqueue_media_def outbox_wf_def
    split: sum.splits if_splits dest: enqueue_wf [unfolded outbox_wf_def])

lemma steps_wf: "outbox_wf ob \<Longrightarrow> outbox_wf (fold (outbox_step dumps) ops ob)"
  by (induction ops arbitrary: ob) (simp_all add: step_wf)

lemma stays_enqueued: "e \<in> set (ob_events ob) \<Longrightarrow> \<exists>e' \<in> set (ob_events (fold (outbox_step dumps) ops ob)). content e' = content e"
proof -
  assume e: "e \<in> set (ob_events ob)"
  obtain xs where "map content (ob_events (fold (outbox_step dumps) ops ob)) = map content (ob_events ob) @ xs"
    using steps_grow by blast
  then have "content e \<in> set (map content (ob_events (fold (outbox_step dumps) ops ob)))"
    using e by (simp only: set_append set_map) blast
  then show ?thesis by auto
qed

lemma edge_id_given: "enqueue_event dumps now edge row q ob = Inr (k, ob') \<Longrightarrow> k \<noteq> []"
  by (auto simp: enqueue_event_def Let_def edge_id_def uuid_text_def split: option.splits if_splits)

lemma outbox_keeps_every_event_facts:
  assumes "enqueue_event dumps now edge row q ob = Inr (k, ob')" and "outbox_wf ob"
  shows "\<exists>!e. e \<in> set (ob_events (fold (outbox_step dumps) ops ob')) \<and> oe_edge e = k"
    and "e \<in> set (ob_events ob') \<Longrightarrow> \<exists>e' \<in> set (ob_events (fold (outbox_step dumps) ops ob')). content e' = content e"
    and "rq_edge q' = Some k \<Longrightarrow> dumps (rq_payload q') \<noteq> None \<Longrightarrow>
      enqueue_event dumps now' edge' row' q' (fold (outbox_step dumps) ops ob') = Inr (k, fold (outbox_step dumps) ops ob')"
proof -
  let ?fin = "fold (outbox_step dumps) ops ob'"
  have "k \<in> oe_edge ` set (ob_events ob')" by (rule enqueue_cases [OF assms(1)]) auto
  then obtain e where e: "e \<in> set (ob_events ob')" "oe_edge e = k" by blast
  from stays_enqueued [OF e(1)] obtain e' where e': "e' \<in> set (ob_events ?fin)" "content e' = content e" by blast
  then have k: "oe_edge e' = k" using e(2) by (simp add: content_def)
  have "distinct (map oe_edge (ob_events ?fin))"
    using steps_wf [OF enqueue_wf [OF assms]] by (simp add: outbox_wf_def)
  then have "inj_on oe_edge (set (ob_events ?fin))" by (simp add: distinct_map)
  with e'(1) k show "\<exists>!e. e \<in> set (ob_events ?fin) \<and> oe_edge e = k" by (auto dest: inj_onD)
  show "\<exists>e' \<in> set (ob_events ?fin). content e' = content e" if "e \<in> set (ob_events ob')" for e
    using that by (rule stays_enqueued)
  show "enqueue_event dumps now' edge' row' q' ?fin = Inr (k, ?fin)" if "rq_edge q' = Some k" "dumps (rq_payload q') \<noteq> None"
    using that e'(1) k edge_id_given [OF assms(1)] by (auto simp: enqueue_event_def edge_id_def)
qed

text \<open>
  C19. An accepted event is in the outbox exactly once and stays there, with what was stored of it,
  through every later sequence of operations, evictions and restarts included; handing it in again
  under its identifier answers with the identifier and changes nothing.
\<close>

theorem outbox_keeps_every_event:
  assumes "enqueue_event dumps now edge row q ob = Inr (k, ob')" and "outbox_wf ob"
  shows "(\<exists>!e. e \<in> set (ob_events (fold (outbox_step dumps) ops ob')) \<and> oe_edge e = k) \<and>
    ((e \<in> set (ob_events ob')) \<longrightarrow>
      (\<exists>e' \<in> set (ob_events (fold (outbox_step dumps) ops ob')). content e' = content e)) \<and>
    ((rq_edge q' = Some k) \<longrightarrow> (dumps (rq_payload q') \<noteq> None) \<longrightarrow>
      enqueue_event dumps now' edge' row' q' (fold (outbox_step dumps) ops ob') = Inr (k, fold (outbox_step dumps) ops ob'))"
  by (intro conjI impI; ((rule outbox_keeps_every_event_facts [OF assms]; assumption)+ | use outbox_keeps_every_event_facts [OF assms] in blast))

section \<open>Claims\<close>

lemma set_limited: "set (limited n rows) \<subseteq> set rows"
  by (auto simp: limited_def dest: in_set_takeD)

lemma claim_rows: "fst (claim_events now limit ob) = limited limit (sort_key oe_occurred (filter (due_event now) (ob_events ob)))"
  by (simp add: claim_events_def Let_def)

lemma claimed_due: "r \<in> set (fst (claim_events now limit ob)) \<Longrightarrow> r \<in> set (ob_events ob) \<and> due_event now r"
  using set_limited [of limit "sort_key oe_occurred (filter (due_event now) (ob_events ob))"] by (auto simp: claim_rows)

text \<open>An event somebody holds.\<close>

definition taken :: "uuid \<Rightarrow> string \<Rightarrow> outbox \<Rightarrow> bool" where
  "taken i k ob \<longleftrightarrow> (\<exists>e \<in> set (ob_events ob). oe_id e = i \<and> oe_edge e = k \<and> \<not> claimable (oe_state e))"

lemma held_mapped: "ob_events ob' = map f (ob_events ob) \<Longrightarrow> e \<in> set (ob_events ob) \<Longrightarrow>
    oe_id (f e) = i \<Longrightarrow> oe_edge (f e) = k \<Longrightarrow> \<not> claimable (oe_state (f e)) \<Longrightarrow> taken i k ob'"
  by (auto simp: taken_def)

lemma held_step:
  assumes "taken i k ob" and "\<And>s err nxt. op = Mark k s err nxt \<Longrightarrow> \<not> claimable s"
  shows "taken i k (outbox_step dumps op ob)"
proof -
  obtain e where e: "e \<in> set (ob_events ob)" "oe_id e = i" "oe_edge e = k" "\<not> claimable (oe_state e)"
    using assms(1) by (auto simp: taken_def)
  show ?thesis
  proof (cases op)
    case (Claim now limit)
    let ?f = "\<lambda>e. if oe_id e \<in> oe_id ` set (fst (claim_events now limit ob)) then e\<lparr>oe_state := OB_UPLOADING\<rparr> else e"
    have "ob_events (outbox_step dumps op ob) = map ?f (ob_events ob)"
      by (simp add: Claim outbox_step_def claim_events_def Let_def)
    then show ?thesis by (rule held_mapped [OF _ e(1)]) (use e in \<open>simp_all add: claimable_def\<close>)
  next
    case (Mark k' s err nxt)
    let ?f = "\<lambda>e. if oe_edge e = k' then e\<lparr>oe_state := s, oe_error := err, oe_attempts := oe_attempts e + 1,
      oe_next := map_option isoformat nxt\<rparr> else e"
    have "ob_events (outbox_step dumps op ob) = map ?f (ob_events ob)"
      by (simp add: Mark outbox_step_def mark_event_def)
    then show ?thesis
      by (rule held_mapped [OF _ e(1)]) (use e assms(2) [of s err nxt] in \<open>simp_all add: Mark\<close>)
  next
    case (Enqueue now edge row q)
    have "set (ob_events ob) \<subseteq> set (ob_events (outbox_step dumps op ob))"
      by (auto simp: Enqueue outbox_step_def split: sum.splits dest: enqueue_keeps)
    with e show ?thesis by (auto simp: taken_def)
  next
    case (Enqueue_media now new q)
    have "ob_events (outbox_step dumps op ob) = ob_events ob"
      by (auto simp: Enqueue_media outbox_step_def split: sum.splits dest: enqueue_media_keeps)
    with e show ?thesis by (auto simp: taken_def)
  next
    case (Evict target)
    with e show ?thesis by (auto simp: taken_def outbox_step_def evict_events)
  next
    case Reopen
    with assms(1) show ?thesis by (simp add: outbox_step_def reopen_def)
  qed
qed

lemma held_steps:
  "taken i k ob \<Longrightarrow> \<forall>op \<in> set ops. \<forall>s err nxt. op = Mark k s err nxt \<longrightarrow> \<not> claimable s \<Longrightarrow>
    taken i k (fold (outbox_step dumps) ops ob)"
proof (induction ops arbitrary: ob)
  case (Cons op ops)
  have "taken i k (outbox_step dumps op ob)" by (rule held_step) (use Cons.prems in auto)
  with Cons.IH Cons.prems(2) show ?case by simp
qed simp

lemma held_not_claimed:
  assumes "taken i k ob" and "outbox_wf ob"
  shows "i \<notin> oe_id ` set (fst (claim_events now limit ob))"
proof
  assume "i \<in> oe_id ` set (fst (claim_events now limit ob))"
  then obtain r where r: "oe_id r = i" "r \<in> set (ob_events ob)" "due_event now r" using claimed_due by blast
  obtain e where e: "e \<in> set (ob_events ob)" "oe_id e = i" "\<not> claimable (oe_state e)"
    using assms(1) by (auto simp: taken_def)
  have "inj_on oe_id (set (ob_events ob))" using assms(2) by (simp add: outbox_wf_def distinct_map)
  then have "r = e" using r e by (auto dest: inj_onD)
  with r(3) e(3) show False by (simp add: due_event_def)
qed

lemma claim_holds: "r \<in> set (fst (claim_events now limit ob)) \<Longrightarrow> taken (oe_id r) (oe_edge r) (snd (claim_events now limit ob))"
proof -
  assume r: "r \<in> set (fst (claim_events now limit ob))"
  let ?f = "\<lambda>e. if oe_id e \<in> oe_id ` set (fst (claim_events now limit ob)) then e\<lparr>oe_state := OB_UPLOADING\<rparr> else e"
  have "ob_events (snd (claim_events now limit ob)) = map ?f (ob_events ob)" by (simp add: claim_events_def Let_def)
  then show ?thesis
    by (rule held_mapped [of _ ?f ob r]) (use r claimed_due [OF r] in \<open>simp_all add: claimable_def\<close>)
qed

text \<open>What a cut of a sorted list holds, and that what it leaves out is not smaller.\<close>

lemma length_limited: "length (limited n xs) = (if n < 0 then length xs else min (nat n) (length xs))"
  by (simp add: limited_def min.commute)

lemma sorted_limited: "sorted (map f xs) \<Longrightarrow> sorted (map f (limited n xs))"
  by (simp add: limited_def sorted_wrt_take take_map [symmetric])

lemma distinct_limited: "distinct (map f xs) \<Longrightarrow> distinct (map f (limited n xs))"
  by (simp add: limited_def take_map [symmetric])

lemma limited_sorted:
  assumes "sorted (map f xs)" and "x \<in> set (limited n xs)" and "y \<in> set xs" and "y \<notin> set (limited n xs)"
  shows "f x \<le> f y"
proof -
  have n: "0 \<le> n" and y: "y \<in> set (drop (nat n) xs)"
    using assms(3,4) by (auto simp: limited_def split: if_splits) (metis Un_iff append_take_drop_id set_append)
  have "sorted (map f (take (nat n) xs @ drop (nat n) xs))" using assms(1) by simp
  then show ?thesis using assms(2) n y unfolding map_append sorted_append by (auto simp: limited_def)
qed

lemma claim_ids:
  assumes "outbox_wf ob"
  shows "distinct (map oe_id (fst (claim_events now limit ob)))"
proof -
  have "distinct (map oe_id (ob_events ob))" using assms by (simp add: outbox_wf_def)
  then have "distinct (map oe_id (sort_key oe_occurred (filter (due_event now) (ob_events ob))))"
    by (simp add: distinct_map inj_on_def)
  then show ?thesis unfolding claim_rows by (rule distinct_limited)
qed

lemma claim_leaves:
  assumes "outbox_wf ob" and "e \<in> set (ob_events ob)" and "e \<notin> set (fst (claim_events now limit ob))"
  shows "e \<in> set (ob_events (snd (claim_events now limit ob)))"
proof -
  have "inj_on oe_id (set (ob_events ob))" using assms(1) by (simp add: outbox_wf_def distinct_map)
  then have "oe_id e \<notin> oe_id ` set (fst (claim_events now limit ob))"
    using assms(2,3) claimed_due by (metis image_iff inj_onD)
  with assms(2) show ?thesis by (force simp: claim_events_def Let_def image_iff)
qed

lemma claims_are_exclusive_facts:
  assumes "claim_events now limit ob = (rows, ob')" and "outbox_wf ob"
  shows "length rows = (if limit < 0 then length (filter (due_event now) (ob_events ob))
      else min (nat limit) (length (filter (due_event now) (ob_events ob))))"
    and "set rows \<subseteq> set (filter (due_event now) (ob_events ob))"
    and "distinct (map oe_id rows)" and "sorted (map oe_occurred rows)"
    and "r \<in> set rows \<Longrightarrow> e \<in> set (filter (due_event now) (ob_events ob)) - set rows \<Longrightarrow> oe_occurred r \<le> oe_occurred e"
    and "set (ob_events ob) - set rows \<subseteq> set (ob_events ob')"
    and "r \<in> set rows \<Longrightarrow> \<forall>op \<in> set ops. \<forall>s err nxt. op = Mark (oe_edge r) s err nxt \<longrightarrow> \<not> claimable s \<Longrightarrow>
      oe_id r \<notin> oe_id ` set (fst (claim_events now' limit' (fold (outbox_step dumps) ops ob')))"
proof -
  have rows: "rows = fst (claim_events now limit ob)" and ob': "ob' = snd (claim_events now limit ob)"
    using assms(1) by simp_all
  let ?due = "sort_key oe_occurred (filter (due_event now) (ob_events ob))"
  show "length rows = (if limit < 0 then length (filter (due_event now) (ob_events ob))
      else min (nat limit) (length (filter (due_event now) (ob_events ob))))"
    by (simp add: rows claim_rows length_limited)
  show "set rows \<subseteq> set (filter (due_event now) (ob_events ob))" using claimed_due by (auto simp: rows)
  show "distinct (map oe_id rows)" unfolding rows by (rule claim_ids [OF assms(2)])
  show "sorted (map oe_occurred rows)" unfolding rows claim_rows by (rule sorted_limited) simp
  show "oe_occurred r \<le> oe_occurred e" if "r \<in> set rows" "e \<in> set (filter (due_event now) (ob_events ob)) - set rows"
    using limited_sorted [of oe_occurred ?due r limit e] that by (simp add: rows claim_rows)
  show "set (ob_events ob) - set rows \<subseteq> set (ob_events ob')"
    using claim_leaves [OF assms(2)] by (auto simp: rows ob')
  show "oe_id r \<notin> oe_id ` set (fst (claim_events now' limit' (fold (outbox_step dumps) ops ob')))"
    if "r \<in> set rows" "\<forall>op \<in> set ops. \<forall>s err nxt. op = Mark (oe_edge r) s err nxt \<longrightarrow> \<not> claimable s"
  proof (rule held_not_claimed)
    show "taken (oe_id r) (oe_edge r) (fold (outbox_step dumps) ops ob')"
      using held_steps [OF claim_holds that(2)] that(1) unfolding rows ob' by blast
    have "outbox_wf ob'" using step_wf [OF assms(2), of dumps "Claim now limit"] by (simp add: outbox_step_def ob')
    then show "outbox_wf (fold (outbox_step dumps) ops ob')" by (rule steps_wf)
  qed
qed

text \<open>
  C20. A claim hands out the due events that are earliest by their stored time, in that order and each
  once: as many as are due, but no more than the limit, where a negative limit is no limit; no due
  event it leaves behind has an earlier stored time than one it hands out.  Every other event stays as
  it is.  None of the events handed out is handed out again, whatever operations follow, until it is
  marked as pending or as failed and retryable.  Nothing but such a mark returns it, so one whose
  worker dies stays claimed for good.
\<close>

theorem claims_are_exclusive:
  assumes "claim_events now limit ob = (rows, ob')" and "outbox_wf ob"
  shows "length rows = (if limit < 0 then length (filter (due_event now) (ob_events ob))
      else min (nat limit) (length (filter (due_event now) (ob_events ob)))) \<and>
    set rows \<subseteq> set (filter (due_event now) (ob_events ob)) \<and>
    distinct (map oe_id rows) \<and> sorted (map oe_occurred rows) \<and>
    (\<forall>r \<in> set rows. \<forall>e \<in> set (filter (due_event now) (ob_events ob)) - set rows. oe_occurred r \<le> oe_occurred e) \<and>
    set (ob_events ob) - set rows \<subseteq> set (ob_events ob') \<and>
    (\<forall>r \<in> set rows. (\<forall>op \<in> set ops. \<forall>s err nxt. op = Mark (oe_edge r) s err nxt \<longrightarrow> \<not> claimable s) \<longrightarrow>
      oe_id r \<notin> oe_id ` set (fst (claim_events now' limit' (fold (outbox_step dumps) ops ob'))))"
  by (intro conjI ballI impI; (rule claims_are_exclusive_facts [OF assms]; assumption)?)

section \<open>Eviction\<close>

text \<open>The loop takes the shortest run of the ordered media that brings the spool under its quota.\<close>

lemma evict_loop_takes:
  "\<exists>n \<le> length ms. evict_loop target held ms rows =
      (map om_path (take n ms), filter (\<lambda>r. om_id r \<notin> om_id ` set (take n ms)) rows) \<and>
    (\<forall>j < n. target < held - sum_list (map om_size (take j ms))) \<and>
    (n = length ms \<or> held - sum_list (map om_size (take n ms)) \<le> target)"
proof (induction target held ms rows rule: evict_loop.induct)
  case (1 target held rows)
  then show ?case by simp
next
  case (2 target held m ms rows)
  show ?case
  proof (cases "held \<le> target")
    case True
    then show ?thesis by (intro exI [of _ 0]) simp
  next
    case False
    from 2 [OF False] obtain n where n: "n \<le> length ms"
      "evict_loop target (held - om_size m) ms (filter (\<lambda>r. om_id r \<noteq> om_id m) rows) =
        (map om_path (take n ms), filter (\<lambda>r. om_id r \<notin> om_id ` set (take n ms)) (filter (\<lambda>r. om_id r \<noteq> om_id m) rows))"
      "\<forall>j < n. target < held - om_size m - sum_list (map om_size (take j ms))"
      "n = length ms \<or> held - om_size m - sum_list (map om_size (take n ms)) \<le> target"
      by blast
    have "evict_loop target held (m # ms) rows = (map om_path (take (Suc n) (m # ms)),
        filter (\<lambda>r. om_id r \<notin> om_id ` set (take (Suc n) (m # ms))) rows)"
      using False n(2) by (simp add: conj_commute)
    moreover have "\<forall>j < Suc n. target < held - sum_list (map om_size (take j (m # ms)))"
    proof (intro allI impI)
      fix j
      assume "j < Suc n"
      then show "target < held - sum_list (map om_size (take j (m # ms)))"
        using False n(3) by (cases j) (auto simp: algebra_simps)
    qed
    ultimately show ?thesis using n(1,4) by (intro exI [of _ "Suc n"]) (simp add: algebra_simps)
  qed
qed

lemma mset_eviction: "mset (eviction_order rows) = mset rows"
  by (simp add: eviction_order_def)

lemma drop_by_ids: "distinct (map om_id ms) \<Longrightarrow> filter (\<lambda>r. om_id r \<notin> om_id ` set (take n ms)) ms = drop n ms"
proof -
  assume d: "distinct (map om_id ms)"
  then have "om_id ` set (take n ms) \<inter> om_id ` set (drop n ms) = {}"
    by (metis append_take_drop_id distinct_append map_append set_map)
  then have "filter (\<lambda>r. om_id r \<notin> om_id ` set (take n ms)) (take n ms) = []"
    "filter (\<lambda>r. om_id r \<notin> om_id ` set (take n ms)) (drop n ms) = drop n ms"
    by (auto simp: filter_empty_conv filter_id_conv)
  then show ?thesis by (metis append_Nil append_take_drop_id filter_append)
qed

lemma sum_over_mset: "mset xs = mset ys \<Longrightarrow> sum_list (map f xs) = sum_list (map f ys)" for f :: "'r \<Rightarrow> int"
  by (metis mset_map sum_mset_sum_list)

lemma sorted_twice:
  "sorted (map f ys) \<Longrightarrow> (\<And>p. sorted (map g (filter (\<lambda>m. f m = p) ys))) \<Longrightarrow>
    sorted_wrt (\<lambda>a b. f a < f b \<or> f a = f b \<and> g a \<le> g b) ys"
proof (induction ys)
  case (Cons y ys)
  have "sorted (map g (filter (\<lambda>m. f m = p) ys))" for p
    using Cons.prems(2) [of p] by (simp split: if_splits)
  then have "sorted_wrt (\<lambda>a b. f a < f b \<or> f a = f b \<and> g a \<le> g b) ys" using Cons by simp
  moreover have "f y < f z \<or> f y = f z \<and> g y \<le> g z" if "z \<in> set ys" for z
    using Cons.prems(1) Cons.prems(2) [of "f y"] that by (cases "f z = f y") force+
  ultimately show ?case by simp
qed simp

definition evicted_before :: "outbox_media \<Rightarrow> outbox_media \<Rightarrow> bool" where
  "evicted_before a b \<longleftrightarrow> om_priority b < om_priority a \<or> om_priority a = om_priority b \<and> om_created a \<le> om_created b"

lemma eviction_sorted: "sorted_wrt evicted_before (eviction_order rows)"
proof -
  let ?xs = "sort_key om_created rows"
  have "sorted_wrt (\<lambda>a b. - om_priority a < - om_priority b \<or> - om_priority a = - om_priority b \<and> om_created a \<le> om_created b)
      (eviction_order rows)"
  proof (rule sorted_twice)
    show "sorted (map (\<lambda>m. - om_priority m) (eviction_order rows))" by (simp add: eviction_order_def)
    show "sorted (map om_created (filter (\<lambda>m. - om_priority m = p) (eviction_order rows)))" for p
      by (simp only: eviction_order_def sort_key_stable) (simp add: sorted_filter)
  qed
  then show ?thesis by (rule sorted_wrt_mono_rel [rotated]) (auto simp: evicted_before_def)
qed

lemma evict_result:
  assumes "evict_media target ob = (freed, ob')" and "outbox_wf ob"
  obtains n where "n \<le> length (spooled ob)" "freed = map om_path (take n (eviction_order (spooled ob)))"
    "ob' = ob\<lparr>ob_media := filter (\<lambda>r. om_id r \<notin> om_id ` set (take n (eviction_order (spooled ob)))) (ob_media ob)\<rparr>"
    "spool_bytes ob' = spool_bytes ob - sum_list (map om_size (take n (eviction_order (spooled ob))))"
    "\<forall>j < n. target < spool_bytes ob - sum_list (map om_size (take j (eviction_order (spooled ob))))"
    "n = length (spooled ob) \<or> spool_bytes ob' \<le> target"
proof -
  let ?ms = "eviction_order (spooled ob)" and ?held = "spool_bytes ob"
  have len: "length ?ms = length (spooled ob)" by (simp add: eviction_order_def)
  obtain n where n: "n \<le> length ?ms" "evict_loop target ?held ?ms (ob_media ob) =
      (map om_path (take n ?ms), filter (\<lambda>r. om_id r \<notin> om_id ` set (take n ?ms)) (ob_media ob))"
    "\<forall>j < n. target < ?held - sum_list (map om_size (take j ?ms))"
    "n = length ?ms \<or> ?held - sum_list (map om_size (take n ?ms)) \<le> target"
    using evict_loop_takes by blast
  have distinct: "distinct (map om_id ?ms)"
  proof -
    have "distinct (map om_id (spooled ob))" using assms(2) by (simp add: spooled_def outbox_wf_def distinct_map_filter)
    then show ?thesis by (metis mset_eviction mset_map mset_eq_imp_distinct_iff)
  qed
  let ?left = "filter (\<lambda>r. om_id r \<notin> om_id ` set (take n ?ms))"
  have ob': "freed = map om_path (take n ?ms)" "ob' = ob\<lparr>ob_media := ?left (ob_media ob)\<rparr>"
  proof -
    consider "?held \<le> target" | "target < ?held" by linarith
    then have "freed = map om_path (take n ?ms) \<and> ob' = ob\<lparr>ob_media := ?left (ob_media ob)\<rparr>"
    proof cases
      case 1
      with n(3) have "n = 0" by (cases n) auto
      with 1 assms(1) show ?thesis by (simp add: evict_media_def)
    qed (use assms(1) n(2) in \<open>simp add: evict_media_def\<close>)
    then show "freed = map om_path (take n ?ms)" "ob' = ob\<lparr>ob_media := ?left (ob_media ob)\<rparr>" by blast+
  qed
  have "mset (spooled ob') = mset (?left (spooled ob))"
    by (simp add: ob' spooled_def filter_filter conj_commute)
  also have "\<dots> = mset (?left ?ms)" by (simp add: mset_eviction)
  also have "\<dots> = mset (drop n ?ms)" by (simp only: drop_by_ids [OF distinct])
  finally have "spool_bytes ob' = sum_list (map om_size (drop n ?ms))"
    unfolding spool_bytes_def by (rule sum_over_mset)
  moreover have "?held = sum_list (map om_size (take n ?ms @ drop n ?ms))"
    unfolding spool_bytes_def append_take_drop_id by (rule sum_over_mset) (simp add: mset_eviction)
  ultimately have "spool_bytes ob' = ?held - sum_list (map om_size (take n ?ms))"
    unfolding map_append sum_list_append by linarith
  with that [of n] n ob' len show thesis by simp
qed

lemma evict_parts:
  assumes "evict_media target ob = (freed, ob')" and "outbox_wf ob"
  obtains out kept where "eviction_order (spooled ob) = out @ kept" "freed = map om_path out" "ob_events ob' = ob_events ob"
    "set (ob_media ob') \<subseteq> set (ob_media ob)" "set out \<subseteq> set (spooled ob)" "set out \<inter> set (ob_media ob') = {}"
    "set (ob_media ob) - set (ob_media ob') \<subseteq> set out" "set (spooled ob') \<subseteq> set kept"
    "spool_bytes ob' = spool_bytes ob - sum_list (map om_size out)" "kept = [] \<or> spool_bytes ob' \<le> target"
    "out \<noteq> [] \<longrightarrow> target < spool_bytes ob - sum_list (map om_size (butlast out))"
proof -
  let ?ms = "eviction_order (spooled ob)"
  obtain n where n: "n \<le> length (spooled ob)" "freed = map om_path (take n ?ms)"
    "ob' = ob\<lparr>ob_media := filter (\<lambda>r. om_id r \<notin> om_id ` set (take n ?ms)) (ob_media ob)\<rparr>"
    "spool_bytes ob' = spool_bytes ob - sum_list (map om_size (take n ?ms))"
    "\<forall>j < n. target < spool_bytes ob - sum_list (map om_size (take j ?ms))"
    "n = length (spooled ob) \<or> spool_bytes ob' \<le> target"
    by (rule evict_result [OF assms])
  have members: "set ?ms = set (spooled ob)" by (metis mset_eviction set_mset_mset)
  have len: "length ?ms = length (spooled ob)" by (simp add: eviction_order_def)
  have inj: "inj_on om_id (set (ob_media ob))" using assms(2) by (simp add: outbox_wf_def distinct_map)
  have taken: "set (take n ?ms) \<subseteq> set (spooled ob)" using members by (auto dest: in_set_takeD)
  have gone: "m \<in> set (take n ?ms)" if "m \<in> set (ob_media ob) - set (ob_media ob')" for m
  proof -
    from that obtain r where "r \<in> set (take n ?ms)" "om_id r = om_id m" by (auto simp: n(3))
    moreover from this taken have "r \<in> set (ob_media ob)" by (auto simp: spooled_def)
    ultimately show ?thesis using inj that by (metis DiffD1 inj_onD)
  qed
  have left: "k \<in> set (drop n ?ms)" if "k \<in> set (spooled ob')" for k
  proof -
    have "k \<in> set (spooled ob)" "k \<notin> set (take n ?ms)" using that by (auto simp: n(3) spooled_def)
    with members show ?thesis by (metis UnE append_take_drop_id set_append)
  qed
  have short: "take n ?ms \<noteq> [] \<longrightarrow> target < spool_bytes ob - sum_list (map om_size (butlast (take n ?ms)))"
    using n(5) [rule_format, of "n - 1"] n(1) len by (cases n) (simp_all add: butlast_take)
  have parts: "?ms = take n ?ms @ drop n ?ms" "ob_events ob' = ob_events ob" "set (ob_media ob') \<subseteq> set (ob_media ob)"
    "set (take n ?ms) \<inter> set (ob_media ob') = {}" by (auto simp: n(3))
  have rest: "drop n ?ms = [] \<or> spool_bytes ob' \<le> target" using n(6) len by auto
  have "set (ob_media ob) - set (ob_media ob') \<subseteq> set (take n ?ms)" "set (spooled ob') \<subseteq> set (drop n ?ms)"
    using gone left by blast+
  from that [OF parts(1) n(2) parts(2,3) taken parts(4) this n(4) rest short] show thesis .
qed

lemma eviction_meets_quota_facts:
  assumes "evict_media target ob = (freed, ob')" and "outbox_wf ob"
  shows "spool_bytes ob' \<le> target \<or> spooled ob' = []"
    and "ob_events ob' = ob_events ob"
    and "set (ob_media ob') \<subseteq> set (ob_media ob)"
    and "m \<in> set (ob_media ob) - set (ob_media ob') \<Longrightarrow> om_state m \<noteq> OB_DONE \<and> om_path m \<in> set freed \<and>
      (\<forall>k \<in> set (spooled ob'). evicted_before m k)"
    and "freed \<noteq> [] \<Longrightarrow> \<exists>m \<in> set (ob_media ob) - set (ob_media ob'). om_path m = last freed \<and> target < spool_bytes ob' + om_size m"
proof -
  obtain out kept where parts: "eviction_order (spooled ob) = out @ kept" "freed = map om_path out" "ob_events ob' = ob_events ob"
    "set (ob_media ob') \<subseteq> set (ob_media ob)" "set out \<subseteq> set (spooled ob)" "set out \<inter> set (ob_media ob') = {}"
    "set (ob_media ob) - set (ob_media ob') \<subseteq> set out" "set (spooled ob') \<subseteq> set kept"
    "spool_bytes ob' = spool_bytes ob - sum_list (map om_size out)" "kept = [] \<or> spool_bytes ob' \<le> target"
    and last: "out \<noteq> [] \<longrightarrow> target < spool_bytes ob - sum_list (map om_size (butlast out))"
    by (rule evict_parts [OF assms])
  show "ob_events ob' = ob_events ob" "set (ob_media ob') \<subseteq> set (ob_media ob)" by (fact parts(3), fact parts(4))
  show "spool_bytes ob' \<le> target \<or> spooled ob' = []" using parts(8,10) by auto
  show "om_state m \<noteq> OB_DONE \<and> om_path m \<in> set freed \<and> (\<forall>k \<in> set (spooled ob'). evicted_before m k)"
    if "m \<in> set (ob_media ob) - set (ob_media ob')" for m
  proof -
    have m: "m \<in> set out" using parts(7) that by blast
    have "sorted_wrt evicted_before (out @ kept)" using eviction_sorted [of "spooled ob"] by (simp add: parts(1))
    with m parts(8) have "\<forall>k \<in> set (spooled ob'). evicted_before m k" unfolding sorted_wrt_append by blast
    with m parts(5) show ?thesis by (auto simp: parts(2) spooled_def)
  qed
  show "\<exists>m \<in> set (ob_media ob) - set (ob_media ob'). om_path m = last freed \<and> target < spool_bytes ob' + om_size m"
    if some: "freed \<noteq> []"
  proof -
    obtain xs m where out: "out = xs @ [m]" using some parts(2) by (cases out rule: rev_cases) simp_all
    have "m \<in> set (ob_media ob) - set (ob_media ob')" using parts(5,6) by (auto simp: out spooled_def)
    moreover have "target < spool_bytes ob' + om_size m" using last by (simp add: out parts(9))
    ultimately show ?thesis by (auto simp: parts(2) out)
  qed
qed

text \<open>
  Eviction brings the media spool to its quota unless nothing evictable is left, removes the
  lowest priority and then the oldest first, stops as soon as the quota is met, and touches neither
  finished media nor any event.
\<close>

theorem eviction_meets_quota:
  assumes "evict_media target ob = (freed, ob')" and "outbox_wf ob"
  shows "(spool_bytes ob' \<le> target \<or> spooled ob' = []) \<and>
    (ob_events ob' = ob_events ob) \<and>
    (set (ob_media ob') \<subseteq> set (ob_media ob)) \<and>
    ((m \<in> set (ob_media ob) - set (ob_media ob')) \<longrightarrow>
      om_state m \<noteq> OB_DONE \<and> om_path m \<in> set freed \<and>
      (\<forall>k \<in> set (spooled ob'). evicted_before m k)) \<and>
    ((freed \<noteq> []) \<longrightarrow>
      (\<exists>m \<in> set (ob_media ob) - set (ob_media ob'). om_path m = last freed \<and> target < spool_bytes ob' + om_size m))"
  by (intro conjI impI; ((rule eviction_meets_quota_facts [OF assms]; assumption)+ | use eviction_meets_quota_facts [OF assms] in blast))

section \<open>A small spool\<close>

definition one_payload :: event_request where
  "one_payload = \<lparr>rq_device = ''xvr'', rq_type = ''person_detected'', rq_payload = PDict [], rq_occurred =
     \<lparr>st_instant = 0, st_offset = Some 0\<rparr>, rq_channel = Some 1, rq_edge = Some ''e1''\<rparr>"

definition small_spool :: outbox where
  "small_spool = \<lparr>ob_events = [], ob_media =
     [\<lparr>om_id = 1, om_edge = ''e1'', om_kind = ''snapshot'', om_path = ''a.jpg'', om_size = 10, om_priority = 10,
        om_created = ''1'', om_state = OB_PENDING\<rparr>,
      \<lparr>om_id = 2, om_edge = ''e1'', om_kind = ''clip'', om_path = ''a.mp4'', om_size = 50, om_priority = 100,
        om_created = ''1'', om_state = OB_PENDING\<rparr>]\<rparr>"

lemma empty_wf: "outbox_wf empty_outbox"
  by (simp add: outbox_wf_def empty_outbox_def)

lemma first_enqueued: "\<exists>e. enqueue_event (\<lambda>_. Some ''{}'') 0 5 6 one_payload empty_outbox =
    Inr (''e1'', \<lparr>ob_events = [e], ob_media = []\<rparr>) \<and> oe_edge e = ''e1'' \<and> due_event 0 e"
  by (simp add: enqueue_event_def one_payload_def edge_id_def empty_outbox_def due_event_def claimable_def Let_def)

lemma outbox_keeps_every_event_witness:
  "\<exists>ob'. enqueue_event (\<lambda>_. Some ''{}'') 0 5 6 one_payload empty_outbox = Inr (''e1'', ob') \<and>
    (\<exists>!e. e \<in> set (ob_events (fold (outbox_step (\<lambda>_. Some ''{}'')) [Claim 0 1, Evict 0, Reopen] ob')) \<and> oe_edge e = ''e1'')"
proof -
  obtain e where run: "enqueue_event (\<lambda>_. Some ''{}'') 0 5 6 one_payload empty_outbox = Inr (''e1'', \<lparr>ob_events = [e], ob_media = []\<rparr>)"
    using first_enqueued by blast
  from run outbox_keeps_every_event [OF run empty_wf, THEN conjunct1] show ?thesis by blast
qed

lemma claims_are_exclusive_witness:
  "\<exists>ob r ob'. claim_events 0 1 ob = ([r], ob') \<and> length (filter (due_event 0) (ob_events ob)) = 1 \<and>
    oe_id r \<notin> oe_id ` set (fst (claim_events 1 9 (fold (outbox_step (\<lambda>_. Some ''{}'')) [Reopen] ob')))"
proof -
  obtain e where run: "enqueue_event (\<lambda>_. Some ''{}'') 0 5 6 one_payload empty_outbox = Inr (''e1'', \<lparr>ob_events = [e], ob_media = []\<rparr>)"
    and due: "due_event 0 e" using first_enqueued by blast
  let ?ob = "\<lparr>ob_events = [e], ob_media = []\<rparr>"
  obtain rows ob' where claim: "claim_events 0 1 ?ob = (rows, ob')" by (cases "claim_events 0 1 ?ob")
  note exclusive = claims_are_exclusive [OF claim enqueue_wf [OF run empty_wf]]
  have "length rows = 1" using exclusive [THEN conjunct1] due by simp
  then obtain r where r: "rows = [r]" by (cases rows) auto
  have "\<forall>r \<in> set rows. (\<forall>op \<in> set [Reopen]. \<forall>s err nxt. op = Mark (oe_edge r) s err nxt \<longrightarrow> \<not> claimable s) \<longrightarrow>
      oe_id r \<notin> oe_id ` set (fst (claim_events 1 9 (fold (outbox_step (\<lambda>_. Some ''{}'')) [Reopen] ob')))"
    by (rule exclusive [THEN conjunct2, THEN conjunct2, THEN conjunct2, THEN conjunct2, THEN conjunct2, THEN conjunct2])
  then have "oe_id r \<notin> oe_id ` set (fst (claim_events 1 9 (fold (outbox_step (\<lambda>_. Some ''{}'')) [Reopen] ob')))"
    by (simp add: r)
  with claim due show ?thesis unfolding r by (intro exI [of _ ?ob] exI [of _ r] exI [of _ ob']) simp
qed

lemma eviction_meets_quota_witness:
  "\<exists>freed ob'. evict_media 20 small_spool = (freed, ob') \<and> (spool_bytes ob' \<le> 20 \<or> spooled ob' = [])"
proof -
  obtain freed ob' where run: "evict_media 20 small_spool = (freed, ob')" by (cases "evict_media 20 small_spool")
  have "outbox_wf small_spool" by (simp add: outbox_wf_def small_spool_def)
  from eviction_meets_quota [OF run this, THEN conjunct1] run show ?thesis by blast
qed

text \<open>
  Stored times are compared as text: an event of 20:30 UTC that was retried for 23:00 at UTC+3 is
  already due at 20:30, and is not handed out.
\<close>

lemma offset_hides_due_event:
  "isoformat \<lparr>st_instant = 20 * hour, st_offset = Some 180\<rparr> = ''1970-01-01T23:00:00+03:00''"
  "utc_text (20 * hour + 30 * minute) = ''1970-01-01T20:30:00+00:00''"
  "\<not> due_event (20 * hour + 30 * minute) (e\<lparr>oe_next := Some (isoformat \<lparr>st_instant = 20 * hour, st_offset = Some 180\<rparr>)\<rparr>)"
proof -
  show a: "isoformat \<lparr>st_instant = 20 * hour, st_offset = Some 180\<rparr> = ''1970-01-01T23:00:00+03:00''"
    by code_simp
  show b: "utc_text (20 * hour + 30 * minute) = ''1970-01-01T20:30:00+00:00''"
    by code_simp
  have "\<not> ''1970-01-01T23:00:00+03:00'' \<le> ''1970-01-01T20:30:00+00:00''"
    by (simp add: less_char_def)
  with a b show "\<not> due_event (20 * hour + 30 * minute)
      (e\<lparr>oe_next := Some (isoformat \<lparr>st_instant = 20 * hour, st_offset = Some 180\<rparr>)\<rparr>)"
    by (simp add: due_event_def)
qed

end
