(* ===== verification/Redaction.thy ===== *)
theory Redaction
  imports Identifiers
begin

text \<open>
  Credential scrubbing on the edge, \<^verbatim>\<open>edge-agent/nightshift_edge/security/redaction.py\<close>, and
  the logging filter over it, \<^verbatim>\<open>edge-agent/nightshift_edge/telemetry/logging_setup.py\<close>.
  A pattern is a matcher at one position: the replacement text and how many characters it matched.
\<close>

section \<open>Substitution\<close>

type_synonym matcher = "char option \<Rightarrow> string \<Rightarrow> (string \<times> nat) option"

text \<open>
  \<^verbatim>\<open>pattern.sub(replace, text)\<close> for a pattern that matches no empty text, from the position
  after the character \<open>prev\<close>.
\<close>

function sub_from :: "matcher \<Rightarrow> char option \<Rightarrow> string \<Rightarrow> string" where
  "sub_from m prev [] = []"
| "sub_from m prev (c # cs) = (case m prev (c # cs) of
     None \<Rightarrow> c # sub_from m (Some c) cs
   | Some (r, n) \<Rightarrow> r @ sub_from m (Some ((c # cs) ! (n - 1))) (drop (n - 1) cs))"
  by pat_completeness auto
termination
  by (relation "measure (\<lambda>(m, prev, s). length s)") auto

definition py_sub :: "matcher \<Rightarrow> string \<Rightarrow> string" where
  "py_sub m s = sub_from m None s"

section \<open>The three patterns\<close>

definition redacted :: string where
  "redacted = ''***''"

definition is_letter :: "char \<Rightarrow> bool" where
  "is_letter c = (let n = of_char c :: nat in (65 \<le> n \<and> n \<le> 90) \<or> (97 \<le> n \<and> n \<le> 122))"

definition scheme_char :: "char \<Rightarrow> bool" where
  "scheme_char c \<longleftrightarrow> is_letter c \<or> is_digit c \<or> c \<in> {CHR ''+'', CHR ''.'', CHR ''-''}"

definition secret_char :: "char \<Rightarrow> bool" where
  "secret_char c \<longleftrightarrow> c \<noteq> CHR ''/'' \<and> c \<noteq> CHR ''@'' \<and> \<not> is_blank c"

definition user_char :: "char \<Rightarrow> bool" where
  "user_char c \<longleftrightarrow> secret_char c \<and> c \<noteq> CHR '':''"

text \<open>
  \<^verbatim>\<open>_USERINFO_RE\<close>.  No run of a class can be followed by a character of the same class, and
  the character each run must be followed by is outside its class, so there is one way to match.
\<close>

definition userinfo_re :: matcher where
  "userinfo_re prev s =
    (let scheme = takeWhile scheme_char s; rest = drop (length scheme) s;
         user = takeWhile user_char (drop 3 rest); after = drop (length user) (drop 3 rest);
         head = length scheme + 3 + length user
     in if scheme = [] \<or> \<not> is_letter (hd scheme) \<or> take 3 rest \<noteq> ''://'' \<or> user = [] then None
        else if take 1 after = ''@'' then Some (scheme @ ''://'' @ redacted @ ''@'', head + 1)
        else if take 1 after = '':'' then
          (let pw = takeWhile secret_char (drop 1 after) in
             if take 1 (drop (1 + length pw) after) = ''@''
             then Some (scheme @ ''://'' @ redacted @ ''@'', head + 2 + length pw) else None)
        else None)"

definition secret_words :: "string list" where
  "secret_words = [''password'', ''passwd'', ''pwd'', ''secret'', ''token'', ''authorization'', ''apikey'',
     ''api_key'']"

definition value_char :: "char \<Rightarrow> bool" where
  "value_char c \<longleftrightarrow> c \<notin> {CHR ''&'', CHR '';'', CHR 0x22, CHR 0x27} \<and> \<not> is_blank c"

text \<open>\<^verbatim>\<open>_QUERY_SECRET_RE\<close>.\<close>

definition query_secret_re :: matcher where
  "query_secret_re prev s =
    (if \<not> starts_word prev s then None
     else case find (\<lambda>w. starts_ci (w @ ''='') s) secret_words of
       None \<Rightarrow> None
     | Some w \<Rightarrow> let n = length w + 1 + length (takeWhile value_char (drop (length w + 1) s))
         in Some (take (length w) s @ ''='' @ redacted, n))"

definition quote_char :: "char \<Rightarrow> bool" where
  "quote_char c \<longleftrightarrow> c = CHR 0x27 \<or> c = CHR 0x22"

definition argument_char :: "char \<Rightarrow> bool" where
  "argument_char c \<longleftrightarrow> \<not> is_blank c \<and> \<not> quote_char c"

text \<open>\<^verbatim>\<open>_CURL_USER_RE\<close>; the flag, the blanks after it, an optional quote and the argument.\<close>

definition curl_user_re :: matcher where
  "curl_user_re prev s =
    (let flag = (if starts_ci ''-u'' s then 2 else if starts_ci ''--user'' s then 6 else 0);
         blanks = length (takeWhile is_blank (drop flag s));
         at_quote = drop (flag + blanks) s;
         mark = length (takeWhile quote_char (take 1 at_quote));
         arg = length (takeWhile argument_char (drop mark at_quote))
     in if flag = 0 \<or> blanks = 0 \<or> arg = 0 then None
        else Some (take (flag + blanks + mark) s @ redacted, flag + blanks + mark + arg))"

section \<open>Operations\<close>

definition redact_url :: "string \<Rightarrow> string" where
  "redact_url url = (if url = [] then url else py_sub query_secret_re (py_sub userinfo_re url))"

definition redact_text :: "string \<Rightarrow> string" where
  "redact_text text = (if text = [] then text
     else py_sub curl_user_re (py_sub query_secret_re (py_sub userinfo_re text)))"

definition sensitive_keys :: "string set" where
  "sensitive_keys = {''password'', ''passwd'', ''pwd'', ''secret'', ''token'', ''access_token'',
     ''refresh_token'', ''authorization'', ''api_key'', ''apikey'', ''credentials'', ''enrollment_token'',
     ''edge_secret_key''}"

text \<open>\<^verbatim>\<open>redact_mapping\<close>; a tuple and a list are both \<^const>\<open>PList\<close>.\<close>

fun redact_mapping :: "nat \<Rightarrow> pyval \<Rightarrow> pyval" where
  "redact_mapping d (PDict kvs) = (if 12 < d then PDict kvs
     else PDict (map (\<lambda>(k, v). (k, if lower k \<in> sensitive_keys then PStr redacted
                                   else redact_mapping (d + 1) v)) kvs))"
| "redact_mapping d (PList xs) = (if 12 < d then PList xs else PList (map (redact_mapping (d + 1)) xs))"
| "redact_mapping d (PStr s) = (if 12 < d then PStr s else PStr (redact_text s))"
| "redact_mapping d v = v"

definition redact_command :: "string list \<Rightarrow> string list" where
  "redact_command argv = map (\<lambda>arg. redact_text (redact_url arg)) argv"

lemma redact_examples:
  "redact_url ''h://u:p@x?Pwd=ab&c'' = ''h://***@x?Pwd=***&c''"
  "redact_text ''-u 'a:b' c'' = ''-u '***' c''"
  by code_simp+

section \<open>The logging filter\<close>

datatype log_args = No_args | Named_args "(string \<times> pyval) list" | Args "pyval list"

record log_record =
  lr_msg :: pyval
  lr_args :: log_args

definition scrub :: "pyval \<Rightarrow> pyval" where
  "scrub v = (case v of PStr s \<Rightarrow> PStr (redact_text s) | _ \<Rightarrow> v)"

text \<open>\<^verbatim>\<open>if record.args\<close>: no arguments and empty ones are left alone.\<close>

definition filter_record :: "log_record \<Rightarrow> bool \<times> log_record" where
  "filter_record r =
    (True, r\<lparr>lr_msg := scrub (lr_msg r),
      lr_args := (case lr_args r of No_args \<Rightarrow> No_args
         | Named_args kvs \<Rightarrow> Named_args (map (\<lambda>(k, v). (k, scrub v)) kvs)
         | Args vs \<Rightarrow> Args (map scrub vs))\<rparr>)"

section \<open>What redaction hides\<close>

text \<open>
  Two values that differ only under sensitive keys, not below the depth the code descends to.
\<close>

inductive same_but_secrets :: "nat \<Rightarrow> pyval \<Rightarrow> pyval \<Rightarrow> bool" where
  same_value: "same_but_secrets d v v"
| same_dict: "d \<le> 12 \<Longrightarrow>
     list_all2 (\<lambda>p q. fst p = fst q \<and>
       (lower (fst p) \<in> sensitive_keys \<or> same_but_secrets (d + 1) (snd p) (snd q))) xs ys \<Longrightarrow>
     same_but_secrets d (PDict xs) (PDict ys)"
| same_list: "d \<le> 12 \<Longrightarrow> list_all2 (same_but_secrets (d + 1)) xs ys \<Longrightarrow>
     same_but_secrets d (PList xs) (PList ys)"
monos list_all2_mono

lemma list_all2_map_eq: "list_all2 (\<lambda>x y. f x = f y) xs ys \<Longrightarrow> map f xs = map f ys"
  by (induction rule: list_all2_induct) simp_all

lemma redaction_is_blind: "same_but_secrets d v w \<Longrightarrow> redact_mapping d v = redact_mapping d w"
proof (induction rule: same_but_secrets.induct)
  case (same_dict d xs ys)
  let ?f = "\<lambda>(k, v). (k, if lower k \<in> sensitive_keys then PStr redacted else redact_mapping (d + 1) v)"
  have "list_all2 (\<lambda>p q. ?f p = ?f q) xs ys"
    using same_dict(2) by (rule list_all2_mono) (auto split: prod.splits)
  then have "map ?f xs = map ?f ys" by (rule list_all2_map_eq)
  then show ?case using same_dict(1) by simp
next
  case (same_list d xs ys)
  have "list_all2 (\<lambda>v w. redact_mapping (d + 1) v = redact_mapping (d + 1) w) xs ys"
    using same_list(2) by (rule list_all2_mono) simp
  then have "map (redact_mapping (d + 1)) xs = map (redact_mapping (d + 1)) ys" by (rule list_all2_map_eq)
  then show ?case using same_list(1) by simp
qed simp

text \<open>Below that depth nothing is replaced: a password wrapped in thirteen lists is printed.\<close>

definition wrapped :: "nat \<Rightarrow> pyval \<Rightarrow> pyval" where
  "wrapped n v = ((\<lambda>w. PList [w]) ^^ n) v"

lemma redact_wrapped: "d + n \<le> 13 \<Longrightarrow> redact_mapping d (wrapped n v) = wrapped n (redact_mapping (d + n) v)"
  by (induction n arbitrary: d) (auto simp: wrapped_def)

lemma redact_too_deep: "12 < d \<Longrightarrow> redact_mapping d v = v"
  by (cases v) simp_all

lemma deep_secret_is_printed: "redact_mapping 0 (wrapped 13 v) = wrapped 13 v"
  by (simp add: redact_wrapped redact_too_deep)

text \<open>
  The filter scrubs the message before its arguments are put in: the placeholder of a secret is
  taken for the secret, and the argument meant for it stays.
\<close>

lemma placeholder_is_scrubbed:
  "snd (filter_record \<lparr>lr_msg = PStr ''pwd=%s'', lr_args = Args [PStr ''Z9'']\<rparr>) =
     \<lparr>lr_msg = PStr ''pwd=***'', lr_args = Args [PStr ''Z9'']\<rparr>"
  by code_simp

text \<open>
  Two values that differ only in what lies under sensitive keys, however they are nested down to
  the depth the code descends to, are redacted to the same value.
\<close>

theorem nested_secrets_stay_hidden:
  assumes "same_but_secrets 0 v w"
  shows "redact_mapping 0 v = redact_mapping 0 w"
  using assms by (rule redaction_is_blind)

lemma nested_secrets_stay_hidden_witness:
  "redact_mapping 0 (PList [PDict [(''Password'', PStr ''a''), (''user'', PStr ''x'')]]) =
   redact_mapping 0 (PList [PDict [(''Password'', PInt 7), (''user'', PStr ''x'')]])"
proof (rule nested_secrets_stay_hidden)
  have "lower ''Password'' = ''password''" by code_simp
  then have key: "lower ''Password'' \<in> sensitive_keys" by (simp add: sensitive_keys_def)
  show "same_but_secrets 0 (PList [PDict [(''Password'', PStr ''a''), (''user'', PStr ''x'')]])
      (PList [PDict [(''Password'', PInt 7), (''user'', PStr ''x'')]])"
    by (rule same_list) (auto intro!: same_dict same_value key)
qed

end
