(* ===== verification/Streams.thy ===== *)
theory Streams
  imports Redaction MediaStore
begin

text \<open>
  Stream addresses of a recorder: live and playback URLs
  (\<^verbatim>\<open>edge-agent/nightshift_edge/devices/dahua/rtsp.py\<close>, \<^verbatim>\<open>playback.py\<close>) and what
  \<^verbatim>\<open>ffprobe\<close> makes of one (\<^verbatim>\<open>edge-agent/nightshift_edge/media/ffprobe.py\<close>).  Text
  is its UTF-8 bytes.  A naive \<^verbatim>\<open>datetime\<close> is its wall clock; an aware one carries its offset.
\<close>

section \<open>Live streams\<close>

record dahua_credentials =
  dc_username :: string
  dc_password :: string

definition upper_hex :: "nat \<Rightarrow> char" where
  "upper_hex d = (if d < 10 then char_of (48 + d) else char_of (55 + d))"

definition unreserved :: "char \<Rightarrow> bool" where
  "unreserved c \<longleftrightarrow> is_letter c \<or> is_digit c \<or> c \<in> {CHR ''_'', CHR ''.'', CHR ''-'', CHR ''~''}"

text \<open>\<^verbatim>\<open>urllib.parse.quote(text, safe="")\<close>.\<close>

definition py_quote :: "string \<Rightarrow> string" where
  "py_quote s = concat (map (\<lambda>c. if unreserved c then [c]
     else [CHR ''%'', upper_hex (of_char c div 16), upper_hex (of_char c mod 16)]) s)"

definition default_rtsp_port :: int where
  "default_rtsp_port = 554"

definition url_head :: "string \<Rightarrow> int \<Rightarrow> dahua_credentials option \<Rightarrow> string" where
  "url_head host port creds = ''rtsp://'' @
     (case creds of None \<Rightarrow> []
      | Some c \<Rightarrow> py_quote (dc_username c) @ '':'' @ py_quote (dc_password c) @ ''@'') @
     (if port \<noteq> default_rtsp_port then host @ '':'' @ show_int port else host)"

definition build_live_url :: "string \<Rightarrow> int \<Rightarrow> int \<Rightarrow> int \<Rightarrow> dahua_credentials option \<Rightarrow> string + string" where
  "build_live_url host channel subtype port creds =
    (if channel < 0 then Inl ''vendor_channel must be >= 0''
     else if subtype \<notin> {0, 1, 2, 3} then Inl ''subtype must be 0 (main) or 1..3 (sub)''
     else Inr (url_head host port creds @ ''/cam/realmonitor'' @ ''?channel='' @ show_int channel @
               ''&subtype='' @ show_int subtype))"

datatype stream_quality = Low_quality | High_quality

definition quality_subtype :: "stream_quality \<Rightarrow> int" where
  "quality_subtype q = (if q = Low_quality then 1 else 0)"

record rtsp_target =
  rt_host :: string
  rt_channel :: int
  rt_subtype :: int
  rt_port :: int

definition target_url :: "rtsp_target \<Rightarrow> dahua_credentials option \<Rightarrow> string + string" where
  "target_url t creds = build_live_url (rt_host t) (rt_channel t) (rt_subtype t) (rt_port t) creds"

definition safe_url :: "rtsp_target \<Rightarrow> string + string" where
  "safe_url t = target_url t None"

definition vendor_rtsp_channel :: "int \<Rightarrow> int \<Rightarrow> int" where
  "vendor_rtsp_channel logical base = logical - 1 + base"

section \<open>Playback\<close>

definition format_dahua_time :: "instant \<Rightarrow> string" where
  "format_dahua_time t = (case civil_date (t div day) of (y, m, d) \<Rightarrow>
     let r = t mod day in
     show_int y @ ''_'' @ two_digits m @ ''_'' @ two_digits d @ ''_'' @
     two_digits (r div hour) @ ''_'' @ two_digits (r mod hour div minute) @ ''_'' @
     two_digits (r mod minute div second))"

record clip_window =
  cw_start :: instant
  cw_end :: instant

definition duration_of :: "clip_window \<Rightarrow> duration" where
  "duration_of w = cw_end w - cw_start w"

datatype moment = Naive instant | Aware instant duration

text \<open>
  \<^verbatim>\<open>moment.astimezone(tz).replace(tzinfo=None)\<close> when both a zone and an offset are there; a zone
  gives the offset in force at an instant.
\<close>

definition device_local :: "(instant \<Rightarrow> duration) option \<Rightarrow> moment \<Rightarrow> instant" where
  "device_local tz m = (case m of Naive t \<Rightarrow> t
     | Aware t offset \<Rightarrow> t + (case tz of Some z \<Rightarrow> z t | None \<Rightarrow> offset))"

definition build_clip_window :: "moment \<Rightarrow> int \<Rightarrow> int \<Rightarrow> (instant \<Rightarrow> duration) option \<Rightarrow> moment option
    \<Rightarrow> string + clip_window" where
  "build_clip_window occurred before after tz now =
    (if before < 0 \<or> after < 0 then Inl ''clip padding must be non-negative''
     else
       let here = device_local tz occurred; start = here - seconds before;
           fin = here + seconds after;
           fin = (case now of None \<Rightarrow> fin
                  | Some n \<Rightarrow> if device_local tz n < fin then device_local tz n else fin);
           fin = (if fin \<le> start then start + second else fin)
       in Inr \<lparr>cw_start = start, cw_end = fin\<rparr>)"

definition build_playback_url :: "string \<Rightarrow> int \<Rightarrow> clip_window \<Rightarrow> int \<Rightarrow> dahua_credentials option
    \<Rightarrow> string + string" where
  "build_playback_url host channel w port creds =
    (if channel < 0 then Inl ''vendor_channel must be >= 0''
     else Inr (url_head host port creds @ ''/cam/playback'' @ ''?channel='' @ show_int channel @
               ''&starttime='' @ format_dahua_time (cw_start w) @ ''&endtime='' @ format_dahua_time (cw_end w)))"

section \<open>ffprobe\<close>

record stream_result =
  pr_ok :: bool
  pr_codec :: pyval
  pr_width :: pyval
  pr_height :: pyval
  pr_error :: "string option"

definition stream_failure :: "string \<Rightarrow> stream_result" where
  "stream_failure e = \<lparr>pr_ok = False, pr_codec = PNone, pr_width = PNone, pr_height = PNone, pr_error = Some e\<rparr>"

definition resolution :: "stream_result \<Rightarrow> string option" where
  "resolution r = (if truth (pr_width r) \<and> truth (pr_height r)
     then Some (py_str (pr_width r) @ ''x'' @ py_str (pr_height r)) else None)"

text \<open>The command line; \<open>analyze\<close> is \<^verbatim>\<open>analyze_seconds\<close> in microseconds.\<close>

definition probe_argv :: "string \<Rightarrow> int \<Rightarrow> string \<Rightarrow> string list" where
  "probe_argv transport analyze url =
    [''ffprobe'', ''-v'', ''error'', ''-rtsp_transport'', transport, ''-analyzeduration'', show_int analyze,
     ''-probesize'', show_int (max 500000 analyze), ''-select_streams'', ''v:0'', ''-show_entries'',
     ''stream=codec_name,width,height,avg_frame_rate:format=duration'', ''-of'', ''json'', url]"

text \<open>
  What starting the process leads to: not found, another \<^verbatim>\<open>OSError\<close>, no end in time, or an exit
  code with the stripped lines of its error output and its output as JSON
  (\<^const>\<open>None\<close> when it is none; no output reads as an empty object).
\<close>

datatype run_outcome = Binary_missing | Cannot_start string | Ran_too_long
  | Exited int "string list" "pyval option"

text \<open>An object of another shape raises out of \<^verbatim>\<open>probe_stream\<close>.\<close>

datatype stream_error = Malformed_reply

definition is_dict :: "pyval \<Rightarrow> bool" where
  "is_dict v = (case v of PDict _ \<Rightarrow> True | _ \<Rightarrow> False)"

definition get_item :: "string \<Rightarrow> pyval \<Rightarrow> stream_error + pyval" where
  "get_item k v = (case v of PDict kvs \<Rightarrow> Inr (case map_of kvs k of Some x \<Rightarrow> x | None \<Rightarrow> PNone)
     | _ \<Rightarrow> Inl Malformed_reply)"

definition read_streams :: "pyval \<Rightarrow> stream_error + stream_result" where
  "read_streams payload =
    (case get_item ''streams'' payload of Inl e \<Rightarrow> Inl e
     | Inr streams \<Rightarrow>
       if \<not> truth streams then Inr (stream_failure ''no video stream found'')
       else (case streams of PList (PDict st # _) \<Rightarrow>
           (case get_item ''format'' payload of Inl e \<Rightarrow> Inl e
            | Inr f \<Rightarrow> if truth f \<and> \<not> is_dict f then Inl Malformed_reply
              else let field = (\<lambda>k. case map_of st k of Some x \<Rightarrow> x | None \<Rightarrow> PNone)
                in Inr \<lparr>pr_ok = True, pr_codec = field ''codec_name'', pr_width = field ''width'',
                        pr_height = field ''height'', pr_error = None\<rparr>)
         | _ \<Rightarrow> Inl Malformed_reply))"

definition probe_stream :: "bool \<Rightarrow> int \<Rightarrow> run_outcome \<Rightarrow> stream_error + stream_result" where
  "probe_stream available timeout run =
    (if \<not> available then Inr (stream_failure ''ffprobe not installed'')
     else case run of
       Binary_missing \<Rightarrow> Inr (stream_failure ''ffprobe not installed'')
     | Cannot_start e \<Rightarrow> Inr (stream_failure (''cannot start ffprobe: '' @ e))
     | Ran_too_long \<Rightarrow> Inr (stream_failure (''ffprobe timed out after '' @ show_int timeout @ ''s''))
     | Exited code lines out \<Rightarrow>
         if code \<noteq> 0
         then Inr (stream_failure (py_take 300 (redact_url
           (if lines = [] then ''exit '' @ show_int code else last lines))))
         else (case out of None \<Rightarrow> Inr (stream_failure ''ffprobe returned unparsable json'')
               | Some payload \<Rightarrow> read_streams payload))"

section \<open>Credentials stay out of what is logged\<close>

lemma char_code: "c = d \<longleftrightarrow> (of_char c :: nat) = of_char d"
  by simp

lemma user_char_code: "user_char c \<longleftrightarrow> (let n = of_char c :: nat in
    n \<noteq> 47 \<and> n \<noteq> 58 \<and> n \<noteq> 64 \<and> \<not> (9 \<le> n \<and> n \<le> 13) \<and> \<not> (28 \<le> n \<and> n \<le> 32))"
  unfolding user_char_def secret_char_def is_blank_def Let_def
    char_code [of c "CHR ''/''"] char_code [of c "CHR '':''"] char_code [of c "CHR ''@''"]
  by auto

lemma upper_hex_user:
  assumes "d < 16"
  shows "user_char (upper_hex d)"
proof -
  have "(of_char (upper_hex d) :: nat) = (if d < 10 then 48 + d else 55 + d)"
    using assms by (simp add: upper_hex_def)
  with assms show ?thesis by (simp add: user_char_code Let_def)
qed

lemma unreserved_user: "unreserved c \<Longrightarrow> user_char c"
  by (auto simp: user_char_code unreserved_def is_letter_def is_digit_def Let_def)

lemma quoted_user: "c \<in> set (py_quote s) \<Longrightarrow> user_char c"
proof -
  have pc: "user_char (CHR ''%'')" by code_simp
  have lt: "(of_char c :: nat) div 16 < 16" for c
    by (rule less_mult_imp_div_less) simp
  show "c \<in> set (py_quote s) \<Longrightarrow> user_char c"
    by (auto simp: py_quote_def pc intro: unreserved_user upper_hex_user [OF lt] upper_hex_user split: if_splits)
qed

lemma quote_nonempty: "s \<noteq> [] \<Longrightarrow> py_quote s \<noteq> []"
  by (cases s) (auto simp: py_quote_def)

lemma take_while_all: "(\<And>c. c \<in> set a \<Longrightarrow> p c) \<Longrightarrow> \<not> p x \<Longrightarrow> takeWhile p (a @ x # r) = a"
  by (simp add: takeWhile_append2)

lemma userinfo_re_matches:
  assumes "\<And>c. c \<in> set a \<Longrightarrow> user_char c" "\<And>c. c \<in> set b \<Longrightarrow> user_char c" "a \<noteq> []"
  shows "userinfo_re prev (''rtsp://'' @ a @ '':'' @ b @ ''@'' @ rest) =
     Some (''rtsp://'' @ redacted @ ''@'', 9 + length a + length b)"
proof -
  have scheme: "takeWhile scheme_char (''rtsp://'' @ t) = ''rtsp''" for t
    by (simp add: scheme_char_def is_letter_def is_digit_def)
  have stop: "\<not> user_char (CHR '':'')" "\<not> secret_char (CHR ''@'')" "is_letter (CHR ''r'')"
    by code_simp+
  have user: "takeWhile user_char (a @ CHR '':'' # t) = a" for t
    using assms(1) stop(1) by (rule take_while_all)
  have pw: "takeWhile secret_char (b @ CHR ''@'' # t) = b" for t
    using assms(2) stop(2) by (intro take_while_all) (auto simp: user_char_def)
  show ?thesis
    unfolding userinfo_re_def scheme Let_def
    using assms(3) stop by (simp add: user pw)
qed

lemma sub_from_match:
  assumes "m prev s = Some (r, length u)" "s = u @ t" "u \<noteq> []"
  shows "sub_from m prev s = r @ sub_from m (Some (last u)) t"
proof -
  obtain c v where u: "u = c # v" using assms(3) by (cases u) auto
  have "(c # v @ t) ! length v = last u"
    unfolding u by (cases v rule: rev_cases) (auto simp: nth_append)
  with assms u show ?thesis by simp
qed

lemma userinfo_sub:
  assumes "\<And>c. c \<in> set a \<Longrightarrow> user_char c" "\<And>c. c \<in> set b \<Longrightarrow> user_char c" "a \<noteq> []"
  shows "py_sub userinfo_re (''rtsp://'' @ a @ '':'' @ b @ ''@'' @ rest) =
     ''rtsp://***@'' @ sub_from userinfo_re (Some CHR ''@'') rest"
proof -
  let ?u = "''rtsp://'' @ a @ '':'' @ b @ ''@''"
  have "userinfo_re None (?u @ rest) = Some (''rtsp://'' @ redacted @ ''@'', length ?u)"
    using userinfo_re_matches [OF assms, where prev = None and rest = rest] by simp
  from sub_from_match [where m = userinfo_re and prev = None and t = rest and s = "?u @ rest" and u = ?u, OF this refl] show ?thesis by (simp add: py_sub_def redacted_def)
qed

text \<open>Two credentials with a user name give addresses that are scrubbed to the same text.\<close>

lemma head_redaction:
  assumes "dc_username c \<noteq> []" "dc_username c' \<noteq> []"
  shows "redact_url (url_head host port (Some c) @ t) = redact_url (url_head host port (Some c') @ t)"
proof -
  have sub: "py_sub userinfo_re (url_head host port (Some c) @ t) = ''rtsp://***@'' @
      sub_from userinfo_re (Some CHR ''@'')
        ((if port \<noteq> default_rtsp_port then host @ '':'' @ show_int port else host) @ t)"
    if "dc_username c \<noteq> []" for c
    using userinfo_sub [OF quoted_user quoted_user quote_nonempty [OF that]]
    by (simp add: url_head_def)
  have some: "url_head host port (Some c) @ t \<noteq> []" for c by (simp add: url_head_def)
  show ?thesis unfolding redact_url_def if_not_P [OF some] sub [OF assms(1)] sub [OF assms(2)] ..
qed

lemma argv_redaction: "redact_url u = redact_url u' \<Longrightarrow>
    redact_command (probe_argv transport analyze u) = redact_command (probe_argv transport analyze u')"
  by (simp add: redact_command_def probe_argv_def)

lemma nameless_password_is_logged:
  "redact_url (url_head ''h'' 554 (Some \<lparr>dc_username = [], dc_password = ''Z9''\<rparr>)) = ''rtsp://:Z9@h''"
  by code_simp

section \<open>Clip windows\<close>

lemma clip_window_start: "build_clip_window m b a tz now = Inr w \<Longrightarrow>
    cw_start w = device_local tz m - seconds b \<and> cw_start w < cw_end w"
  by (auto simp: build_clip_window_def Let_def split: if_splits)

lemma clip_window_end:
  assumes "build_clip_window m b a tz now = Inr w"
  shows "cw_end w \<le> max (device_local tz m + seconds a) (cw_start w + second)"
    and "now = Some n \<Longrightarrow> cw_end w \<le> max (device_local tz n) (cw_start w + second)"
    and "0 \<le> b" "0 \<le> a"
  using assms by (auto simp: build_clip_window_def Let_def split: if_splits option.splits)

lemma clip_window_holds_event:
  assumes "build_clip_window m b a tz now = Inr w"
    and "\<forall>n. now = Some n \<longrightarrow> device_local tz m \<le> device_local tz n"
  shows "cw_start w \<le> device_local tz m" and "device_local tz m \<le> cw_end w"
  using assms by (auto simp: build_clip_window_def Let_def seconds_def split: if_splits option.splits)

text \<open>
  A clip window is never empty, starts the padding before the event in the device's own time,
  ends no later than the padding after it and, but for the one second a window lasts at least, no
  later than now; it contains the event unless the event lies in the future.
\<close>

theorem clip_window_is_sound:
  assumes "build_clip_window m b a tz now = Inr w"
  shows "cw_start w = device_local tz m - seconds b \<and> 0 < duration_of w \<and>
    cw_end w \<le> max (device_local tz m + seconds a) (cw_start w + second) \<and>
    (\<forall>n. now = Some n \<longrightarrow> cw_end w \<le> max (device_local tz n) (cw_start w + second)) \<and>
    ((\<forall>n. now = Some n \<longrightarrow> device_local tz m \<le> device_local tz n) \<longrightarrow>
      device_local tz m \<in> {cw_start w .. cw_end w})"
  using clip_window_start [OF assms] clip_window_end [OF assms] clip_window_holds_event [OF assms]
  by (simp add: duration_of_def)

lemma clip_window_is_sound_witness:
  "\<exists>w. build_clip_window (Aware 0 0) 10 20 (Some (\<lambda>_. 3 * hour)) (Some (Naive (3 * hour + second))) = Inr w \<and>
    cw_end w \<le> 3 * hour + second \<and> 3 * hour \<in> {cw_start w .. cw_end w}"
proof -
  let ?now = "Some (Naive (3 * hour + second))" and ?tz = "Some (\<lambda>_ :: instant. 3 * hour)"
  obtain w where run: "build_clip_window (Aware 0 0) 10 20 ?tz ?now = Inr w"
    by (simp add: build_clip_window_def Let_def)
  from clip_window_is_sound [OF this] have "cw_end w \<le> 3 * hour + second \<and> 3 * hour \<in> {cw_start w .. cw_end w}"
    by (auto simp: device_local_def seconds_def max_def split: if_splits)
  with run show ?thesis by blast
qed

definition logged_command :: "string \<Rightarrow> int \<Rightarrow> string \<Rightarrow> string list" where
  "logged_command transport analyze url = redact_command (probe_argv transport analyze url)"

lemma same_redaction:
  assumes "dc_username c \<noteq> []" "dc_username c' \<noteq> []" and "\<And>u v. redact_url u = redact_url v \<Longrightarrow> f u = f v"
  shows "map_sum id f (build_live_url host channel subtype port (Some c)) =
      map_sum id f (build_live_url host channel subtype port (Some c'))"
    and "map_sum id f (build_playback_url host channel w port (Some c)) =
      map_sum id f (build_playback_url host channel w port (Some c'))"
  by (simp_all add: build_live_url_def build_playback_url_def assms(3) [OF head_redaction [OF assms(1,2)]])

text \<open>
  C31. Whatever the credentials of a recorder are, as long as there is a user name, its live and
  playback addresses and the \<^verbatim>\<open>ffprobe\<close> command lines over them are logged as the same text.
\<close>

theorem logged_addresses_hide_credentials:
  assumes "dc_username c \<noteq> []" "dc_username c' \<noteq> []"
  shows "map_sum id redact_url (build_live_url host channel subtype port (Some c)) =
      map_sum id redact_url (build_live_url host channel subtype port (Some c')) \<and>
    map_sum id (logged_command transport analyze) (build_live_url host channel subtype port (Some c)) =
      map_sum id (logged_command transport analyze) (build_live_url host channel subtype port (Some c')) \<and>
    map_sum id redact_url (build_playback_url host channel w port (Some c)) =
      map_sum id redact_url (build_playback_url host channel w port (Some c')) \<and>
    map_sum id (logged_command transport analyze) (build_playback_url host channel w port (Some c)) =
      map_sum id (logged_command transport analyze) (build_playback_url host channel w port (Some c'))"
proof (intro conjI)
  have f: "redact_url u = redact_url v \<Longrightarrow> logged_command transport analyze u = logged_command transport analyze v"
    for u v unfolding logged_command_def by (rule argv_redaction)
  note url = same_redaction [OF assms, where f = redact_url] and cmd = same_redaction [OF assms f]
  show "map_sum id redact_url (build_live_url host channel subtype port (Some c)) =
      map_sum id redact_url (build_live_url host channel subtype port (Some c'))" by (rule url(1))
  show "map_sum id (logged_command transport analyze) (build_live_url host channel subtype port (Some c)) =
      map_sum id (logged_command transport analyze) (build_live_url host channel subtype port (Some c'))"
    by (rule cmd(1))
  show "map_sum id redact_url (build_playback_url host channel w port (Some c)) =
      map_sum id redact_url (build_playback_url host channel w port (Some c'))" by (rule url(2))
  show "map_sum id (logged_command transport analyze) (build_playback_url host channel w port (Some c)) =
      map_sum id (logged_command transport analyze) (build_playback_url host channel w port (Some c'))"
    by (rule cmd(2))
qed

lemma logged_addresses_hide_credentials_witness:
  "let live = build_live_url ''h'' 1 1 554; c = Some \<lparr>dc_username = ''a'', dc_password = ''x''\<rparr>;
       d = Some \<lparr>dc_username = ''b'', dc_password = ''y/z''\<rparr>
   in live c \<noteq> live d \<and> map_sum id redact_url (live c) = map_sum id redact_url (live d)"
proof -
  let ?c = "\<lparr>dc_username = ''a'', dc_password = ''x''\<rparr>" and ?d = "\<lparr>dc_username = ''b'', dc_password = ''y/z''\<rparr>"
  have "build_live_url ''h'' 1 1 554 (Some ?c) \<noteq> build_live_url ''h'' 1 1 554 (Some ?d)" by code_simp
  moreover have "map_sum id redact_url (build_live_url ''h'' 1 1 554 (Some ?c)) =
      map_sum id redact_url (build_live_url ''h'' 1 1 554 (Some ?d))"
    by (rule logged_addresses_hide_credentials [THEN conjunct1]) simp_all
  ultimately show ?thesis unfolding Let_def by (rule conjI)
qed

end
