(* ===== verification/Recorder.thy ===== *)
theory Recorder
  imports Redaction Streams EventParser "HOL-Library.List_Lexorder" "HOL-Library.Char_ord"
begin

text \<open>
  Reading a recorder over its CGI interface: the client
  (\<^verbatim>\<open>edge-agent/nightshift_edge/devices/dahua/cgi_client.py\<close>), identity and capabilities
  (\<^verbatim>\<open>capabilities.py\<close>), health (\<^verbatim>\<open>health.py\<close>) and snapshots
  (\<^verbatim>\<open>snapshot.py\<close>).  The recorder is what it answers to each call; a text is the body as the
  HTTP client decodes it.
\<close>

section \<open>The client\<close>

datatype dahua_error = Dahua_error string | Auth_error string | Unsupported_error string
  | Transport_error string | Snapshot_error string

fun error_text :: "dahua_error \<Rightarrow> string" where
  "error_text (Dahua_error m) = m"
| "error_text (Auth_error m) = m"
| "error_text (Unsupported_error m) = m"
| "error_text (Transport_error m) = m"
| "error_text (Snapshot_error m) = m"

record cgi_response =
  cr_status :: int
  cr_text :: string
  cr_content :: string

datatype exchange = Exchange_timeout | Exchange_failed string | Exchanged cgi_response

type_synonym params = "(string \<times> string) list"
type_synonym recorder = "string \<Rightarrow> params \<Rightarrow> exchange"

record cgi_client =
  cl_host :: string
  cl_port :: int
  cl_scheme :: string

definition base_url :: "cgi_client \<Rightarrow> string" where
  "base_url cl =
    (let default_port = (if cl_scheme cl = ''https'' then 443 else 80);
         host = (if cl_port cl = default_port then cl_host cl else cl_host cl @ '':'' @ show_int (cl_port cl))
     in cl_scheme cl @ ''://'' @ host)"

definition cgi_url :: "cgi_client \<Rightarrow> string \<Rightarrow> string" where
  "cgi_url cl path =
    (let path = dropWhile (\<lambda>c. c = CHR ''/'') path;
         path = (if take 8 path = ''cgi-bin/'' then path else ''cgi-bin/'' @ path)
     in base_url cl @ ''/'' @ path)"

definition raise_for_status :: "cgi_response \<Rightarrow> string \<Rightarrow> dahua_error + unit" where
  "raise_for_status r url =
    (let n = cr_status r; safe = redact_url url in
     if n < 400 then Inr ()
     else if n \<in> {401, 403} then Inl (Auth_error (''digest auth rejected ('' @ show_int n @ '') for '' @ safe))
     else if n \<in> {400, 404, 405, 501}
     then Inl (Unsupported_error (''endpoint unsupported ('' @ show_int n @ ''): '' @ safe))
     else Inl (Dahua_error (''unexpected status '' @ show_int n @ '' for '' @ safe)))"

definition request :: "cgi_client \<Rightarrow> recorder \<Rightarrow> string \<Rightarrow> params \<Rightarrow> dahua_error + cgi_response" where
  "request cl dev path ps =
    (let url = cgi_url cl path in
     case dev path ps of
       Exchange_timeout \<Rightarrow> Inl (Transport_error (''timeout calling '' @ redact_url url))
     | Exchange_failed e \<Rightarrow> Inl (Transport_error (''transport error calling '' @ redact_url url @ '': '' @ e))
     | Exchanged r \<Rightarrow> (case raise_for_status r url of Inl e \<Rightarrow> Inl e | Inr _ \<Rightarrow> Inr r))"

definition get_text :: "cgi_client \<Rightarrow> recorder \<Rightarrow> string \<Rightarrow> params \<Rightarrow> dahua_error + string" where
  "get_text cl dev path ps =
    (case request cl dev path ps of Inl e \<Rightarrow> Inl e
     | Inr r \<Rightarrow>
       if take 5 (lower (py_strip (cr_text r))) = ''error''
       then Inl (Unsupported_error (redact_url (cgi_url cl path) @ '' returned: '' @
              py_take 200 (py_strip (cr_text r))))
       else Inr (cr_text r))"

definition get_bytes :: "cgi_client \<Rightarrow> recorder \<Rightarrow> string \<Rightarrow> params \<Rightarrow> dahua_error + string" where
  "get_bytes cl dev path ps = (case request cl dev path ps of Inl e \<Rightarrow> Inl e | Inr r \<Rightarrow> Inr (cr_content r))"

section \<open>Lines of keys and values\<close>

text \<open>
  \<^verbatim>\<open>text.splitlines()\<close>; a line feed right after a carriage return belongs to it.  The line
  ends outside ASCII, U+0085, U+2028 and U+2029, are two and three bytes long.
\<close>

definition line_end :: "char \<Rightarrow> bool" where
  "line_end c \<longleftrightarrow> (let n = of_char c :: nat in (10 \<le> n \<and> n \<le> 13) \<or> (28 \<le> n \<and> n \<le> 30))"

definition line_end_len :: "string \<Rightarrow> nat" where
  "line_end_len s = (case s of [] \<Rightarrow> 0
     | c # _ \<Rightarrow> if line_end c then 1
               else if take 2 s = [CHR 0xC2, CHR 0x85] then 2
               else if take 3 s = [CHR 0xE2, CHR 0x80, CHR 0xA8] \<or> take 3 s = [CHR 0xE2, CHR 0x80, CHR 0xA9] then 3
               else 0)"

fun lines_from :: "bool \<Rightarrow> string \<Rightarrow> string \<Rightarrow> string list" where
  "lines_from after_cr acc [] = (if acc = [] then [] else [rev acc])"
| "lines_from after_cr acc (c # cs) =
     (if after_cr \<and> c = CHR 0x0A then lines_from False acc cs
      else if line_end_len (c # cs) = 0 then lines_from False (c # acc) cs
      else rev acc # lines_from (c = CHR 0x0D) [] (drop (line_end_len (c # cs) - 1) cs))"

definition split_lines :: "string \<Rightarrow> string list" where
  "split_lines s = lines_from False [] s"

definition read_line :: "(string, string) dict \<Rightarrow> string \<Rightarrow> (string, string) dict" where
  "read_line d line =
    (let line = py_strip line in
     if line = [] then d
     else case partition_at CHR ''='' line of (k, sep, v) \<Rightarrow>
       if sep then dict_set (py_strip k) (py_strip v) d else d)"

definition parse_kv_response :: "string \<Rightarrow> (string, string) dict" where
  "parse_kv_response text = foldl read_line [] (split_lines text)"

section \<open>Identity and capabilities\<close>

record device_identity =
  di_manufacturer :: "string option"
  di_model :: "string option"
  di_serial :: "string option"
  di_firmware :: "string option"
  di_web :: "string option"
  di_build :: "string option"
  di_type :: "string option"
  di_channels :: "nat option"
  di_http_port :: "int option"
  di_rtsp_port :: "int option"

text \<open>\<^verbatim>\<open>a or b\<close> on texts that may be missing.\<close>

definition or_text :: "string option \<Rightarrow> string option \<Rightarrow> string option" where
  "or_text a b = (case a of None \<Rightarrow> b | Some s \<Rightarrow> if s = [] then b else a)"

definition safe_text :: "cgi_client \<Rightarrow> recorder \<Rightarrow> string \<Rightarrow> params \<Rightarrow> string option" where
  "safe_text cl dev path ps = (case get_text cl dev path ps of Inl _ \<Rightarrow> None | Inr t \<Rightarrow> Some t)"

text \<open>The text of an endpoint where it is there and not empty.\<close>

definition some_text :: "cgi_client \<Rightarrow> recorder \<Rightarrow> string \<Rightarrow> params \<Rightarrow> string option" where
  "some_text cl dev path ps = or_text (safe_text cl dev path ps) None"

definition action_params :: "string \<Rightarrow> params" where
  "action_params a = [(''action'', a)]"

definition config_params :: "string \<Rightarrow> params" where
  "config_params name = [(''action'', ''getConfig''), (''name'', name)]"

text \<open>\<^verbatim>\<open>_CHANNEL_TITLE_RE\<close> at one position; matches never overlap.\<close>

definition title_here :: "string \<Rightarrow> nat option" where
  "title_here s =
    (let head = ''table.channeltitle[''; rest = drop (length head) s; ds = takeWhile is_digit rest
     in if starts_ci head s \<and> ds \<noteq> [] \<and> starts_ci ''].name'' (drop (length ds) rest)
        then Some (read_digits ds) else None)"

fun title_indices :: "string \<Rightarrow> nat list" where
  "title_indices [] = []"
| "title_indices (c # cs) = (case title_here (c # cs) of None \<Rightarrow> [] | Some i \<Rightarrow> [i]) @ title_indices cs"

definition fetch_channel_count :: "cgi_client \<Rightarrow> recorder \<Rightarrow> nat option" where
  "fetch_channel_count cl dev =
    (let indices = (case some_text cl dev ''configManager.cgi'' (config_params ''ChannelTitle'') of
           None \<Rightarrow> [] | Some t \<Rightarrow> title_indices t)
     in if indices \<noteq> [] then Some (fold max indices 0 + 1)
        else case some_text cl dev ''magicBox.cgi'' (action_params ''getProductDefinition'') of
          None \<Rightarrow> None
        | Some t \<Rightarrow> first_some (\<lambda>k. case map_of (parse_kv_response t) k of
              None \<Rightarrow> None | Some raw \<Rightarrow> if raw \<noteq> [] \<and> list_all is_digit raw then Some (read_digits raw) else None)
            [''table.ProductDefinition.MaxRemoteInputChannels'', ''MaxChannel''])"

definition fetch_channel_titles :: "cgi_client \<Rightarrow> recorder \<Rightarrow> (nat, string) dict" where
  "fetch_channel_titles cl dev =
    (case some_text cl dev ''configManager.cgi'' (config_params ''ChannelTitle'') of None \<Rightarrow> []
     | Some t \<Rightarrow> foldl (\<lambda>d (k, v). case title_indices k of
           i # _ \<Rightarrow> if v \<noteq> [] then dict_set i v d else d | [] \<Rightarrow> d) [] (parse_kv_response t))"

definition ends_with :: "string \<Rightarrow> string \<Rightarrow> bool" where
  "ends_with suffix s \<longleftrightarrow> length suffix \<le> length s \<and> drop (length s - length suffix) s = suffix"

definition fetch_rtsp_port :: "cgi_client \<Rightarrow> recorder \<Rightarrow> int option" where
  "fetch_rtsp_port cl dev =
    (case some_text cl dev ''configManager.cgi'' (config_params ''RTSP'') of None \<Rightarrow> None
     | Some t \<Rightarrow> map_option (\<lambda>(k, v). int (read_digits v))
         (find (\<lambda>(k, v). ends_with ''.port'' (lower k) \<and> v \<noteq> [] \<and> list_all is_digit v) (parse_kv_response t)))"

definition fetch_device_identity :: "cgi_client \<Rightarrow> recorder \<Rightarrow> device_identity" where
  "fetch_device_identity cl dev =
    (let magic = (\<lambda>a. map_option (\<lambda>t. map_of (parse_kv_response t)) (some_text cl dev ''magicBox.cgi'' (action_params a)));
         model = (case magic ''getDeviceType'' of None \<Rightarrow> None | Some kv \<Rightarrow> or_text (kv ''type'') (kv ''deviceType''));
         serial = (case magic ''getSerialNo'' of None \<Rightarrow> None | Some kv \<Rightarrow> kv ''sn'');
         software = magic ''getSoftwareVersion'';
         system = magic ''getSystemInfo''
     in \<lparr>di_manufacturer = or_text (case magic ''getVendor'' of None \<Rightarrow> None | Some kv \<Rightarrow> kv ''vendor'') (Some ''Dahua''),
         di_model = (case system of None \<Rightarrow> model | Some kv \<Rightarrow> or_text model (kv ''deviceType'')),
         di_serial = (case system of None \<Rightarrow> serial | Some kv \<Rightarrow> or_text serial (kv ''serialNumber'')),
         di_firmware = (case software of None \<Rightarrow> None | Some kv \<Rightarrow> kv ''version''),
         di_web = (case system of None \<Rightarrow> None | Some kv \<Rightarrow> or_text (kv ''updateSerial'') (kv ''hardwareVersion'')),
         di_build = (case software of None \<Rightarrow> None | Some kv \<Rightarrow> or_text (kv ''BuildDate'') (kv ''build'')),
         di_type = model,
         di_channels = fetch_channel_count cl dev,
         di_http_port = Some (cl_port cl),
         di_rtsp_port = fetch_rtsp_port cl dev\<rparr>)"

definition fetch_event_caps :: "cgi_client \<Rightarrow> recorder \<Rightarrow> string option" where
  "fetch_event_caps cl dev = safe_text cl dev ''eventManager.cgi'' (action_params ''getCaps'')"

text \<open>\<^verbatim>\<open>_EVENT_TOKEN_RE.findall\<close>: a letter and at least two more letters, digits or underscores.\<close>

definition token_char :: "char \<Rightarrow> bool" where
  "token_char c \<longleftrightarrow> is_letter c \<or> is_digit c \<or> c = CHR ''_''"

function tokens_in :: "string \<Rightarrow> string list" where
  "tokens_in [] = []"
| "tokens_in (c # cs) =
     (let run = takeWhile token_char cs in
      if is_letter c \<and> 2 \<le> length run then (c # run) # tokens_in (drop (length run) cs) else tokens_in cs)"
  by pat_completeness auto
termination
  by (relation "measure length") (auto simp: Let_def)

definition fetch_exposure_events :: "cgi_client \<Rightarrow> recorder \<Rightarrow> string list" where
  "fetch_exposure_events cl dev =
    (case some_text cl dev ''eventManager.cgi'' (action_params ''getExposureEvents'') of None \<Rightarrow> []
     | Some t \<Rightarrow> sort (remdups (filter
         (\<lambda>tok. lower tok \<notin> {''events'', ''result'', ''true'', ''false''})
         (concat (map (\<lambda>line. case partition_at CHR ''='' line of (k, sep, v) \<Rightarrow>
             tokens_in (if v \<noteq> [] then v else line)) (split_lines t))))))"

record device_clock =
  ck_time :: "instant option"
  ck_ntp :: "bool option"
  ck_server :: "string option"
  ck_skew :: "duration option"

definition clock_formats :: "string list" where
  "clock_formats = [''%Y-%m-%d %H:%M:%S'', ''%Y_%m_%d_%H_%M_%S'', ''%Y-%m-%dT%H:%M:%S'']"

definition read_ntp :: "bool option \<times> string option \<Rightarrow> string \<times> string \<Rightarrow> bool option \<times> string option" where
  "read_ntp s kv = (case (s, kv) of ((enabled, server), (key, v)) \<Rightarrow>
     if ends_with ''.enable'' (lower key) then (Some (lower (py_strip v) = ''true''), server)
     else if ends_with ''.address'' (lower key) then (enabled, Some v) else (enabled, server))"

text \<open>
  \<open>strptime\<close> reads a text in a format; \<open>here\<close> is the edge's own clock as a naive local time.
\<close>

definition fetch_device_clock :: "(string \<Rightarrow> string \<Rightarrow> instant option) \<Rightarrow> instant \<Rightarrow> cgi_client \<Rightarrow> recorder
    \<Rightarrow> device_clock" where
  "fetch_device_clock strptime here cl dev =
    (let moment = (case some_text cl dev ''global.cgi'' (action_params ''getCurrentTime'') of None \<Rightarrow> None
           | Some t \<Rightarrow> let raw = the (or_text (map_of (parse_kv_response t) ''result'') (Some (py_strip t)))
               in first_some (strptime (py_strip raw)) clock_formats);
         ntp = (case some_text cl dev ''configManager.cgi'' (config_params ''NTP'') of None \<Rightarrow> (None, None)
           | Some t \<Rightarrow> foldl read_ntp (None, None) (parse_kv_response t))
     in \<lparr>ck_time = moment, ck_ntp = fst ntp, ck_server = snd ntp,
         ck_skew = map_option (\<lambda>t. here - t) moment\<rparr>)"

definition fetch_storage_info :: "cgi_client \<Rightarrow> recorder \<Rightarrow> (string, string) dict" where
  "fetch_storage_info cl dev =
    (case some_text cl dev ''storageDevice.cgi'' (action_params ''getDeviceAllInfo'') of
       None \<Rightarrow> [] | Some t \<Rightarrow> parse_kv_response t)"

section \<open>Health\<close>

datatype health_state = H_OK | H_WARNING | H_FAILED | H_UNKNOWN

datatype storage_detail = Info_unavailable | Bad_state string string | Low_space rat

record storage_health =
  sh_state :: health_state
  sh_total :: "int option"
  sh_used :: "int option"
  sh_free :: "rat option"
  sh_detail :: "storage_detail option"

definition low_space_percent :: rat where
  "low_space_percent = 10"

text \<open>
  \<^verbatim>\<open>float(text)\<close>: a finite value, an infinite one, or neither (malformed text and NaN, on both of
  which \<^verbatim>\<open>int(float(text))\<close> raises the \<^verbatim>\<open>ValueError\<close> the code catches).
\<close>

datatype float_value = Finite rat | Infinite_value | No_value

datatype health_error = Overflow_error

definition trunc :: "rat \<Rightarrow> int" where
  "trunc x = (if x < 0 then - \<lfloor>- x\<rfloor> else \<lfloor>x\<rfloor>)"

definition first_int :: "(string \<Rightarrow> float_value) \<Rightarrow> (string, string) dict \<Rightarrow> string \<Rightarrow> health_error + int option" where
  "first_int read_float values suffix =
    (case find (\<lambda>(k, v). ends_with suffix k) values of None \<Rightarrow> Inr None
     | Some (k, v) \<Rightarrow> (case read_float v of Finite x \<Rightarrow> Inr (Some (trunc x)) | No_value \<Rightarrow> Inr None
         | Infinite_value \<Rightarrow> Inl Overflow_error))"

definition bad_state :: "string \<times> string \<Rightarrow> bool" where
  "bad_state kv \<longleftrightarrow> (case kv of (k, v) \<Rightarrow>
     ends_with ''.state'' (lower k) \<and> lower v \<notin> {''active'', ''normal'', ''ok''})"

definition free_of :: "int option \<Rightarrow> int option \<Rightarrow> rat option" where
  "free_of whole used = (case (whole, used) of
     (Some t, Some u) \<Rightarrow> if 0 < t then Some (round_to 2 (of_int (t - u) / of_int t * 100)) else None
   | _ \<Rightarrow> None)"

definition classify_storage :: "(string, string) dict \<Rightarrow> int option \<Rightarrow> int option \<Rightarrow> storage_health" where
  "classify_storage values whole used =
    (let failed = find bad_state values; free = free_of whole used;
         low = (failed = None \<and> (case free of None \<Rightarrow> False | Some f \<Rightarrow> f < low_space_percent))
     in \<lparr>sh_state = (if failed \<noteq> None then H_FAILED else if low then H_WARNING else H_OK),
         sh_total = whole, sh_used = used, sh_free = free,
         sh_detail = (case failed of Some (k, v) \<Rightarrow> Some (Bad_state k v)
           | None \<Rightarrow> if low then Some (Low_space (the free)) else None)\<rparr>)"

text \<open>\<^verbatim>\<open>fetch_storage_info\<close> raises no \<^verbatim>\<open>DahuaError\<close>, so the handler around it is never entered.\<close>

definition check_storage :: "(string \<Rightarrow> float_value) \<Rightarrow> cgi_client \<Rightarrow> recorder \<Rightarrow> health_error + storage_health" where
  "check_storage read_float cl dev =
    (let values = fetch_storage_info cl dev in
     if values = []
     then Inr \<lparr>sh_state = H_UNKNOWN, sh_total = None, sh_used = None, sh_free = None,
               sh_detail = Some Info_unavailable\<rparr>
     else case first_int read_float values ''.TotalBytes'' of Inl e \<Rightarrow> Inl e
       | Inr whole \<Rightarrow> (case first_int read_float values ''.UsedBytes'' of Inl e \<Rightarrow> Inl e
         | Inr used \<Rightarrow> Inr (classify_storage values whole used)))"

definition channel_state :: "(string, string) dict \<Rightarrow> nat \<Rightarrow> health_state" where
  "channel_state values i =
    (case or_text (map_of values (''result['' @ show_int (int i) @ '']''))
                  (map_of values (''channel['' @ show_int (int i) @ '']'')) of
       None \<Rightarrow> H_UNKNOWN | Some raw \<Rightarrow> if lower raw = ''true'' then H_OK else H_FAILED)"

definition check_channels :: "cgi_client \<Rightarrow> recorder \<Rightarrow> nat \<Rightarrow> (nat, health_state) dict" where
  "check_channels cl dev n =
    (case get_text cl dev ''devVideoInput.cgi'' (action_params ''getCollect'') of
       Inl _ \<Rightarrow> map (\<lambda>i. (i + 1, H_UNKNOWN)) [0..<n]
     | Inr t \<Rightarrow> map (\<lambda>i. (i + 1, channel_state (parse_kv_response t) i)) [0..<n])"

section \<open>Snapshots\<close>

record snapshot =
  sn_channel :: int
  sn_vendor :: int
  sn_content :: string

definition is_jpeg :: "string \<Rightarrow> bool" where
  "is_jpeg payload \<longleftrightarrow> 1024 \<le> length payload \<and> take 3 payload = [CHR 0xFF, CHR 0xD8, CHR 0xFF]"

definition snapshot_params :: "int \<Rightarrow> int option \<Rightarrow> params" where
  "snapshot_params channel subtype = (''channel'', show_int channel) #
     (case subtype of None \<Rightarrow> [] | Some n \<Rightarrow> [(''subtype'', show_int n)])"

text \<open>\<open>dec\<close> is \<^verbatim>\<open>decode("utf-8", "replace")\<close>.\<close>

definition fetch_snapshot :: "(string \<Rightarrow> string) \<Rightarrow> cgi_client \<Rightarrow> recorder \<Rightarrow> int \<Rightarrow> int option \<Rightarrow> int option
    \<Rightarrow> dahua_error + snapshot" where
  "fetch_snapshot dec cl dev channel logical subtype =
    (case get_bytes cl dev ''snapshot.cgi'' (snapshot_params channel subtype) of
       Inl (Unsupported_error m) \<Rightarrow> Inl (Snapshot_error (''snapshot.cgi unsupported: '' @ m))
     | Inl e \<Rightarrow> Inl e
     | Inr payload \<Rightarrow>
         if \<not> is_jpeg payload
         then Inl (Snapshot_error (''channel '' @ show_int channel @ '' returned '' @
                show_int (int (length payload)) @ '' bytes, not JPEG ('' @
                py_repr (py_strip (dec (take 64 payload))) @ '')''))
         else Inr \<lparr>sn_channel = (case logical of Some l \<Rightarrow> l | None \<Rightarrow> channel), sn_vendor = channel,
                   sn_content = payload\<rparr>)"

type_synonym attempt = "bool \<times> nat \<times> string option"

definition try_snapshot :: "(string \<Rightarrow> string) \<Rightarrow> cgi_client \<Rightarrow> recorder \<Rightarrow> int \<Rightarrow> attempt" where
  "try_snapshot dec cl dev channel =
    (case fetch_snapshot dec cl dev channel None None of
       Inl e \<Rightarrow> (False, 0, Some (error_text e))
     | Inr sn \<Rightarrow> (True, length (sn_content sn), None))"

fun detect_from :: "(int \<Rightarrow> attempt) \<Rightarrow> (int \<times> int) list \<Rightarrow> (int, attempt) dict \<Rightarrow> int option \<times> (int, attempt) dict" where
  "detect_from attempt [] tried = (None, tried)"
| "detect_from attempt ((base, channel) # cs) tried =
     (if channel < 0 then detect_from attempt cs tried
      else let r = attempt channel; tried = dict_set channel r tried
        in if fst r then (Some base, tried) else detect_from attempt cs tried)"

definition detect_snapshot_channel_base :: "(string \<Rightarrow> string) \<Rightarrow> cgi_client \<Rightarrow> recorder \<Rightarrow> int
    \<Rightarrow> int option \<times> (int, attempt) dict" where
  "detect_snapshot_channel_base dec cl dev logical =
    detect_from (try_snapshot dec cl dev) [(1, logical), (0, logical - 1)] []"

definition vendor_snapshot_channel :: "int \<Rightarrow> int \<Rightarrow> int" where
  "vendor_snapshot_channel logical base = logical - 1 + base"

section \<open>What the answers mean\<close>

lemma request_ok: "request cl dev path ps = Inr r \<longleftrightarrow> dev path ps = Exchanged r \<and> cr_status r < 400"
  by (auto simp: request_def raise_for_status_def Let_def split: exchange.splits sum.splits if_splits)

lemma text_ok: "get_text cl dev path ps = Inr t \<longleftrightarrow>
    (\<exists>r. dev path ps = Exchanged r \<and> cr_status r < 400 \<and> cr_text r = t \<and>
       take 5 (lower (py_strip t)) \<noteq> ''error'')"
proof -
  have "get_text cl dev path ps = Inr t \<longleftrightarrow>
      (\<exists>r. request cl dev path ps = Inr r \<and> cr_text r = t \<and> take 5 (lower (py_strip t)) \<noteq> ''error'')"
    by (auto simp: get_text_def split: sum.splits)
  then show ?thesis by (simp only: request_ok conj_assoc)
qed

lemma safe_text_ok: "safe_text cl dev path ps = Some t \<longleftrightarrow> get_text cl dev path ps = Inr t"
  by (simp add: safe_text_def split: sum.splits)

lemma some_text_ok: "some_text cl dev path ps = Some t \<longleftrightarrow> get_text cl dev path ps = Inr t \<and> t \<noteq> []"
  by (auto simp: some_text_def or_text_def safe_text_def split: option.splits sum.splits if_splits)

definition jpeg_at :: "recorder \<Rightarrow> int \<Rightarrow> bool" where
  "jpeg_at dev channel \<longleftrightarrow> (case dev ''snapshot.cgi'' (snapshot_params channel None) of
     Exchanged r \<Rightarrow> cr_status r < 400 \<and> is_jpeg (cr_content r) | _ \<Rightarrow> False)"

lemma bytes_ok: "get_bytes cl dev path ps = Inr c \<longleftrightarrow>
    (\<exists>r. dev path ps = Exchanged r \<and> cr_status r < 400 \<and> cr_content r = c)"
proof -
  have "get_bytes cl dev path ps = Inr c \<longleftrightarrow> (\<exists>r. request cl dev path ps = Inr r \<and> cr_content r = c)"
    by (auto simp: get_bytes_def split: sum.splits)
  then show ?thesis by (simp only: request_ok conj_assoc)
qed

lemma try_ok: "fst (try_snapshot dec cl dev channel) \<longleftrightarrow> jpeg_at dev channel"
proof -
  have "fst (try_snapshot dec cl dev channel) \<longleftrightarrow>
      (\<exists>c. get_bytes cl dev ''snapshot.cgi'' (snapshot_params channel None) = Inr c \<and> is_jpeg c)"
    by (auto simp: try_snapshot_def fetch_snapshot_def split: sum.splits dahua_error.splits)
  then show ?thesis by (auto simp: bytes_ok jpeg_at_def split: exchange.splits)
qed

lemma detected_base:
  assumes "0 \<le> logical - 1"
  shows "fst (detect_snapshot_channel_base dec cl dev logical) =
    (if jpeg_at dev logical then Some 1 else if jpeg_at dev (logical - 1) then Some 0 else None)"
  using assms by (simp add: detect_snapshot_channel_base_def try_ok Let_def)

section \<open>Round trip of the key=value format\<close>

definition crlf :: string where
  "crlf = [CHR 0x0D, CHR 0x0A]"

definition print_kv :: "(string, string) dict \<Rightarrow> string" where
  "print_kv kvs = concat (map (\<lambda>(k, v). k @ ''='' @ v @ crlf) kvs)"

fun one_line :: "string \<Rightarrow> bool" where
  "one_line [] \<longleftrightarrow> True"
| "one_line (c # cs) \<longleftrightarrow> line_end_len (c # cs) = 0 \<and> one_line cs"

definition printable :: "string \<Rightarrow> bool" where
  "printable s \<longleftrightarrow> py_strip s = s \<and> one_line s"

lemma py_strip_id: "py_strip s = s \<longleftrightarrow> s = [] \<or> \<not> is_blank (hd s) \<and> \<not> is_blank (last s)"
proof
  assume s: "py_strip s = s"
  let ?t = "dropWhile is_blank s"
  have "length (py_strip s) \<le> length ?t" by (simp add: py_strip_def) (metis length_dropWhile_le length_rev)
  with s have "length s \<le> length ?t" by simp
  then have t: "?t = s"
    using length_dropWhile_le [of is_blank "tl s"] by (cases s) (auto split: if_splits)
  then have "rev (dropWhile is_blank (rev s)) = s" using s by (simp add: py_strip_def)
  then have r: "dropWhile is_blank (rev s) = rev s" by (metis rev_rev_ident)
  show "s = [] \<or> \<not> is_blank (hd s) \<and> \<not> is_blank (last s)"
    using t r by (auto simp: dropWhile_eq_self_iff hd_rev)
next
  assume "s = [] \<or> \<not> is_blank (hd s) \<and> \<not> is_blank (last s)"
  then have "dropWhile is_blank s = s" "dropWhile is_blank (rev s) = rev s"
    by (auto simp: dropWhile_eq_self_iff hd_rev)
  then show "py_strip s = s" by (simp add: py_strip_def)
qed

lemma strip_pair:
  assumes "py_strip k = k" "py_strip v = v"
  shows "py_strip (k @ ''='' @ v) = k @ ''='' @ v"
proof -
  have e: "\<not> is_blank (CHR ''='')" by (simp add: is_blank_def)
  have "hd (k @ ''='' @ v) = (if k = [] then CHR ''='' else hd k)" by (simp add: hd_append)
  moreover have "last (k @ ''='' @ v) = (if v = [] then CHR ''='' else last v)" by simp
  ultimately have "\<not> is_blank (hd (k @ ''='' @ v)) \<and> \<not> is_blank (last (k @ ''='' @ v))"
    using e assms py_strip_id [of k] py_strip_id [of v] by presburger
  then show ?thesis using py_strip_id [of "k @ ''='' @ v"] by blast
qed

text \<open>A byte that continues no character ends any line end that was begun before it.\<close>

lemma line_end_len_append:
  assumes "\<not> continues x" and "s \<noteq> []"
  shows "line_end_len (s @ x # t) = line_end_len s"
proof -
  have x: "x \<noteq> CHR 0x85" "x \<noteq> CHR 0x80" "x \<noteq> CHR 0xA8" "x \<noteq> CHR 0xA9"
    using assms(1) by (auto simp: continues_def)
  obtain c u where s: "s = c # u" using assms(2) by (cases s) auto
  show ?thesis
  proof (cases u)
    case Nil
    with x show ?thesis by (simp add: line_end_len_def s)
  next
    case (Cons d v)
    with x show ?thesis by (cases v) (simp_all add: line_end_len_def s numeral_eq_Suc)
  qed
qed

lemma one_line_append: "\<not> continues x \<Longrightarrow> one_line s \<Longrightarrow> one_line (x # t) \<Longrightarrow> one_line (s @ x # t)"
proof (induction s)
  case (Cons c s)
  with line_end_len_append [OF Cons.prems(1), of "c # s" t] show ?case by simp
qed simp

lemma cut_line_end: "one_line s \<Longrightarrow>
    lines_from False acc (s @ crlf @ t) = (rev acc @ s) # lines_from False [] t"
proof (induction s arbitrary: acc)
  case Nil
  show ?case by (simp add: crlf_def line_end_len_def line_end_def)
next
  case (Cons c s)
  have "\<not> continues (CHR 0x0D)" by (simp add: continues_def)
  from line_end_len_append [OF this, of "c # s" "CHR 0x0A # t"] Cons
  show ?case by (simp add: crlf_def)
qed

lemma dict_set_new: "k \<notin> fst ` set d \<Longrightarrow> dict_set k v d = d @ [(k, v)]"
  by (induction k v d rule: dict_set.induct) auto

lemma read_pair:
  assumes "py_strip k = k" "py_strip v = v" "CHR ''='' \<notin> set k" "k \<notin> fst ` set d"
  shows "read_line d (k @ ''='' @ v) = d @ [(k, v)]"
proof -
  have "partition_at CHR ''='' (k @ ''='' @ v) = (k, True, v)"
    using assms(3) by (induction k) (auto simp: partition_at_def)
  then show ?thesis unfolding read_line_def strip_pair [OF assms(1,2)]
    using assms by (simp add: Let_def dict_set_new)
qed

lemma read_printed:
  assumes "\<forall>(k, v) \<in> set kvs. printable k \<and> printable v \<and> CHR ''='' \<notin> set k"
    and "distinct (map fst (d @ kvs))"
  shows "foldl read_line d (split_lines (print_kv kvs)) = d @ kvs"
  using assms
proof (induction kvs arbitrary: d)
  case Nil
  then show ?case by (simp add: print_kv_def split_lines_def)
next
  case (Cons kv kvs)
  obtain k v where kv: "kv = (k, v)" by (cases kv)
  with Cons.prems have p: "printable k" "printable v" "CHR ''='' \<notin> set k" "k \<notin> fst ` set d" by auto
  have "one_line (CHR ''='' # v)" using p(2) by (simp add: printable_def line_end_len_def line_end_def)
  then have clean: "one_line (k @ ''='' @ v)"
    using p(1) one_line_append [of "CHR ''=''" k v] by (simp add: printable_def continues_def)
  have "split_lines (print_kv (kv # kvs)) = (k @ ''='' @ v) # split_lines (print_kv kvs)"
    using cut_line_end [OF clean, of "[]" "print_kv kvs"] by (simp add: kv print_kv_def split_lines_def)
  moreover have "read_line d (k @ ''='' @ v) = d @ [(k, v)]"
    using p by (intro read_pair) (auto simp: printable_def)
  moreover have "foldl read_line (d @ [(k, v)]) (split_lines (print_kv kvs)) = (d @ [(k, v)]) @ kvs"
    using Cons.prems kv by (intro Cons.IH) auto
  ultimately show ?case by (simp add: kv)
qed

text \<open>
  C32. A recorder's answer is read back as the keys and values it was printed from, in order, when the
  keys are distinct and neither keys nor values hold line ends, outer blanks or, for keys, an equals sign.
\<close>

theorem kv_response_round_trip:
  assumes "\<forall>(k, v) \<in> set kvs. printable k \<and> printable v \<and> CHR ''='' \<notin> set k" and "distinct (map fst kvs)"
  shows "parse_kv_response (print_kv kvs) = kvs"
  using read_printed [OF assms(1), of "[]"] assms(2) by (simp add: parse_kv_response_def)

lemma kv_response_round_trip_witness:
  "parse_kv_response (print_kv [(''type'', ''XVR''), (''sn'', ''a=b'')]) = [(''type'', ''XVR''), (''sn'', ''a=b'')]"
  by (rule kv_response_round_trip) (simp_all add: printable_def py_strip_id is_blank_def line_end_len_def line_end_def)

section \<open>Nothing is assumed of a recorder\<close>

text \<open>
  The channel base of the snapshots is never a guess: where one is returned the recorder delivered a
  picture under it, the documented base wins, and none is returned only when neither delivers one.
\<close>

theorem snapshot_base_is_observed:
  assumes "1 \<le> logical" and "fst (detect_snapshot_channel_base dec cl dev logical) = base"
  shows "(\<forall>b. base = Some b \<longrightarrow> b \<in> {0, 1} \<and> jpeg_at dev (vendor_snapshot_channel logical b)) \<and>
    (base = Some 1 \<longleftrightarrow> jpeg_at dev logical) \<and>
    (base = None \<longleftrightarrow> \<not> jpeg_at dev logical \<and> \<not> jpeg_at dev (logical - 1))"
proof -
  have "base = (if jpeg_at dev logical then Some 1 else if jpeg_at dev (logical - 1) then Some 0 else None)"
    using assms detected_base [of logical dec cl dev] by simp
  then show ?thesis
    by (cases "jpeg_at dev logical"; cases "jpeg_at dev (logical - 1)") (simp_all add: vendor_snapshot_channel_def)
qed

definition zero_based :: recorder where
  "zero_based path ps = (if path = ''snapshot.cgi'' \<and> ps = [(''channel'', ''0'')]
     then Exchanged \<lparr>cr_status = 200, cr_text = [],
            cr_content = [CHR 0xFF, CHR 0xD8, CHR 0xFF] @ replicate 1021 CHR 0x20\<rparr>
     else Exchanged \<lparr>cr_status = 404, cr_text = [], cr_content = []\<rparr>)"

lemma snapshot_base_is_observed_witness:
  "let found = fst (detect_snapshot_channel_base id \<lparr>cl_host = ''10.0.0.5'', cl_port = 80, cl_scheme = ''http''\<rparr>
     zero_based 1) in found \<noteq> Some 1 \<and> found \<noteq> None"
proof -
  have one: "show_int 1 = ''1''" "show_int 0 = ''0''" by code_simp+
  have "\<not> jpeg_at zero_based 1" "jpeg_at zero_based 0"
    by (simp_all add: jpeg_at_def zero_based_def snapshot_params_def is_jpeg_def one)
  then show ?thesis
    using snapshot_base_is_observed [OF _ refl, of 1 id
        "\<lparr>cl_host = ''10.0.0.5'', cl_port = 80, cl_scheme = ''http''\<rparr>" zero_based]
    by (simp add: Let_def)
qed

text \<open>A storage reply that names no state and no sizes counts as healthy.\<close>

lemma state_ok_iff: "sh_state (classify_storage values whole used) = H_OK \<longleftrightarrow>
    (\<forall>kv \<in> set values. \<not> bad_state kv) \<and>
    (\<forall>f. free_of whole used = Some f \<longrightarrow> low_space_percent \<le> f)"
proof (cases "find bad_state values")
  case None
  then have "\<forall>kv \<in> set values. \<not> bad_state kv" unfolding find_None_iff by blast
  with None show ?thesis by (auto simp: classify_storage_def Let_def not_less split: option.splits)
next
  case (Some kv)
  then have "\<exists>kv \<in> set values. bad_state kv" by (meson find_Some_iff nth_mem)
  with Some show ?thesis by (auto simp: classify_storage_def Let_def)
qed

text \<open>
  Storage is reported healthy exactly when the recorder answered anything at all, no state it names is
  bad and the free space, where it can be computed, reaches ten percent: an answer that says
  nothing about the disks counts as healthy.
\<close>

theorem storage_ok_iff:
  "(\<exists>h. check_storage read_float cl dev = Inr h \<and> sh_state h = H_OK) \<longleftrightarrow>
    (\<exists>values whole used. fetch_storage_info cl dev = values \<and> values \<noteq> [] \<and>
      first_int read_float values ''.TotalBytes'' = Inr whole \<and>
      first_int read_float values ''.UsedBytes'' = Inr used \<and>
      \<not> (\<exists>kv \<in> set values. bad_state kv) \<and> \<not> (\<exists>f. free_of whole used = Some f \<and> f < low_space_percent))"
  by (auto simp: check_storage_def Let_def state_ok_iff not_less split: sum.splits if_splits)

end
