(* ===== verification/Probe.thy ===== *)
theory Probe
  imports Recorder
begin

text \<open>
  The onboarding probe, \<^verbatim>\<open>edge-agent/nightshift_edge/devices/dahua/probe.py\<close>, its report
  (\<^verbatim>\<open>models.py\<close>) and the adapter that uses it, \<^verbatim>\<open>adapter.py\<close>.  A run asks for
  the system information twice, so its first answer is an input of its own; every other question is
  asked once and answered by the recorder.  Notes stand for the sentences of the report.
\<close>

section \<open>The report\<close>

datatype capability = SUPPORTED | UNSUPPORTED | UNKNOWN

definition from_bool :: "bool option \<Rightarrow> capability" where
  "from_bool v = (case v of None \<Rightarrow> UNKNOWN | Some b \<Rightarrow> if b then SUPPORTED else UNSUPPORTED)"

definition is_supported :: "capability \<Rightarrow> bool" where
  "is_supported c \<longleftrightarrow> c = SUPPORTED"

record channel_result =
  cp_logical :: int
  cp_vendor :: "int option"
  cp_snapshot_ok :: bool
  cp_bytes :: nat
  cp_error :: "string option"
  cp_sub :: capability
  cp_main :: capability
  cp_codec :: pyval
  cp_resolution :: "string option"
  cp_rtsp_error :: "string option"
  cp_playback :: capability
  cp_playback_error :: "string option"

definition new_channel :: "int \<Rightarrow> channel_result" where
  "new_channel i = \<lparr>cp_logical = i, cp_vendor = None, cp_snapshot_ok = False, cp_bytes = 0, cp_error = None,
     cp_sub = UNKNOWN, cp_main = UNKNOWN, cp_codec = PNone, cp_resolution = None, cp_rtsp_error = None,
     cp_playback = UNKNOWN, cp_playback_error = None\<rparr>"

record observed_event =
  ob_code :: string
  ob_action :: string
  ob_index :: "int option"
  ob_received :: instant
  ob_payload :: "(string \<times> pyval) list"

datatype probe_note = Ffprobe_missing | Host_unreachable int string | Auth_failed string
  | System_info_missing string | Time_unread | Clock_off duration | Ntp_disabled | Caps_unsupported
  | Exposure_empty | No_snapshot string | H265_stream | Attach_failed string | Attach_silent
  | Face_detection "string list" | No_human_event | No_vehicle_event | Advertised_unseen string
  | No_indexed_event | No_trigger_event | Ambiguous_index int int | Playback_needs_ffprobe
  | No_working_channel | Playback_failed int "string option"

record probe_report =
  rp_host :: string
  rp_reachable :: capability
  rp_digest :: capability
  rp_identity :: "device_identity option"
  rp_cgi :: capability
  rp_snapshot :: capability
  rp_rtsp :: capability
  rp_playback :: capability
  rp_stream :: capability
  rp_human :: capability
  rp_vehicle :: capability
  rp_loss :: capability
  rp_blind :: capability
  rp_storage :: capability
  rp_index_base :: "int option"
  rp_snapshot_base :: "int option"
  rp_rtsp_base :: "int option"
  rp_caps :: "string option"
  rp_exposure :: "string list"
  rp_counts :: "(string, nat) dict"
  rp_observed :: "observed_event list"
  rp_channels :: "channel_result list"
  rp_ffprobe :: bool
  rp_warnings :: "probe_note list"
  rp_errors :: "probe_note list"

text \<open>The identity of a report nothing was read for has no field set; here it is \<^const>\<open>None\<close>.\<close>

definition new_report :: "string \<Rightarrow> probe_report" where
  "new_report host = \<lparr>rp_host = host, rp_reachable = UNKNOWN, rp_digest = UNKNOWN, rp_identity = None,
     rp_cgi = UNKNOWN, rp_snapshot = UNKNOWN, rp_rtsp = UNKNOWN, rp_playback = UNKNOWN, rp_stream = UNKNOWN,
     rp_human = UNKNOWN, rp_vehicle = UNKNOWN, rp_loss = UNKNOWN, rp_blind = UNKNOWN, rp_storage = UNKNOWN,
     rp_index_base = None, rp_snapshot_base = None, rp_rtsp_base = None, rp_caps = None, rp_exposure = [],
     rp_counts = [], rp_observed = [], rp_channels = [], rp_ffprobe = False, rp_warnings = [], rp_errors = []\<rparr>"

definition warn :: "probe_note \<Rightarrow> probe_report \<Rightarrow> probe_report" where
  "warn n r = (if n \<in> set (rp_warnings r) then r else r\<lparr>rp_warnings := rp_warnings r @ [n]\<rparr>)"

definition fail :: "probe_note \<Rightarrow> probe_report \<Rightarrow> probe_report" where
  "fail n r = (if n \<in> set (rp_errors r) then r else r\<lparr>rp_errors := rp_errors r @ [n]\<rparr>)"

section \<open>Options and surroundings\<close>

record probe_options =
  po_host :: string
  po_credentials :: dahua_credentials
  po_http_port :: int
  po_scheme :: string
  po_rtsp_port :: int
  po_channels :: int
  po_main_stream :: bool
  po_playback :: bool
  po_offset_minutes :: int
  po_trigger :: "int option"

text \<open>
  What a run meets: the TCP connection, the recorder, what \<^verbatim>\<open>ffprobe\<close> makes of each
  address, what \<^verbatim>\<open>collect_events\<close> collected and when, and the
  edge's local clock, read once for the recorder's clock and once for the playback test.
\<close>

record probe_world =
  pw_ffprobe :: bool
  pw_tcp :: "bool \<times> string"
  pw_greeting :: exchange
  pw_recorder :: recorder
  pw_decode :: "string \<Rightarrow> string"
  pw_strptime :: "string \<Rightarrow> string \<Rightarrow> instant option"
  pw_here :: instant
  pw_later :: instant
  pw_watch :: "string \<Rightarrow> stream_error + stream_result"
  pw_events :: "dahua_error + (raw_event \<times> instant) list"

definition client_of :: "probe_options \<Rightarrow> cgi_client" where
  "client_of po = \<lparr>cl_host = po_host po, cl_port = po_http_port po, cl_scheme = po_scheme po\<rparr>"

section \<open>Identity, clock, capabilities\<close>

definition channel_count :: "probe_options \<Rightarrow> probe_report \<Rightarrow> int" where
  "channel_count po r = (case Option.bind (rp_identity r) di_channels of
     Some n \<Rightarrow> if 0 < n then min (int n) (po_channels po) else po_channels po
   | None \<Rightarrow> po_channels po)"

definition read_identity :: "probe_world \<Rightarrow> probe_options \<Rightarrow> probe_report \<Rightarrow> probe_report" where
  "read_identity w po r =
    (let found = fetch_device_identity (client_of po) (pw_recorder w);
         port = (case di_rtsp_port found of Some p \<Rightarrow> if p = 0 then po_rtsp_port po else p | None \<Rightarrow> po_rtsp_port po)
     in r\<lparr>rp_identity := Some (found\<lparr>di_rtsp_port := Some port\<rparr>)\<rparr>)"

definition max_clock_skew :: duration where
  "max_clock_skew = 60 * second"

definition read_clock :: "probe_world \<Rightarrow> probe_options \<Rightarrow> probe_report \<Rightarrow> probe_report" where
  "read_clock w po r =
    (let clock = fetch_device_clock (pw_strptime w) (pw_here w) (client_of po) (pw_recorder w);
         r = (if ck_time clock = None then warn Time_unread r
              else case ck_skew clock of
                Some s \<Rightarrow> if max_clock_skew < \<bar>s\<bar> then fail (Clock_off s) r else r
              | None \<Rightarrow> r)
     in if ck_ntp clock = Some False then warn Ntp_disabled r else r)"

definition read_caps :: "probe_world \<Rightarrow> probe_options \<Rightarrow> probe_report \<Rightarrow> probe_report" where
  "read_caps w po r =
    (let r = r\<lparr>rp_caps := fetch_event_caps (client_of po) (pw_recorder w)\<rparr>;
         r = (if rp_caps r = None then warn Caps_unsupported r else r);
         r = r\<lparr>rp_exposure := fetch_exposure_events (client_of po) (pw_recorder w)\<rparr>
     in if rp_exposure r = [] then warn Exposure_empty r else r)"

section \<open>Snapshots and streams\<close>

definition snapshot_entry :: "(int \<Rightarrow> attempt) \<Rightarrow> (int, attempt) dict \<Rightarrow> int \<Rightarrow> int \<Rightarrow> channel_result" where
  "snapshot_entry attempt tried base i =
    (let channel = i - 1 + base;
         found = (case map_of tried channel of Some a \<Rightarrow> a | None \<Rightarrow> attempt channel)
     in (new_channel i)\<lparr>cp_vendor := Some channel, cp_snapshot_ok := fst found,
          cp_bytes := fst (snd found), cp_error := snd (snd found)\<rparr>)"

definition probe_snapshots :: "probe_world \<Rightarrow> probe_options \<Rightarrow> int \<Rightarrow> probe_report \<Rightarrow> probe_report" where
  "probe_snapshots w po n r =
    (let cl = client_of po; attempt = try_snapshot (pw_decode w) cl (pw_recorder w) in
     case detect_snapshot_channel_base (pw_decode w) cl (pw_recorder w) 1 of
       (None, tried) \<Rightarrow>
         let r = fail (No_snapshot (join_with ''; '' (concat (map (\<lambda>(c, ok, size, e).
                 case e of None \<Rightarrow> [] | Some m \<Rightarrow> if m = [] then [] else [m]) tried))))
               (r\<lparr>rp_snapshot_base := None, rp_snapshot := UNSUPPORTED\<rparr>)
         in r\<lparr>rp_channels := rp_channels r @
              map (\<lambda>i. (new_channel i)\<lparr>cp_error := Some ''base unknown''\<rparr>) [1..n]\<rparr>
     | (Some base, tried) \<Rightarrow>
         r\<lparr>rp_snapshot_base := Some base, rp_snapshot := SUPPORTED,
           rp_channels := rp_channels r @ map (snapshot_entry attempt tried base) [1..n]\<rparr>)"

text \<open>An address is never refused: its channel is at least one and its subtype 0 or 1.\<close>

definition watch_live :: "probe_world \<Rightarrow> probe_options \<Rightarrow> int \<Rightarrow> int \<Rightarrow> stream_error + stream_result" where
  "watch_live w po subtype i =
    (case build_live_url (po_host po) (vendor_rtsp_channel i 1) subtype (po_rtsp_port po) (Some (po_credentials po)) of
       Inl _ \<Rightarrow> Inl Malformed_reply | Inr url \<Rightarrow> pw_watch w url)"

definition probe_one :: "int \<Rightarrow> stream_result \<Rightarrow> channel_result \<Rightarrow> channel_result" where
  "probe_one subtype found e =
    (let e = (if subtype = 1 then e\<lparr>cp_sub := from_bool (Some (pr_ok found))\<rparr>
              else e\<lparr>cp_main := from_bool (Some (pr_ok found))\<rparr>)
     in if pr_ok found then e\<lparr>cp_codec := pr_codec found, cp_resolution := resolution found\<rparr>
        else e\<lparr>cp_rtsp_error := pr_error found\<rparr>)"

fun probe_each :: "probe_world \<Rightarrow> probe_options \<Rightarrow> int \<Rightarrow> channel_result list \<Rightarrow> stream_error + channel_result list" where
  "probe_each w po subtype [] = Inr []"
| "probe_each w po subtype (e # es) = (case watch_live w po subtype (cp_logical e) of
     Inl x \<Rightarrow> Inl x
   | Inr found \<Rightarrow> (case probe_each w po subtype es of Inl x \<Rightarrow> Inl x
       | Inr es' \<Rightarrow> Inr (probe_one subtype found e # es')))"

definition works :: "int \<Rightarrow> channel_result \<Rightarrow> bool" where
  "works subtype e \<longleftrightarrow> is_supported (if subtype = 1 then cp_sub e else cp_main e)"

definition probe_rtsp :: "probe_world \<Rightarrow> probe_options \<Rightarrow> int \<Rightarrow> int \<Rightarrow> probe_report \<Rightarrow> stream_error + probe_report" where
  "probe_rtsp w po n subtype r =
    (if \<not> rp_ffprobe r then Inr (r\<lparr>rp_rtsp := UNKNOWN\<rparr>)
     else case probe_each w po subtype (if rp_channels r = [] then map new_channel [1..n] else rp_channels r) of
       Inl x \<Rightarrow> Inl x
     | Inr es \<Rightarrow>
         let r = r\<lparr>rp_channels := es\<rparr> in
         if list_ex (works subtype) es then
           (let r = r\<lparr>rp_rtsp := SUPPORTED, rp_rtsp_base := Some 1\<rparr> in
            Inr (if list_ex (\<lambda>e. cp_codec e \<in> {PStr ''hevc'', PStr ''h265''}) es then warn H265_stream r else r))
         else Inr (if rp_rtsp r = SUPPORTED then r else r\<lparr>rp_rtsp := UNSUPPORTED\<rparr>))"

section \<open>Events\<close>

definition human_code :: string where
  "human_code = ''SmartMotionHuman''"

definition vehicle_code :: string where
  "vehicle_code = ''SmartMotionVehicle''"

definition storage_codes :: "string list" where
  "storage_codes = [''StorageNotExist'', ''StorageFailure'', ''StorageLowSpace'']"

definition observed_of :: "raw_event \<times> instant \<Rightarrow> observed_event" where
  "observed_of x = (case x of (e, t) \<Rightarrow>
     \<lparr>ob_code = re_code e, ob_action = re_action e, ob_index = re_index e, ob_received = t,
      ob_payload = (if is_blocked_code (re_code e) then [] else re_data e)\<rparr>)"

definition seen :: "string \<Rightarrow> (raw_event \<times> instant) list \<Rightarrow> bool" where
  "seen code es \<longleftrightarrow> code \<in> set (map (re_code \<circ> fst) es)"

definition tally :: "(raw_event \<times> instant) list \<Rightarrow> (string, nat) dict" where
  "tally es = (let codes = map (re_code \<circ> fst) es in
     map (\<lambda>c. (c, length (filter (\<lambda>x. x = c) codes))) (sort (remdups codes)))"

definition once_seen :: "bool \<Rightarrow> capability" where
  "once_seen b = (if b then SUPPORTED else UNKNOWN)"

definition record_events :: "(raw_event \<times> instant) list \<Rightarrow> probe_report \<Rightarrow> probe_report" where
  "record_events es r =
    (let blocked = sort (remdups (filter is_blocked_code (map (re_code \<circ> fst) es)));
         r = r\<lparr>rp_counts := tally es,
               rp_observed := take 200 (map observed_of (filter (\<lambda>x. \<not> is_heartbeat (fst x)) es))\<rparr>;
         r = (if blocked = [] then r else warn (Face_detection blocked) r);
         r = r\<lparr>rp_human := from_bool (Some (seen human_code es)), rp_vehicle := from_bool (Some (seen vehicle_code es)),
               rp_loss := once_seen (seen ''VideoLoss'' es), rp_blind := once_seen (seen ''VideoBlind'' es),
               rp_storage := once_seen (list_ex (\<lambda>c. seen c es) storage_codes)\<rparr>;
         r = (if seen human_code es then r else fail No_human_event r);
         r = (if seen vehicle_code es then r else warn No_vehicle_event r)
     in foldl (\<lambda>r c. if c \<in> {human_code, vehicle_code} \<and> \<not> seen c es then warn (Advertised_unseen c) r else r)
          r (rp_exposure r))"

definition probe_event_stream :: "probe_world \<Rightarrow> probe_report \<Rightarrow> probe_report" where
  "probe_event_stream w r =
    (case pw_events w of
       Inl e \<Rightarrow> fail (Attach_failed (error_text e)) (r\<lparr>rp_stream := UNSUPPORTED\<rparr>)
     | Inr es \<Rightarrow>
         let r = r\<lparr>rp_stream := from_bool (Some (es \<noteq> []))\<rparr>
         in if es = [] then fail Attach_silent r else record_events es r)"

definition is_smart_motion :: "observed_event \<Rightarrow> bool" where
  "is_smart_motion e \<longleftrightarrow> ob_code e = human_code \<or> ob_code e = vehicle_code"

definition indices_of :: "observed_event list \<Rightarrow> int list" where
  "indices_of es = concat (map (\<lambda>e. case ob_index e of None \<Rightarrow> [] | Some i \<Rightarrow> [i]) es)"

definition lowest :: "int list \<Rightarrow> int" where
  "lowest xs = foldl min (hd xs) xs"

definition highest :: "int list \<Rightarrow> int" where
  "highest xs = foldl max (hd xs) xs"

definition infer_index_base :: "probe_report \<Rightarrow> int list \<Rightarrow> probe_report" where
  "infer_index_base r indices =
    (let channels = (case Option.bind (rp_identity r) di_channels of None \<Rightarrow> 0 | Some n \<Rightarrow> int n)
     in if lowest indices = 0 then r\<lparr>rp_index_base := Some 0\<rparr>
        else if lowest indices = 1 \<and> channels \<le> highest indices then r\<lparr>rp_index_base := Some 1\<rparr>
        else warn (Ambiguous_index (lowest indices) (highest indices)) r)"

definition resolve_index_base :: "probe_options \<Rightarrow> probe_report \<Rightarrow> probe_report" where
  "resolve_index_base po r =
    (let indices = indices_of (rp_observed r) in
     if indices = [] then warn No_indexed_event r
     else case po_trigger po of
       None \<Rightarrow> infer_index_base r indices
     | Some trigger \<Rightarrow>
         if trigger = 0 then infer_index_base r indices
         else let motion = indices_of (filter is_smart_motion (rp_observed r)) in
           if motion \<noteq> [] then r\<lparr>rp_index_base := Some (lowest motion - (trigger - 1))\<rparr>
           else infer_index_base (warn No_trigger_event r) indices)"

section \<open>Playback and the whole run\<close>

fun update_first :: "('a \<Rightarrow> bool) \<Rightarrow> ('a \<Rightarrow> 'a) \<Rightarrow> 'a list \<Rightarrow> 'a list" where
  "update_first p f [] = []"
| "update_first p f (x # xs) = (if p x then f x # xs else x # update_first p f xs)"

definition playable :: "channel_result \<Rightarrow> bool" where
  "playable c \<longleftrightarrow> is_supported (cp_sub c) \<or> cp_snapshot_ok c"

definition watch_playback :: "probe_world \<Rightarrow> probe_options \<Rightarrow> int \<Rightarrow> stream_error + stream_result" where
  "watch_playback w po channel =
    (case build_clip_window (Naive (pw_later w - po_offset_minutes po * minute)) 10 20 None None of
       Inl _ \<Rightarrow> Inl Malformed_reply
     | Inr window \<Rightarrow>
       (case build_playback_url (po_host po) channel window (po_rtsp_port po) (Some (po_credentials po)) of
          Inl _ \<Rightarrow> Inl Malformed_reply | Inr url \<Rightarrow> pw_watch w url))"

definition probe_playback :: "probe_world \<Rightarrow> probe_options \<Rightarrow> probe_report \<Rightarrow> stream_error + probe_report" where
  "probe_playback w po r =
    (if \<not> rp_ffprobe r then Inr (warn Playback_needs_ffprobe (r\<lparr>rp_playback := UNKNOWN\<rparr>))
     else case find playable (rp_channels r) of
       None \<Rightarrow> Inr (warn No_working_channel (r\<lparr>rp_playback := UNKNOWN\<rparr>))
     | Some c \<Rightarrow>
         let base = (case rp_rtsp_base r of Some b \<Rightarrow> if b = 0 then 1 else b | None \<Rightarrow> 1) in
         case watch_playback w po (cp_logical c - 1 + base) of
           Inl x \<Rightarrow> Inl x
         | Inr found \<Rightarrow>
             let verdict = from_bool (Some (pr_ok found));
                 r = r\<lparr>rp_channels := update_first playable
                         (\<lambda>c. c\<lparr>cp_playback := verdict, cp_playback_error := pr_error found\<rparr>) (rp_channels r),
                       rp_playback := verdict\<rparr>
             in Inr (if pr_ok found then r else warn (Playback_failed (cp_logical c) (pr_error found)) r))"

definition greet :: "probe_world \<Rightarrow> probe_options \<Rightarrow> dahua_error + string" where
  "greet w po = get_text (client_of po) (\<lambda>_ _. pw_greeting w) ''magicBox.cgi'' (action_params ''getSystemInfo'')"

definition probe_streams :: "probe_world \<Rightarrow> probe_options \<Rightarrow> int \<Rightarrow> probe_report \<Rightarrow> stream_error + probe_report" where
  "probe_streams w po n r =
    (case probe_rtsp w po n 1 r of Inl x \<Rightarrow> Inl x
     | Inr r \<Rightarrow> if po_main_stream po then probe_rtsp w po n 0 r else Inr r)"

definition interrogate :: "probe_world \<Rightarrow> probe_options \<Rightarrow> probe_report \<Rightarrow> stream_error + probe_report" where
  "interrogate w po r =
    (let r = read_caps w po (read_clock w po (read_identity w po r)); n = channel_count po r in
     case probe_streams w po n (probe_snapshots w po n r) of
       Inl x \<Rightarrow> Inl x
     | Inr r \<Rightarrow>
         let r = resolve_index_base po (probe_event_stream w r)
         in if po_playback po then probe_playback w po r else Inr r)"

definition run_with_client :: "probe_world \<Rightarrow> probe_options \<Rightarrow> probe_report \<Rightarrow> stream_error + probe_report" where
  "run_with_client w po r =
    (case greet w po of
       Inr _ \<Rightarrow> interrogate w po (r\<lparr>rp_digest := SUPPORTED, rp_cgi := SUPPORTED\<rparr>)
     | Inl (Auth_error m) \<Rightarrow> Inr (fail (Auth_failed m) (r\<lparr>rp_digest := UNSUPPORTED\<rparr>))
     | Inl e \<Rightarrow> interrogate w po (warn (System_info_missing (error_text e)) (r\<lparr>rp_digest := UNKNOWN\<rparr>)))"

definition run_probe :: "probe_world \<Rightarrow> probe_options \<Rightarrow> stream_error + probe_report" where
  "run_probe w po =
    (let r = (new_report (po_host po))\<lparr>rp_ffprobe := pw_ffprobe w\<rparr>;
         r = (if pw_ffprobe w then r else warn Ffprobe_missing r);
         r = r\<lparr>rp_reachable := from_bool (Some (fst (pw_tcp w)))\<rparr>
     in if \<not> fst (pw_tcp w) then Inr (fail (Host_unreachable (po_http_port po) (snd (pw_tcp w))) r)
        else run_with_client w po r)"

section \<open>The adapter\<close>

record channel_mapping =
  mp_snapshot :: int
  mp_rtsp :: int
  mp_index :: int
  mp_overrides :: "(int \<rightharpoonup> int) option"

definition mapping_of_report :: "probe_report \<Rightarrow> channel_mapping" where
  "mapping_of_report r =
    \<lparr>mp_snapshot = (case rp_snapshot_base r of Some b \<Rightarrow> b | None \<Rightarrow> 1),
     mp_rtsp = (case rp_rtsp_base r of Some b \<Rightarrow> b | None \<Rightarrow> 1),
     mp_index = (case rp_index_base r of Some b \<Rightarrow> b | None \<Rightarrow> 0), mp_overrides = None\<rparr>"

record cgi_adapter =
  dv_host :: string
  dv_rtsp_port :: int
  dv_credentials :: dahua_credentials
  dv_mapping :: channel_mapping
  dv_client :: cgi_client

definition adapter_probe :: "probe_world \<Rightarrow> probe_options \<Rightarrow> cgi_adapter \<Rightarrow> (stream_error + probe_report) \<times> cgi_adapter" where
  "adapter_probe w po a =
    (let po = po\<lparr>po_host := dv_host a, po_credentials := dv_credentials a,
           po_http_port := cl_port (dv_client a), po_rtsp_port := dv_rtsp_port a\<rparr>
     in case run_probe w po of Inl x \<Rightarrow> (Inl x, a)
        | Inr r \<Rightarrow> (Inr r, a\<lparr>dv_mapping := mapping_of_report r\<rparr>))"

definition adapter_events :: "cgi_adapter \<Rightarrow> (raw_event \<times> instant) list \<Rightarrow> normalized_event list" where
  "adapter_events a es =
    map (\<lambda>(e, t). normalize_event (mp_index (dv_mapping a)) 1 (mp_overrides (dv_mapping a)) None t e)
      (filter (\<lambda>(e, t). \<not> is_heartbeat e \<and> \<not> is_blocked_code (re_code e)) es)"

definition adapter_snapshot :: "(string \<Rightarrow> string) \<Rightarrow> recorder \<Rightarrow> cgi_adapter \<Rightarrow> int \<Rightarrow> dahua_error + string" where
  "adapter_snapshot dec dev a logical =
    map_sum id sn_content (fetch_snapshot dec (dv_client a) dev
      (vendor_snapshot_channel logical (mp_snapshot (dv_mapping a))) (Some logical) None)"

definition adapter_live_url :: "cgi_adapter \<Rightarrow> int \<Rightarrow> bool \<Rightarrow> string + string" where
  "adapter_live_url a logical high =
    build_live_url (dv_host a) (vendor_rtsp_channel logical (mp_rtsp (dv_mapping a)))
      (quality_subtype (if high then High_quality else Low_quality)) (dv_rtsp_port a) (Some (dv_credentials a))"

definition adapter_clip_url :: "cgi_adapter \<Rightarrow> int \<Rightarrow> moment \<Rightarrow> int \<Rightarrow> int \<Rightarrow> string + string" where
  "adapter_clip_url a logical occurred before after =
    (case build_clip_window occurred before after None None of Inl e \<Rightarrow> Inl e
     | Inr w \<Rightarrow> build_playback_url (dv_host a) (vendor_rtsp_channel logical (mp_rtsp (dv_mapping a))) w
         (dv_rtsp_port a) (Some (dv_credentials a)))"

section \<open>Every verdict is backed by an observation\<close>

definition event_seen :: "probe_world \<Rightarrow> string \<Rightarrow> bool" where
  "event_seen w code \<longleftrightarrow> (case pw_events w of Inr es \<Rightarrow> seen code es | Inl _ \<Rightarrow> False)"

definition live_seen :: "probe_world \<Rightarrow> probe_options \<Rightarrow> bool" where
  "live_seen w po \<longleftrightarrow> (\<exists>subtype i found. watch_live w po subtype i = Inr found \<and> pr_ok found)"

definition playback_seen :: "probe_world \<Rightarrow> probe_options \<Rightarrow> bool" where
  "playback_seen w po \<longleftrightarrow> (\<exists>i found. watch_playback w po i = Inr found \<and> pr_ok found)"

definition backed :: "probe_world \<Rightarrow> probe_options \<Rightarrow> probe_report \<Rightarrow> bool" where
  "backed w po r \<longleftrightarrow>
    (rp_reachable r = SUPPORTED \<longrightarrow> fst (pw_tcp w)) \<and>
    (rp_digest r = SUPPORTED \<or> rp_cgi r = SUPPORTED \<longrightarrow> (\<exists>t. greet w po = Inr t)) \<and>
    (rp_snapshot r = SUPPORTED \<longrightarrow> jpeg_at (pw_recorder w) 1 \<or> jpeg_at (pw_recorder w) 0) \<and>
    (rp_rtsp r = SUPPORTED \<longrightarrow> live_seen w po) \<and>
    (rp_playback r = SUPPORTED \<longrightarrow> playback_seen w po) \<and>
    (rp_stream r = SUPPORTED \<longrightarrow> (\<exists>es. pw_events w = Inr es \<and> es \<noteq> [])) \<and>
    (rp_human r = SUPPORTED \<longrightarrow> event_seen w human_code) \<and>
    (rp_vehicle r = SUPPORTED \<longrightarrow> event_seen w vehicle_code) \<and>
    (rp_loss r = SUPPORTED \<longrightarrow> event_seen w ''VideoLoss'') \<and>
    (rp_blind r = SUPPORTED \<longrightarrow> event_seen w ''VideoBlind'') \<and>
    (rp_storage r = SUPPORTED \<longrightarrow> (\<exists>c \<in> set storage_codes. event_seen w c))"

lemma backed_notes [simp]: "backed w po (warn n r) = backed w po r" "backed w po (fail n r) = backed w po r"
  by (simp_all add: backed_def warn_def fail_def)

lemma from_bool_iff [simp]: "from_bool (Some b) = SUPPORTED \<longleftrightarrow> b" "once_seen b = SUPPORTED \<longleftrightarrow> b"
  by (simp_all add: from_bool_def once_seen_def)

lemma backed_untouched [simp]:
  "backed w po (r\<lparr>rp_identity := i\<rparr>) = backed w po r" "backed w po (r\<lparr>rp_caps := c\<rparr>) = backed w po r"
  "backed w po (r\<lparr>rp_exposure := x\<rparr>) = backed w po r" "backed w po (r\<lparr>rp_channels := cs\<rparr>) = backed w po r"
  "backed w po (r\<lparr>rp_ffprobe := f\<rparr>) = backed w po r" "backed w po (r\<lparr>rp_rtsp_base := b\<rparr>) = backed w po r"
  "backed w po (r\<lparr>rp_index_base := b\<rparr>) = backed w po r" "backed w po (r\<lparr>rp_snapshot_base := b\<rparr>) = backed w po r"
  by (simp_all add: backed_def)

lemma backed_set:
  assumes "backed w po r"
  shows "(c = SUPPORTED \<longrightarrow> fst (pw_tcp w)) \<Longrightarrow> backed w po (r\<lparr>rp_reachable := c\<rparr>)"
    and "(c = SUPPORTED \<longrightarrow> (\<exists>t. greet w po = Inr t)) \<Longrightarrow> backed w po (r\<lparr>rp_digest := c\<rparr>)"
    and "(c = SUPPORTED \<longrightarrow> (\<exists>t. greet w po = Inr t)) \<Longrightarrow> backed w po (r\<lparr>rp_cgi := c\<rparr>)"
    and "(c = SUPPORTED \<longrightarrow> jpeg_at (pw_recorder w) 1 \<or> jpeg_at (pw_recorder w) 0) \<Longrightarrow>
      backed w po (r\<lparr>rp_snapshot := c\<rparr>)"
    and "(c = SUPPORTED \<longrightarrow> live_seen w po) \<Longrightarrow> backed w po (r\<lparr>rp_rtsp := c\<rparr>)"
    and "(c = SUPPORTED \<longrightarrow> playback_seen w po) \<Longrightarrow> backed w po (r\<lparr>rp_playback := c\<rparr>)"
  using assms by (simp_all add: backed_def)

lemma backed_identity: "backed w po r \<Longrightarrow> backed w po (read_identity w po r)"
  by (simp add: read_identity_def Let_def)

lemma backed_clock: "backed w po r \<Longrightarrow> backed w po (read_clock w po r)"
  by (simp add: read_clock_def Let_def split: option.split)

lemma backed_caps: "backed w po r \<Longrightarrow> backed w po (read_caps w po r)"
  by (simp add: read_caps_def Let_def)

lemma backed_snapshots:
  assumes "backed w po r"
  shows "backed w po (probe_snapshots w po n r)"
proof -
  obtain base tried where d: "detect_snapshot_channel_base (pw_decode w) (client_of po) (pw_recorder w) 1 = (base, tried)"
    by (cases "detect_snapshot_channel_base (pw_decode w) (client_of po) (pw_recorder w) 1")
  have j: "base \<noteq> None \<Longrightarrow> jpeg_at (pw_recorder w) 1 \<or> jpeg_at (pw_recorder w) 0"
    using detected_base [of 1 "pw_decode w" "client_of po" "pw_recorder w"] d by (simp split: if_splits)
  show ?thesis
  proof (cases base)
    case None
    with assms show ?thesis by (simp add: probe_snapshots_def d Let_def backed_set)
  next
    case (Some b)
    with assms j show ?thesis by (simp add: probe_snapshots_def d Let_def backed_set)
  qed
qed

lemma watched_each:
  assumes "probe_each w po subtype es = Inr es'" "e \<in> set es'" "works subtype e"
  shows "live_seen w po"
  using assms
proof (induction es arbitrary: es')
  case (Cons x xs)
  then obtain found ys where run: "watch_live w po subtype (cp_logical x) = Inr found"
      "probe_each w po subtype xs = Inr ys" "es' = probe_one subtype found x # ys"
    by (auto split: sum.splits)
  show ?case
  proof (cases "e \<in> set ys")
    case True
    with run(2) Cons.prems(3) show ?thesis by (intro Cons.IH)
  next
    case False
    with Cons.prems run(3) have "works subtype (probe_one subtype found x)" by auto
    then have "pr_ok found"
      by (auto simp: works_def is_supported_def probe_one_def Let_def split: if_splits)
    with run(1) show ?thesis by (auto simp: live_seen_def)
  qed
qed simp

lemma backed_rtsp:
  assumes "backed w po r" "probe_rtsp w po n subtype r = Inr r'"
  shows "backed w po r'"
proof (cases "rp_ffprobe r")
  case False
  with assms show ?thesis by (auto simp: probe_rtsp_def backed_set)
next
  case True
  with assms(2) obtain es where es: "probe_each w po subtype
      (if rp_channels r = [] then map new_channel [1..n] else rp_channels r) = Inr es"
    by (auto simp: probe_rtsp_def split: sum.splits)
  show ?thesis
  proof (cases "list_ex (works subtype) es")
    case live: True
    then have "live_seen w po" using watched_each [OF es] by (auto simp: list_ex_iff)
    then have "backed w po (r\<lparr>rp_channels := es, rp_rtsp := SUPPORTED, rp_rtsp_base := Some 1\<rparr>)"
      using assms(1) by (simp add: backed_set)
    with live True es assms(2) show ?thesis by (auto simp: probe_rtsp_def Let_def split: if_splits)
  next
    case False
    with True es assms show ?thesis by (auto simp: probe_rtsp_def Let_def backed_set split: if_splits)
  qed
qed

lemma backed_advertised: "backed w po r \<Longrightarrow>
    backed w po (foldl (\<lambda>r c. if P c then warn (f c) r else r) r cs)"
  by (induction cs arbitrary: r) simp_all

lemma backed_events:
  assumes "backed w po r"
  shows "backed w po (probe_event_stream w r)"
proof (cases "pw_events w")
  case (Inl e)
  with assms show ?thesis by (simp add: probe_event_stream_def backed_def fail_def)
next
  case (Inr es)
  have seen: "event_seen w c = seen c es" for c by (simp add: event_seen_def Inr)
  show ?thesis
  proof (cases "es = []")
    case True
    with Inr assms show ?thesis by (simp add: probe_event_stream_def Let_def) (simp add: backed_def)
  next
    case False
    let ?r = "r\<lparr>rp_stream := from_bool (Some True)\<rparr>"
    have "backed w po ?r" using assms False Inr by (simp add: backed_def)
    then have "backed w po (record_events es ?r)"
      unfolding record_events_def Let_def
      by (intro backed_advertised) (simp add: backed_def seen warn_def fail_def list_ex_iff)
    with Inr False show ?thesis by (simp add: probe_event_stream_def)
  qed
qed

lemma backed_index: "backed w po r \<Longrightarrow> backed w po (resolve_index_base po r)"
  by (simp add: resolve_index_base_def infer_index_base_def Let_def split: option.split)

lemma backed_playback:
  assumes "backed w po r" "probe_playback w po r = Inr r'"
  shows "backed w po r'"
proof (cases "rp_ffprobe r \<and> find playable (rp_channels r) \<noteq> None")
  case False
  have "backed w po (r\<lparr>rp_playback := UNKNOWN\<rparr>)" using assms(1) by (simp add: backed_set)
  moreover have "r' \<in> {warn Playback_needs_ffprobe (r\<lparr>rp_playback := UNKNOWN\<rparr>),
      warn No_working_channel (r\<lparr>rp_playback := UNKNOWN\<rparr>)}"
    using assms(2) False by (cases "rp_ffprobe r") (simp_all add: probe_playback_def)
  ultimately show ?thesis by auto
next
  case True
  then obtain c where c: "find playable (rp_channels r) = Some c" by auto
  define i where "i = cp_logical c - 1 + (case rp_rtsp_base r of Some b \<Rightarrow> if b = 0 then 1 else b | None \<Rightarrow> 1)"
  obtain found where found: "watch_playback w po i = Inr found"
    using assms(2) True c by (auto simp: probe_playback_def i_def [symmetric] Let_def split: sum.splits)
  then have "pr_ok found \<Longrightarrow> playback_seen w po" by (auto simp: playback_seen_def)
  then have "backed w po (r\<lparr>rp_channels := cs, rp_playback := from_bool (Some (pr_ok found))\<rparr>)" for cs
    using assms(1) by (simp add: backed_set)
  with assms(2) True c found show ?thesis
    by (auto simp: probe_playback_def i_def [symmetric] Let_def split: if_splits)
qed

lemma backed_interrogate:
  assumes "backed w po r" "interrogate w po r = Inr r'"
  shows "backed w po r'"
proof -
  let ?r = "read_caps w po (read_clock w po (read_identity w po r))"
  have start: "backed w po (probe_snapshots w po (channel_count po ?r) ?r)"
    using assms(1) by (intro backed_snapshots backed_caps backed_clock backed_identity)
  obtain s where s: "probe_streams w po (channel_count po ?r) (probe_snapshots w po (channel_count po ?r) ?r) = Inr s"
      "(if po_playback po then probe_playback w po (resolve_index_base po (probe_event_stream w s))
        else Inr (resolve_index_base po (probe_event_stream w s))) = Inr r'"
    using assms(2) by (auto simp: interrogate_def Let_def split: sum.splits)
  have "backed w po s"
    using s(1) start by (auto simp: probe_streams_def intro: backed_rtsp split: sum.splits if_splits)
  then have "backed w po (resolve_index_base po (probe_event_stream w s))"
    by (intro backed_index backed_events)
  with s(2) show ?thesis by (auto intro: backed_playback split: if_splits)
qed

lemma notes_view [simp]:
  "rp_observed (warn n r) = rp_observed r" "rp_observed (fail n r) = rp_observed r"
  "rp_index_base (warn n r) = rp_index_base r" "rp_index_base (fail n r) = rp_index_base r"
  by (simp_all add: warn_def fail_def)

lemma run_cases:
  assumes "run_probe w po = Inr r"
  obtains (refused) "rp_observed r = []" "rp_index_base r = None" "backed w po r"
      "\<not> fst (pw_tcp w) \<or> (\<exists>m. greet w po = Inl (Auth_error m))"
  | (asked) r0 where "backed w po r0" "rp_observed r0 = []" "rp_index_base r0 = None" "interrogate w po r0 = Inr r"
proof -
  let ?r = "(if pw_ffprobe w then (new_report (po_host po))\<lparr>rp_ffprobe := pw_ffprobe w\<rparr>
     else warn Ffprobe_missing ((new_report (po_host po))\<lparr>rp_ffprobe := pw_ffprobe w\<rparr>))
       \<lparr>rp_reachable := from_bool (Some (fst (pw_tcp w)))\<rparr>"
  have "backed w po (new_report (po_host po))" by (simp add: backed_def new_report_def)
  then have b: "backed w po ?r" by (simp add: backed_set)
  have v: "rp_observed ?r = []" "rp_index_base ?r = None" by (simp_all add: new_report_def warn_def)
  show thesis
  proof (cases "fst (pw_tcp w)")
    case False
    with assms b v show thesis by (intro refused) (auto simp: run_probe_def Let_def)
  next
    case True
    then have run: "run_with_client w po ?r = Inr r" using assms by (simp add: run_probe_def Let_def)
    show thesis
    proof (cases "greet w po")
      case (Inr t)
      let ?s = "?r\<lparr>rp_digest := SUPPORTED, rp_cgi := SUPPORTED\<rparr>"
      have "backed w po ?s" using b Inr by (simp add: backed_set)
      moreover have "rp_observed ?s = []" "rp_index_base ?s = None" using v by simp_all
      ultimately show thesis using run Inr by (intro asked) (simp_all add: run_with_client_def)
    next
      case (Inl e)
      show thesis
      proof (cases "\<exists>m. e = Auth_error m")
        case True
        with Inl run b v show thesis by (intro refused) (auto simp: run_with_client_def backed_set)
      next
        case False
        let ?s = "warn (System_info_missing (error_text e)) (?r\<lparr>rp_digest := UNKNOWN\<rparr>)"
        have "interrogate w po ?s = Inr r"
          using False Inl run by (cases e) (simp_all add: run_with_client_def)
        moreover have "backed w po (?r\<lparr>rp_digest := UNKNOWN\<rparr>)" using b by (simp add: backed_set)
        moreover have "rp_observed ?s = []" "rp_index_base ?s = None" using v by simp_all
        ultimately show thesis by (intro asked) simp_all
      qed
    qed
  qed
qed

text \<open>
  C28. A report calls nothing supported that was not observed: the recorder answered, it delivered a
  picture, \<^verbatim>\<open>ffprobe\<close> decoded a live stream or a recording, the attach stream delivered
  something, and each event kind arrived.
\<close>

theorem supported_only_when_observed:
  assumes "run_probe w po = Inr r"
  shows "(rp_reachable r = SUPPORTED \<longrightarrow> fst (pw_tcp w)) \<and>
    (rp_digest r = SUPPORTED \<or> rp_cgi r = SUPPORTED \<longrightarrow> (\<exists>t. greet w po = Inr t)) \<and>
    (rp_snapshot r = SUPPORTED \<longrightarrow> jpeg_at (pw_recorder w) 1 \<or> jpeg_at (pw_recorder w) 0) \<and>
    (rp_rtsp r = SUPPORTED \<longrightarrow> live_seen w po) \<and>
    (rp_playback r = SUPPORTED \<longrightarrow> playback_seen w po) \<and>
    (rp_stream r = SUPPORTED \<longrightarrow> (\<exists>es. pw_events w = Inr es \<and> es \<noteq> [])) \<and>
    (rp_human r = SUPPORTED \<longrightarrow> event_seen w human_code) \<and>
    (rp_vehicle r = SUPPORTED \<longrightarrow> event_seen w vehicle_code) \<and>
    (rp_loss r = SUPPORTED \<longrightarrow> event_seen w ''VideoLoss'') \<and>
    (rp_blind r = SUPPORTED \<longrightarrow> event_seen w ''VideoBlind'') \<and>
    (rp_storage r = SUPPORTED \<longrightarrow> (\<exists>c \<in> set storage_codes. event_seen w c))"
proof -
  have "backed w po r" using assms by (cases rule: run_cases) (auto intro: backed_interrogate)
  then show ?thesis unfolding backed_def .
qed

section \<open>What the report shows of the events\<close>

lemma reading_view [simp]:
  "rp_observed (read_identity w po r) = rp_observed r" "rp_index_base (read_identity w po r) = rp_index_base r"
  "rp_observed (read_clock w po r) = rp_observed r" "rp_index_base (read_clock w po r) = rp_index_base r"
  "rp_observed (read_caps w po r) = rp_observed r" "rp_index_base (read_caps w po r) = rp_index_base r"
  by (simp_all add: read_identity_def read_clock_def read_caps_def Let_def split: option.split)

lemma snapshots_view [simp]:
  "rp_observed (probe_snapshots w po n r) = rp_observed r"
  "rp_index_base (probe_snapshots w po n r) = rp_index_base r"
  by (simp_all add: probe_snapshots_def Let_def split: prod.split option.split)

lemma rtsp_view: "probe_rtsp w po n subtype r = Inr r' \<Longrightarrow>
    rp_observed r' = rp_observed r \<and> rp_index_base r' = rp_index_base r"
  by (auto simp: probe_rtsp_def Let_def split: if_splits sum.splits)

lemma playback_view: "probe_playback w po r = Inr r' \<Longrightarrow>
    rp_observed r' = rp_observed r \<and> rp_index_base r' = rp_index_base r"
  by (auto simp: probe_playback_def Let_def split: if_splits sum.splits option.splits)

lemma interrogate_view:
  assumes "interrogate w po r = Inr r'" "rp_observed r = []" "rp_index_base r = None"
  obtains s where "rp_observed s = []" "rp_index_base s = None"
    "rp_observed r' = rp_observed (resolve_index_base po (probe_event_stream w s))"
    "rp_index_base r' = rp_index_base (resolve_index_base po (probe_event_stream w s))"
proof -
  let ?r = "read_caps w po (read_clock w po (read_identity w po r))"
  obtain s where s: "probe_streams w po (channel_count po ?r) (probe_snapshots w po (channel_count po ?r) ?r) = Inr s"
      "(if po_playback po then probe_playback w po (resolve_index_base po (probe_event_stream w s))
        else Inr (resolve_index_base po (probe_event_stream w s))) = Inr r'"
    using assms(1) by (auto simp: interrogate_def Let_def split: sum.splits)
  have "rp_observed s = [] \<and> rp_index_base s = None"
    using s(1) assms(2,3)
    by (auto simp: probe_streams_def dest!: rtsp_view split: sum.splits if_splits)
  moreover have "rp_observed r' = rp_observed (resolve_index_base po (probe_event_stream w s)) \<and>
      rp_index_base r' = rp_index_base (resolve_index_base po (probe_event_stream w s))"
    using s(2) by (auto dest: playback_view split: if_splits)
  ultimately show thesis using that by blast
qed

lemma advertised_view: "rp_observed (foldl (\<lambda>r c. if P c then warn (f c) r else r) r cs) = rp_observed r"
  by (induction cs arbitrary: r) simp_all

lemma observed_events: "rp_observed s = [] \<Longrightarrow> rp_observed (probe_event_stream w s) =
    (case pw_events w of Inl _ \<Rightarrow> []
     | Inr es \<Rightarrow> take 200 (map observed_of (filter (\<lambda>x. \<not> is_heartbeat (fst x)) es)))"
  by (simp add: probe_event_stream_def record_events_def Let_def advertised_view split: sum.split)

lemma index_view [simp]: "rp_observed (resolve_index_base po r) = rp_observed r"
  by (simp add: resolve_index_base_def infer_index_base_def Let_def split: option.split)

lemma observed_shape:
  assumes "run_probe w po = Inr r" "e \<in> set (rp_observed r)"
  shows "\<exists>es x. pw_events w = Inr es \<and> x \<in> set es \<and> \<not> is_heartbeat (fst x) \<and> e = observed_of x"
  using assms(1)
proof (cases rule: run_cases)
  case refused
  with assms(2) show ?thesis by simp
next
  case (asked r0)
  from asked(4,2,3) obtain s where "rp_observed s = []"
      "rp_observed r = rp_observed (resolve_index_base po (probe_event_stream w s))"
    by (rule interrogate_view)
  with assms(2) have "e \<in> set (rp_observed (probe_event_stream w s))" by simp
  with \<open>rp_observed s = []\<close> obtain es where es: "pw_events w = Inr es"
      "e \<in> set (take 200 (map observed_of (filter (\<lambda>x. \<not> is_heartbeat (fst x)) es)))"
    by (cases "pw_events w") (simp_all add: observed_events)
  from in_set_takeD [OF es(2)] obtain x where "x \<in> set es" "\<not> is_heartbeat (fst x)" "e = observed_of x"
    by auto
  with es(1) show ?thesis by blast
qed

lemma observed_when_greeted:
  assumes "run_probe w po = Inr r" "fst (pw_tcp w)" "greet w po = Inr t" "pw_events w = Inr es"
  shows "rp_observed r = take 200 (map observed_of (filter (\<lambda>x. \<not> is_heartbeat (fst x)) es))"
  using assms(1)
proof (cases rule: run_cases)
  case refused
  with assms(2,3) show ?thesis by simp
next
  case (asked r0)
  from asked(4,2,3) obtain s where "rp_observed s = []"
      "rp_observed r = rp_observed (resolve_index_base po (probe_event_stream w s))"
    by (rule interrogate_view)
  then show ?thesis by (simp add: observed_events assms(4))
qed

text \<open>Without \<^verbatim>\<open>ffprobe\<close> nothing is watched, and the probe always ends with a report.\<close>

lemma unwatched_probe_reports:
  assumes "\<not> pw_ffprobe w"
  shows "\<exists>r. run_probe w po = Inr r"
proof -
  have f [simp]: "rp_ffprobe (warn n r) = rp_ffprobe r" "rp_ffprobe (fail n r) = rp_ffprobe r" for n r
    by (simp_all add: warn_def fail_def)
  have adv: "rp_ffprobe (foldl (\<lambda>r c. if P c then warn (g c) r else r) r cs) = rp_ffprobe r" for P g r cs
    by (induction cs arbitrary: r) simp_all
  have [simp]: "rp_ffprobe (read_identity w po r) = rp_ffprobe r" "rp_ffprobe (read_clock w po r) = rp_ffprobe r"
      "rp_ffprobe (read_caps w po r) = rp_ffprobe r" "rp_ffprobe (probe_snapshots w po n r) = rp_ffprobe r"
      "rp_ffprobe (resolve_index_base po r) = rp_ffprobe r" "rp_ffprobe (probe_event_stream w r) = rp_ffprobe r" for r n
    by (simp_all add: read_identity_def read_clock_def read_caps_def probe_snapshots_def resolve_index_base_def
        infer_index_base_def probe_event_stream_def record_events_def adv Let_def
        split: option.split prod.split sum.split)
  have "\<exists>r'. interrogate w po r = Inr r'" if "\<not> rp_ffprobe r" for r
    using that by (simp add: interrogate_def Let_def probe_streams_def probe_rtsp_def probe_playback_def)
  then show ?thesis
    using assms by (simp add: run_probe_def run_with_client_def Let_def new_report_def split: sum.split dahua_error.split)
qed

text \<open>
  C30. No report holds a face: of a blocked event it keeps code, action, channel and time and none of
  the payload, and each event it lists is one that arrived and no heartbeat.
\<close>

theorem report_holds_no_face:
  assumes "run_probe w po = Inr r" "e \<in> set (rp_observed r)"
  shows "(is_blocked_code (ob_code e) \<longrightarrow> ob_payload e = []) \<and>
    (\<exists>es x. pw_events w = Inr es \<and> x \<in> set es \<and> \<not> is_heartbeat (fst x) \<and> re_code (fst x) = ob_code e \<and>
       re_index (fst x) = ob_index e \<and> snd x = ob_received e)"
proof -
  from observed_shape [OF assms] obtain es x where
    x: "pw_events w = Inr es" "x \<in> set es" "\<not> is_heartbeat (fst x)" "e = observed_of x" by blast
  then have "is_blocked_code (ob_code e) \<longrightarrow> ob_payload e = []" "re_code (fst x) = ob_code e"
      "re_index (fst x) = ob_index e" "snd x = ob_received e"
    by (cases x; simp add: observed_of_def)+
  with x(1,2,3) show ?thesis by blast
qed

section \<open>Channels of the events\<close>

lemma lowest_le: "x \<in> set xs \<Longrightarrow> lowest xs \<le> x"
proof -
  have "foldl min a xs \<le> a \<and> (\<forall>x \<in> set xs. foldl min a xs \<le> x)" for a
  proof (induction xs arbitrary: a)
    case (Cons x xs)
    from this [of "min a x"] show ?case by auto
  qed simp
  then show "x \<in> set xs \<Longrightarrow> lowest xs \<le> x" by (simp add: lowest_def)
qed

lemma lowest_in: "xs \<noteq> [] \<Longrightarrow> lowest xs \<in> set xs"
proof -
  have "foldl min a xs \<in> insert a (set xs)" for a
  proof (induction xs arbitrary: a)
    case (Cons x xs)
    from this [of "min a x"] show ?case by (auto simp: min_def split: if_splits)
  qed simp
  from this [of "hd xs"] show "xs \<noteq> [] \<Longrightarrow> lowest xs \<in> set xs" by (auto simp: lowest_def)
qed

lemma in_indices: "i \<in> set (indices_of es) \<longleftrightarrow> (\<exists>e \<in> set es. ob_index e = Some i)"
  by (force simp: indices_of_def split: option.splits)

lemma index_base_pinned:
  assumes "run_probe w po = Inr r" "po_trigger po = Some t" "t \<noteq> 0"
    and "indices_of (filter is_smart_motion (rp_observed r)) \<noteq> []"
  shows "rp_index_base r = Some (lowest (indices_of (filter is_smart_motion (rp_observed r))) - (t - 1))"
  using assms(1)
proof (cases rule: run_cases)
  case refused
  with assms(4) show ?thesis by (simp add: indices_of_def)
next
  case (asked r0)
  from asked(4,2,3) obtain s where s: "rp_observed r = rp_observed (resolve_index_base po (probe_event_stream w s))"
      "rp_index_base r = rp_index_base (resolve_index_base po (probe_event_stream w s))"
    by (rule interrogate_view)
  let ?r = "probe_event_stream w s"
  have o: "rp_observed r = rp_observed ?r" using s(1) by simp
  obtain i where "i \<in> set (indices_of (filter is_smart_motion (rp_observed ?r)))"
    using assms(4) unfolding o by (cases "indices_of (filter is_smart_motion (rp_observed ?r))") auto
  then have "i \<in> set (indices_of (rp_observed ?r))" by (auto simp: in_indices)
  then have "indices_of (rp_observed ?r) \<noteq> []" by auto
  with s(2) assms(2-4) o show ?thesis by (simp add: resolve_index_base_def Let_def)
qed

text \<open>
  C29. After a probe with a trigger channel, the lowest channel index on which motion was reported is the
  trigger channel, for every event the adapter hands on; any other index keeps its distance to it.  So the
  mapping is right exactly when no camera below the trigger channel saw motion during the probe.
\<close>

theorem trigger_pins_the_lowest_index:
  assumes "run_probe w po = Inr r" "po_trigger po = Some t" "t \<noteq> 0"
    and "motion = indices_of (filter is_smart_motion (rp_observed r))" "motion \<noteq> []"
    and "m = mapping_of_report r" "re_index e = Some i"
  shows "ne_channel (normalize_event (mp_index m) 1 (mp_overrides m) None received e) = Some (t + (i - lowest motion)) \<and>
    lowest motion \<in> set motion \<and> (\<forall>j \<in> set motion. lowest motion \<le> j)"
proof -
  have "rp_index_base r = Some (lowest motion - (t - 1))"
    using index_base_pinned [OF assms(1-3)] assms(4,5) by simp
  then have "ne_channel (normalize_event (mp_index m) 1 (mp_overrides m) None received e) = Some (t + (i - lowest motion))"
    using assms(6,7) by (simp add: mapping_of_report_def normalize_event_def logical_of_def Let_def)
  with assms(5) show ?thesis by (simp add: lowest_in lowest_le)
qed

text \<open>
  The adapter asks for the wrong recording of an event that carries a time zone: it gives no zone of
  the recorder, so the window it asks for starts at the event's own wall clock and not at the recorder's,
  off by the difference of the two offsets.
\<close>

theorem clip_is_off_by_the_zone:
  assumes "build_clip_window (Aware tm offset) before after None None = Inr asked"
    and "build_clip_window (Aware tm offset) before after (Some zone) None = Inr wanted"
  shows "cw_start wanted - cw_start asked = zone tm - offset \<and> cw_end wanted - cw_end asked = zone tm - offset \<and>
    adapter_clip_url a logical (Aware tm offset) before after =
      build_playback_url (dv_host a) (vendor_rtsp_channel logical (mp_rtsp (dv_mapping a))) asked
        (dv_rtsp_port a) (Some (dv_credentials a))"
  using assms by (auto simp: adapter_clip_url_def build_clip_window_def device_local_def Let_def split: if_splits)

section \<open>One evening\<close>

definition plain_event :: "string \<Rightarrow> int \<Rightarrow> raw_event" where
  "plain_event code i = \<lparr>re_code = code, re_action = ''Start'', re_index = Some i,
     re_data = [(''Face'', PStr ''x'')], re_raw = [], re_headers = []\<rparr>"

text \<open>A recorder that greets and answers nothing else; motion on channel index 2, and a face.\<close>

definition evening :: probe_world where
  "evening = \<lparr>pw_ffprobe = False, pw_tcp = (True, ''open''),
     pw_greeting = Exchanged \<lparr>cr_status = 200, cr_text = ''ok'', cr_content = []\<rparr>,
     pw_recorder = (\<lambda>_ _. Exchange_timeout), pw_decode = id, pw_strptime = (\<lambda>_ _. None), pw_here = 0,
     pw_later = 0, pw_watch = (\<lambda>_. Inl Malformed_reply),
     pw_events = Inr [(plain_event human_code 2, 7), (plain_event ''FaceDetection'' 1, 8)]\<rparr>"

definition evening_options :: probe_options where
  "evening_options = \<lparr>po_host = ''10.0.0.5'', po_credentials = \<lparr>dc_username = ''a'', dc_password = ''b''\<rparr>,
     po_http_port = 80, po_scheme = ''http'', po_rtsp_port = 554, po_channels = 8, po_main_stream = False,
     po_playback = True, po_offset_minutes = 5, po_trigger = Some 3\<rparr>"

lemma evening_report:
  obtains r where "run_probe evening evening_options = Inr r"
    "rp_observed r = [observed_of (plain_event human_code 2, 7), observed_of (plain_event ''FaceDetection'' 1, 8)]"
proof -
  obtain r where run: "run_probe evening evening_options = Inr r"
    using unwatched_probe_reports [of evening] by (auto simp: evening_def)
  have ok: "take 5 (lower (py_strip ''ok'')) \<noteq> ''error''" by code_simp
  have "greet evening evening_options = Inr ''ok''"
    unfolding greet_def text_ok using ok by (simp add: evening_def)
  then have "rp_observed r = take 200 (map observed_of (filter (\<lambda>x. \<not> is_heartbeat (fst x))
      [(plain_event human_code 2, 7), (plain_event ''FaceDetection'' 1, 8)]))"
    by (intro observed_when_greeted [OF run]) (simp_all add: evening_def)
  moreover have "\<not> is_heartbeat (plain_event human_code 2)" "\<not> is_heartbeat (plain_event ''FaceDetection'' 1)"
    by code_simp+
  ultimately show thesis using run that by simp
qed

lemma supported_only_when_observed_witness:
  "\<exists>r. run_probe evening evening_options = Inr r \<and> rp_rtsp r \<noteq> SUPPORTED \<and> rp_vehicle r \<noteq> SUPPORTED"
proof -
  obtain r where run: "run_probe evening evening_options = Inr r" by (rule evening_report)
  have "\<not> live_seen evening evening_options"
    by (auto simp: live_seen_def watch_live_def evening_def split: sum.splits)
  moreover have "\<not> event_seen evening vehicle_code"
    by (simp add: event_seen_def evening_def seen_def plain_event_def human_code_def vehicle_code_def)
  ultimately show ?thesis using run supported_only_when_observed [OF run] by blast
qed

lemma report_holds_no_face_witness:
  "\<exists>r e. run_probe evening evening_options = Inr r \<and> e \<in> set (rp_observed r) \<and>
    ob_code e = ''FaceDetection'' \<and> ob_payload e = []"
proof -
  obtain r where run: "run_probe evening evening_options = Inr r"
    and all: "rp_observed r = [observed_of (plain_event human_code 2, 7), observed_of (plain_event ''FaceDetection'' 1, 8)]"
    by (rule evening_report)
  let ?e = "observed_of (plain_event ''FaceDetection'' 1, 8)"
  have e: "?e \<in> set (rp_observed r)" by (simp add: all)
  have "ob_code ?e = ''FaceDetection''" by (simp add: observed_of_def plain_event_def)
  moreover have "is_blocked_code ''FaceDetection''" by (simp add: is_blocked_code_def blocked_event_codes_def)
  ultimately show ?thesis using report_holds_no_face [OF run e] run e by auto
qed

lemma trigger_pins_the_lowest_index_witness:
  "\<exists>r m. run_probe evening evening_options = Inr r \<and> m = mapping_of_report r \<and>
    ne_channel (normalize_event (mp_index m) 1 (mp_overrides m) None 9 (plain_event human_code 2)) = Some 3"
proof -
  obtain r where run: "run_probe evening evening_options = Inr r"
    and all: "rp_observed r = [observed_of (plain_event human_code 2, 7), observed_of (plain_event ''FaceDetection'' 1, 8)]"
    by (rule evening_report)
  have m: "[2] = indices_of (filter is_smart_motion (rp_observed r))"
    by (simp add: all indices_of_def is_smart_motion_def observed_of_def plain_event_def human_code_def vehicle_code_def)
  have "ne_channel (normalize_event (mp_index (mapping_of_report r)) 1 (mp_overrides (mapping_of_report r)) None 9
      (plain_event human_code 2)) = Some (3 + (2 - lowest [2]))"
    by (rule trigger_pins_the_lowest_index [OF run _ _ m _ refl, THEN conjunct1])
      (simp_all add: evening_options_def plain_event_def)
  with run show ?thesis by (auto simp: lowest_def)
qed

lemma clip_is_off_by_the_zone_witness:
  "\<exists>asked wanted. build_clip_window (Aware 0 0) 10 20 None None = Inr asked \<and>
    build_clip_window (Aware 0 0) 10 20 (Some (\<lambda>_. 3 * hour)) None = Inr wanted \<and>
    cw_start wanted - cw_start asked = 3 * hour"
proof -
  obtain asked wanted where w: "build_clip_window (Aware 0 0) 10 20 None None = Inr asked"
      "build_clip_window (Aware 0 0) 10 20 (Some (\<lambda>_. 3 * hour)) None = Inr wanted"
    by (simp add: build_clip_window_def Let_def)
  from clip_is_off_by_the_zone [OF w] w show ?thesis by auto
qed

end
