(* ===== verification/PushProviders.thy ===== *)
theory PushProviders
  imports Transport
begin

text \<open>
  The two push providers, \<^verbatim>\<open>backend/app/integrations/fcm/client.py\<close> and
  \<^verbatim>\<open>backend/app/integrations/apns/client.py\<close>: the message of a payload, the cached
  authorisation, and what an HTTP answer means for the dispatcher.  The answers of Google and Apple,
  \<^verbatim>\<open>jwt.encode\<close> and \<^verbatim>\<open>json.dumps\<close> are arguments; an exception that is not the transport's own is
  named by its class.
\<close>

section \<open>Answers\<close>

text \<open>The body as JSON is \<^const>\<open>None\<close> where \<^verbatim>\<open>response.json()\<close> raises \<^verbatim>\<open>ValueError\<close>.\<close>

record http_reply =
  hr_status :: int
  hr_text :: string
  hr_json :: "pyval option"
  hr_id :: "string option"

datatype posted = Post_failed string | Posted http_reply

text \<open>\<^verbatim>\<open>value.get(key)\<close>: nothing but a dictionary has the method.\<close>

definition json_get :: "pyval \<Rightarrow> string \<Rightarrow> pyval option" where
  "json_get v k = (case v of PDict d \<Rightarrow> Some (case map_of d k of None \<Rightarrow> PNone | Some x \<Rightarrow> x) | _ \<Rightarrow> None)"

definition attribute_error :: string where
  "attribute_error = ''AttributeError''"

text \<open>The identifier of an accepted message.\<close>

definition optional_text :: "pyval \<Rightarrow> string option" where
  "optional_text v = (if v = PNone then None else Some (py_str v))"

section \<open>Firebase\<close>

definition dead_token_codes :: "string list" where
  "dead_token_codes = [''UNREGISTERED'', ''INVALID_ARGUMENT'', ''NOT_FOUND'']"

definition refresh_margin :: rat where
  "refresh_margin = 300"

text \<open>\<^verbatim>\<open>json.dumps(value, ensure_ascii=False)\<close> is \<open>dumps\<close>.\<close>

definition as_string :: "(pyval \<Rightarrow> string) \<Rightarrow> pyval \<Rightarrow> string" where
  "as_string dumps v = (case v of
     PStr s \<Rightarrow> s
   | PBool b \<Rightarrow> if b then ''true'' else ''false''
   | PList xs \<Rightarrow> dumps v
   | PDict d \<Rightarrow> dumps v
   | _ \<Rightarrow> py_text v)"

definition fcm_message :: "(pyval \<Rightarrow> string) \<Rightarrow> (instant \<Rightarrow> string) \<Rightarrow> string \<Rightarrow> push_payload \<Rightarrow> unsafe_payload + pyval" where
  "fcm_message dumps isof token p = bind_err (payload_dict isof p) (\<lambda>fields.
     let sent = dict_set ''deep_link'' (PStr (deep_link p)) (map (\<lambda>(k, v). (k, PStr (as_string dumps v))) fields)
     in Inr (PDict [(''token'', PStr token), (''data'', PDict sent),
          (''notification'', PDict [(''title'', PStr (push_title p)), (''body'', PStr (push_body p))]),
          (''android'', PDict [(''priority'', PStr ''high''),
             (''notification'', PDict [(''channel_id'', PStr ''nightshift_alarms''), (''sound'', PStr ''alarm''),
               (''click_action'', PStr ''FLUTTER_NOTIFICATION_CLICK''), (''notification_priority'', PStr ''PRIORITY_MAX'')])])]))"

text \<open>The first error code among the details; \<^const>\<open>None\<close> when an entry is no dictionary.\<close>

fun detail_code :: "pyval list \<Rightarrow> string option option" where
  "detail_code [] = Some None"
| "detail_code (v # vs) = (case json_get v ''errorCode'' of None \<Rightarrow> None
     | Some c \<Rightarrow> if truth c then Some (Some (py_str c)) else detail_code vs)"

definition fcm_error_code :: "http_reply \<Rightarrow> string option" where
  "fcm_error_code r = (case hr_json r of
     None \<Rightarrow> Some (py_take 200 (hr_text r))
   | Some (PDict body) \<Rightarrow>
       let error = (case map_of body ''error'' of None \<Rightarrow> PDict [] | Some e \<Rightarrow> e)
       in (case json_get error ''details'' of None \<Rightarrow> None
         | Some details \<Rightarrow>
            (case (if \<not> truth details then Some None else case details of PList vs \<Rightarrow> detail_code vs | _ \<Rightarrow> None) of
               None \<Rightarrow> None
             | Some (Some c) \<Rightarrow> Some c
             | Some None \<Rightarrow>
                 let st = the (json_get error ''status''); msg = the (json_get error ''message'')
                 in Some (if truth st then py_str st else if truth msg then py_str msg else show_int (hr_status r))))
   | Some _ \<Rightarrow> None)"

record fcm_state =
  fs_token :: "pyval option"
  fs_expires :: rat

definition new_fcm :: fcm_state where
  "new_fcm = \<lparr>fs_token = None, fs_expires = 0\<rparr>"

definition usable :: "rat \<Rightarrow> fcm_state \<Rightarrow> pyval option" where
  "usable now st = (case fs_token st of None \<Rightarrow> None
     | Some t \<Rightarrow> if truth t \<and> now < fs_expires st - refresh_margin then Some t else None)"

text \<open>
  \<open>float_of\<close> is \<^verbatim>\<open>float(value)\<close>, \<^const>\<open>None\<close> where it raises; the token is stored before
  the expiry is read.
\<close>

definition access_token :: "(pyval \<Rightarrow> rat option) \<Rightarrow> rat \<Rightarrow> posted \<Rightarrow> fcm_state \<Rightarrow> (send_outcome + pyval) \<times> fcm_state" where
  "access_token float_of now mint st = (case usable now st of
     Some t \<Rightarrow> (Inr t, st)
   | None \<Rightarrow> (case mint of
       Post_failed e \<Rightarrow> (Inl (Transport_error (''fcm token request failed: '' @ e) True), st)
     | Posted r \<Rightarrow>
         if hr_status r \<noteq> 200
         then (Inl (Transport_error (''fcm token endpoint returned '' @ show_int (hr_status r))
                (500 \<le> hr_status r \<or> hr_status r = 400)), st)
         else (case hr_json r of
             Some (PDict body) \<Rightarrow> (case map_of body ''access_token'' of
                 None \<Rightarrow> (Inl (Crashed ''KeyError''), st)
               | Some t \<Rightarrow> (case float_of (case map_of body ''expires_in'' of None \<Rightarrow> PInt 3600 | Some x \<Rightarrow> x) of
                     None \<Rightarrow> (Inl (Crashed ''float''), st\<lparr>fs_token := Some t\<rparr>)
                   | Some n \<Rightarrow> (Inr t, \<lparr>fs_token = Some t, fs_expires = now + n\<rparr>)))
           | Some _ \<Rightarrow> (Inl (Crashed ''TypeError''), st)
           | None \<Rightarrow> (Inl (Crashed ''JSONDecodeError''), st))))"

definition fcm_outcome :: "http_reply \<Rightarrow> fcm_state \<Rightarrow> send_outcome \<times> fcm_state" where
  "fcm_outcome r st =
    (if hr_status r = 200
     then (case hr_json r of
         None \<Rightarrow> (Crashed ''JSONDecodeError'', st)
       | Some body \<Rightarrow> (case json_get body ''name'' of
             None \<Rightarrow> (Crashed attribute_error, st) | Some n \<Rightarrow> (Accepted (optional_text n), st)))
     else case fcm_error_code r of
       None \<Rightarrow> (Crashed attribute_error, st)
     | Some detail \<Rightarrow>
         if hr_status r = 401 \<or> hr_status r = 403
         then (Transport_error (''fcm auth rejected: '' @ detail) True, st\<lparr>fs_token := None\<rparr>)
         else if hr_status r = 404 \<or> detail \<in> set dead_token_codes then (Token_unregistered (''fcm: '' @ detail), st)
         else if hr_status r = 429 \<or> 500 \<le> hr_status r
         then (Transport_error (''fcm unavailable ('' @ show_int (hr_status r) @ ''): '' @ detail) True, st)
         else (Transport_error (''fcm rejected the message: '' @ detail) False, st))"

definition fcm_send :: "(pyval \<Rightarrow> string) \<Rightarrow> (instant \<Rightarrow> string) \<Rightarrow> (pyval \<Rightarrow> rat option) \<Rightarrow> push_payload \<Rightarrow> string
    \<Rightarrow> rat \<Rightarrow> posted \<Rightarrow> posted \<Rightarrow> fcm_state \<Rightarrow> send_outcome \<times> fcm_state" where
  "fcm_send dumps isof float_of p token now mint post st =
    (case access_token float_of now mint st of
       (Inl failure, st1) \<Rightarrow> (failure, st1)
     | (Inr _, st1) \<Rightarrow>
        (case fcm_message dumps isof token p of
           Inl _ \<Rightarrow> (Crashed ''UnsafePayloadError'', st1)
         | Inr _ \<Rightarrow> (case post of
             Post_failed e \<Rightarrow> (Transport_error (''fcm request failed: '' @ e) True, st1)
           | Posted r \<Rightarrow> fcm_outcome r st1)))"

section \<open>Apple\<close>

definition dead_token_reasons :: "string list" where
  "dead_token_reasons = [''BadDeviceToken'', ''Unregistered'', ''DeviceTokenNotForTopic'']"

definition token_ttl :: rat where
  "token_ttl = 45 * 60"

text \<open>Custom keys sit beside \<^verbatim>\<open>aps\<close>; a payload key of that name would replace it.\<close>

definition apns_message :: "(instant \<Rightarrow> string) \<Rightarrow> push_payload \<Rightarrow> unsafe_payload + (string \<times> pyval) list" where
  "apns_message isof p = bind_err (payload_dict isof p) (\<lambda>fields.
     let aps = PDict [(''alert'', PDict [(''title'', PStr (push_title p)), (''body'', PStr (push_body p))]),
           (''sound'', PStr ''alarm.caf''), (''interruption-level'', PStr ''critical''), (''mutable-content'', PInt 1),
           (''thread-id'', PStr (''site-'' @ push_site p))]
     in Inr (dict_set ''deep_link'' (PStr (deep_link p))
          (foldl (\<lambda>d (k, v). dict_set k v d) [(''aps'', aps)] fields)))"

definition apns_reason :: "http_reply \<Rightarrow> string option" where
  "apns_reason r = (case hr_json r of
     None \<Rightarrow> Some (if py_take 200 (hr_text r) = [] then show_int (hr_status r) else py_take 200 (hr_text r))
   | Some (PDict body) \<Rightarrow> Some (case map_of body ''reason'' of None \<Rightarrow> show_int (hr_status r) | Some v \<Rightarrow> py_str v)
   | Some _ \<Rightarrow> None)"

text \<open>The provider token is the moment it was minted; \<^const>\<open>None\<close> when there is none.\<close>

record apns_state =
  ap_token :: "string option"
  ap_minted :: rat

definition new_apns :: apns_state where
  "new_apns = \<lparr>ap_token = None, ap_minted = 0\<rparr>"

definition provider_token :: "(rat \<Rightarrow> string) \<Rightarrow> rat \<Rightarrow> apns_state \<Rightarrow> string \<times> apns_state" where
  "provider_token sign now st = (case ap_token st of
     Some t \<Rightarrow> if t \<noteq> [] \<and> now - ap_minted st < token_ttl then (t, st)
       else (sign now, \<lparr>ap_token = Some (sign now), ap_minted = now\<rparr>)
   | None \<Rightarrow> (sign now, \<lparr>ap_token = Some (sign now), ap_minted = now\<rparr>))"

definition apns_outcome :: "http_reply \<Rightarrow> apns_state \<Rightarrow> send_outcome \<times> apns_state" where
  "apns_outcome r st =
    (if hr_status r = 200 then (Accepted (hr_id r), st)
     else case apns_reason r of
       None \<Rightarrow> (Crashed attribute_error, st)
     | Some reason \<Rightarrow>
         if reason \<in> set dead_token_reasons then (Token_unregistered (''apns: '' @ reason), st)
         else if hr_status r = 403 \<or> hr_status r = 401 \<or> reason = ''ExpiredProviderToken'' \<or> reason = ''InvalidProviderToken''
         then (Transport_error (''apns auth rejected: '' @ reason) True, st\<lparr>ap_token := None\<rparr>)
         else if hr_status r = 429 \<or> 500 \<le> hr_status r
         then (Transport_error (''apns unavailable ('' @ show_int (hr_status r) @ ''): '' @ reason) True, st)
         else (Transport_error (''apns rejected the message: '' @ reason) False, st))"

definition apns_send :: "(instant \<Rightarrow> string) \<Rightarrow> (rat \<Rightarrow> string) \<Rightarrow> push_payload \<Rightarrow> rat \<Rightarrow> posted \<Rightarrow> apns_state
    \<Rightarrow> send_outcome \<times> apns_state" where
  "apns_send isof sign p now post st =
    (case provider_token sign now st of (_, st1) \<Rightarrow>
       case apns_message isof p of
         Inl _ \<Rightarrow> (Crashed ''UnsafePayloadError'', st1)
       | Inr _ \<Rightarrow> (case post of
           Post_failed e \<Rightarrow> (Transport_error (''apns request failed: '' @ e) True, st1)
         | Posted r \<Rightarrow> apns_outcome r st1))"

section \<open>The message\<close>

lemma payload_keys: "map fst (payload_fields isof p) = map fst (payload_fields isof' p')"
  by (simp add: payload_fields_def)

lemma payload_dictD: "payload_dict isof p = Inr fs \<Longrightarrow> fs = payload_fields isof p"
  by (auto simp: payload_dict_def bind_err_Inr_iff)

lemma dict_set_fresh: "k \<notin> fst ` set d \<Longrightarrow> dict_set k v d = d @ [(k, v)]"
  by (induction d) auto

text \<open>
  C34. Every value in the data of a Firebase message is text, under the payload's own keys followed
  by the deep link, and the alarm's identifier is among them as it is.
\<close>

theorem fcm_data_is_text:
  assumes "fcm_message dumps isof token p = Inr m"
  shows "\<exists>d. json_get m ''data'' = Some (PDict d) \<and> (\<forall>x \<in> set d. \<exists>s. snd x = PStr s) \<and>
      map fst d = map fst (payload_fields isof p) @ [''deep_link''] \<and>
      map_of d ''alarm_id'' = Some (PStr (uuid_text (push_alarm p))) \<and>
      map_of d ''deep_link'' = Some (PStr (''nightshift://alarms/'' @ uuid_text (push_alarm p)))"
proof -
  let ?sent = "map (\<lambda>(k, v). (k, PStr (as_string dumps v))) (payload_fields isof p)"
  from assms obtain fs where fs: "payload_dict isof p = Inr fs" by (auto simp: fcm_message_def bind_err_Inr_iff)
  have fresh: "''deep_link'' \<notin> fst ` set ?sent" by (simp add: payload_fields_def)
  have data: "json_get m ''data'' = Some (PDict (?sent @ [(''deep_link'', PStr (deep_link p))]))"
    using assms fs payload_dictD [OF fs] dict_set_fresh [OF fresh]
    by (auto simp: fcm_message_def bind_err_Inr_iff json_get_def Let_def)
  have "map_of ?sent ''deep_link'' = None" using fresh by (simp add: map_of_eq_None_iff)
  moreover have "map_of ?sent ''alarm_id'' = Some (PStr (uuid_text (push_alarm p)))"
    by (simp add: payload_fields_def as_string_def)
  moreover have "map fst ?sent = map fst (payload_fields isof p)" by (simp add: comp_def case_prod_unfold)
  ultimately show ?thesis unfolding data by (auto simp: map_add_def deep_link_def)
qed

section \<open>What an answer does\<close>

lemma invalid_argument_unregisters:
  assumes "hr_status r = 400" and "fcm_error_code r = Some ''INVALID_ARGUMENT''"
  shows "fst (fcm_outcome r st) = Token_unregistered ''fcm: INVALID_ARGUMENT''"
  using assms by (simp add: fcm_outcome_def dead_token_codes_def)

text \<open>Google's refusal of our own credentials never unregisters a phone and drops the cached token.\<close>

lemma auth_refusal:
  assumes "hr_status r = 401 \<or> hr_status r = 403" and "fcm_error_code r = Some d"
  shows "fcm_outcome r st = (Transport_error (''fcm auth rejected: '' @ d) True, st\<lparr>fs_token := None\<rparr>)"
  using assms by (auto simp: fcm_outcome_def)

lemma fcm_send_reaches:
  assumes "access_token float_of now mint st = (Inr t, st')" and "payload_dict isof p = Inr fs"
  shows "fcm_send dumps isof float_of p token now mint (Posted r) st = fcm_outcome r st'"
  using assms by (simp add: fcm_send_def fcm_message_def)

lemma first_attempt_ends: "provider 1 = Token_unregistered d \<Longrightarrow>
    fst (send_with_retry provider jitter max_attempts) = finished UNREGISTERED (Some d) 1 None"
  by (simp add: send_with_retry_def max_attempts_def numeral_eq_Suc)

lemma refused_message_unregisters_everyone_facts:
  assumes "dispatch platforms send jitter ids now alarm tenant rcs step db = Inr (rep, db')"
    and "ANDROID \<in> platforms" and "\<forall>rc \<in> set rcs. rc_platform rc = ANDROID"
    and "\<forall>rc. send rc 1 = fst (fcm_send dumps isof float_of p (rc_token rc) (clock rc) (mint rc) (Posted refusal) (st rc))"
    and "\<forall>rc. \<exists>t st'. access_token float_of (clock rc) (mint rc) (st rc) = (Inr t, st')" and "payload_dict isof p = Inr fs"
    and "hr_status refusal = 400" and "fcm_error_code refusal = Some ''INVALID_ARGUMENT''"
  shows "rep_sent rep = 0 \<and> rep_pruned rep = length rcs"
    and "push_devices db' = filter (\<lambda>d. \<forall>rc \<in> set rcs. pd_id d \<noteq> rc_device rc) (push_devices db)"
proof -
  have gone: "dr_status (send_one platforms send jitter rc) = UNREGISTERED" if "rc \<in> set rcs" for rc
  proof -
    obtain t st' where "access_token float_of (clock rc) (mint rc) (st rc) = (Inr t, st')" using assms(5) by blast
    then have "send rc 1 = Token_unregistered ''fcm: INVALID_ARGUMENT''"
      using assms(4,6) invalid_argument_unregisters [OF assms(7,8)] by (simp add: fcm_send_reaches)
    then show ?thesis using assms(2,3) that by (simp add: send_one_def first_attempt_ends finished_def)
  qed
  note books = dispatch_books [OF assms(1)]
  from books gone show "push_devices db' = filter (\<lambda>d. \<forall>rc \<in> set rcs. pd_id d \<noteq> rc_device rc) (push_devices db)"
    by (auto intro!: filter_cong)
  have "filter (\<lambda>rc. dr_status (send_one platforms send jitter rc) = SENT) rcs = []"
    "filter (\<lambda>rc. dr_status (send_one platforms send jitter rc) = UNREGISTERED) rcs = rcs"
    using gone by (auto simp: filter_empty_conv filter_id_conv)
  with books show "rep_sent rep = 0 \<and> rep_pruned rep = length rcs" by (metis list.size(3))
qed

text \<open>
  C37. Firebase answers a message it cannot read with the code \<^verbatim>\<open>INVALID_ARGUMENT\<close>, and the
  transport takes that code for a dead token: one payload Firebase refuses deletes the push
  registration of every Android phone it was meant for, and reaches nobody.
\<close>

theorem refused_message_unregisters_everyone:
  assumes "dispatch platforms send jitter ids now alarm tenant rcs step db = Inr (rep, db')"
    and "ANDROID \<in> platforms" and "\<forall>rc \<in> set rcs. rc_platform rc = ANDROID"
    and "\<forall>rc. send rc 1 = fst (fcm_send dumps isof float_of p (rc_token rc) (clock rc) (mint rc) (Posted refusal) (st rc))"
    and "\<forall>rc. \<exists>t st'. access_token float_of (clock rc) (mint rc) (st rc) = (Inr t, st')" and "payload_dict isof p = Inr fs"
    and "hr_status refusal = 400" and "fcm_error_code refusal = Some ''INVALID_ARGUMENT''"
  shows "(rep_sent rep = 0 \<and> rep_pruned rep = length rcs) \<and>
    (push_devices db' = filter (\<lambda>d. \<forall>rc \<in> set rcs. pd_id d \<noteq> rc_device rc) (push_devices db))"
  by (intro conjI impI; ((rule refused_message_unregisters_everyone_facts [OF assms]; assumption)+ | use refused_message_unregisters_everyone_facts [OF assms] in blast))

section \<open>The provider token\<close>

text \<open>Every send of a transport: when it happened, and when the token it bore was minted.\<close>

fun bearers :: "(instant \<Rightarrow> string) \<Rightarrow> (rat \<Rightarrow> string) \<Rightarrow> push_payload \<Rightarrow> (rat \<times> posted) list \<Rightarrow> apns_state \<Rightarrow> (rat \<times> rat) list" where
  "bearers isof sign p [] st = []"
| "bearers isof sign p ((now, post) # xs) st =
     (now, ap_minted (snd (provider_token sign now st))) # bearers isof sign p xs (snd (apns_send isof sign p now post st))"

definition auth_rejected :: "posted \<Rightarrow> bool" where
  "auth_rejected post \<longleftrightarrow> (case post of Post_failed _ \<Rightarrow> False
     | Posted r \<Rightarrow> hr_status r = 401 \<or> hr_status r = 403 \<or>
         apns_reason r \<in> {Some ''ExpiredProviderToken'', Some ''InvalidProviderToken''})"

definition fresh_at :: "rat \<Rightarrow> apns_state \<Rightarrow> bool" where
  "fresh_at now st \<longleftrightarrow> ap_token st \<noteq> Some [] \<and> (ap_token st \<noteq> None \<longrightarrow> ap_minted st \<le> now)"

lemma token_kept: "ap_minted (snd (apns_send isof sign p now post st)) = ap_minted (snd (provider_token sign now st))"
  "ap_token (snd (apns_send isof sign p now post st)) \<in> {ap_token (snd (provider_token sign now st)), None}"
  "\<not> auth_rejected post \<Longrightarrow> ap_token (snd (apns_send isof sign p now post st)) = ap_token (snd (provider_token sign now st))"
  by (auto simp: apns_send_def apns_outcome_def auth_rejected_def split: prod.splits sum.splits posted.splits option.splits if_splits)

lemma token_age:
  assumes "fresh_at now st" and "\<forall>t. sign t \<noteq> []"
  shows "ap_minted (snd (provider_token sign now st)) \<le> now" and "now - ap_minted (snd (provider_token sign now st)) < token_ttl"
    and "ap_token (snd (provider_token sign now st)) \<noteq> None" and "ap_token (snd (provider_token sign now st)) \<noteq> Some []"
  using assms by (auto simp: provider_token_def fresh_at_def token_ttl_def split: option.splits)

lemma next_fresh:
  assumes "fresh_at now st" and "\<forall>t. sign t \<noteq> []" and "now \<le> later"
  shows "fresh_at later (snd (apns_send isof sign p now post st))"
  using token_age [OF assms(1,2)] token_kept(2) [of isof sign p now post st] assms(3)
  by (auto simp: fresh_at_def token_kept(1))

lemma minted_again:
  assumes "fresh_at now st" and "\<forall>t. sign t \<noteq> []" and "now \<le> later" and "\<not> auth_rejected post"
    and "st' = snd (apns_send isof sign p now post st)"
    and "ap_minted (snd (provider_token sign later st')) \<noteq> ap_minted (snd (provider_token sign now st))"
  shows "token_ttl \<le> later - ap_minted (snd (provider_token sign now st))"
proof (rule ccontr)
  assume young: "\<not> ?thesis"
  have st': "ap_token st' \<noteq> None" "ap_token st' \<noteq> Some []" "ap_minted st' = ap_minted (snd (provider_token sign now st))"
    using token_age(3,4) [OF assms(1,2)] token_kept(1) [of isof sign p now post st] token_kept(3) [OF assms(4), of isof sign p now st] by (simp_all add: assms(5))
  then have "provider_token sign later st' = (the (ap_token st'), st')"
    using young by (auto simp: provider_token_def)
  with assms(6) st'(3) show False by simp
qed

lemma bearers_hold:
  assumes "sorted (map fst xs)" and "\<forall>t. sign t \<noteq> []" and "\<forall>now \<in> fst ` set xs. fresh_at now st"
  shows "i < length xs \<Longrightarrow> fst (bearers isof sign p xs st ! i) = fst (xs ! i) \<and>
      snd (bearers isof sign p xs st ! i) \<le> fst (xs ! i) \<and> fst (xs ! i) - snd (bearers isof sign p xs st ! i) < token_ttl"
    and "Suc i < length xs \<Longrightarrow> snd (bearers isof sign p xs st ! Suc i) \<noteq> snd (bearers isof sign p xs st ! i) \<Longrightarrow>
      auth_rejected (snd (xs ! i)) \<or> token_ttl \<le> fst (xs ! Suc i) - snd (bearers isof sign p xs st ! i)"
proof -
  show "i < length xs \<Longrightarrow> fst (bearers isof sign p xs st ! i) = fst (xs ! i) \<and>
      snd (bearers isof sign p xs st ! i) \<le> fst (xs ! i) \<and> fst (xs ! i) - snd (bearers isof sign p xs st ! i) < token_ttl"
    using assms
  proof (induction xs arbitrary: st i)
    case (Cons x xs)
    obtain now post where x: "x = (now, post)" by (cases x)
    have later: "\<forall>t \<in> fst ` set xs. fresh_at t (snd (apns_send isof sign p now post st))"
      using Cons.prems(2,4) by (auto simp: x intro!: next_fresh [OF _ Cons.prems(3)])
    show ?case
    proof (cases i)
      case 0
      then show ?thesis using token_age(1,2) [of now st sign] Cons.prems(3,4) by (simp add: x)
    next
      case (Suc j)
      then show ?thesis using Cons.IH [OF _ _ Cons.prems(3) later, of j] Cons.prems(1,2) by (simp add: x)
    qed
  qed simp
  show "Suc i < length xs \<Longrightarrow> snd (bearers isof sign p xs st ! Suc i) \<noteq> snd (bearers isof sign p xs st ! i) \<Longrightarrow>
      auth_rejected (snd (xs ! i)) \<or> token_ttl \<le> fst (xs ! Suc i) - snd (bearers isof sign p xs st ! i)"
    using assms
  proof (induction xs arbitrary: st i)
    case (Cons x xs)
    obtain now post where x: "x = (now, post)" by (cases x)
    have later: "\<forall>t \<in> fst ` set xs. fresh_at t (snd (apns_send isof sign p now post st))"
      using Cons.prems(3,5) by (auto simp: x intro!: next_fresh [OF _ Cons.prems(4)])
    show ?case
    proof (cases i)
      case 0
      obtain t post' ys where xs: "xs = (t, post') # ys" using Cons.prems(1) 0 by (cases xs) auto
      have "now \<le> t" "fresh_at now st" using Cons.prems(3,5) by (simp_all add: x xs)
      from minted_again [OF this(2) Cons.prems(4) this(1) _ refl] Cons.prems(2) show ?thesis by (auto simp: 0 x xs)
    next
      case (Suc j)
      then show ?thesis using Cons.IH [OF _ _ _ Cons.prems(4) later, of j] Cons.prems(1-3) by (simp add: x)
    qed
  qed simp
qed

lemma provider_tokens_stay_fresh_facts:
  assumes "sorted (map fst xs)" and "\<forall>t. sign t \<noteq> []" and "bs = bearers isof sign p xs new_apns"
  shows "i < length xs \<Longrightarrow> snd (bs ! i) \<le> fst (xs ! i) \<and> fst (xs ! i) - snd (bs ! i) < 45 * 60"
    and "Suc i < length xs \<Longrightarrow> snd (bs ! Suc i) \<noteq> snd (bs ! i) \<Longrightarrow>
      auth_rejected (snd (xs ! i)) \<or> 45 * 60 \<le> fst (xs ! Suc i) - snd (bs ! i)"
proof -
  have fresh: "\<forall>now \<in> fst ` set xs. fresh_at now new_apns" by (simp add: fresh_at_def new_apns_def)
  show "i < length xs \<Longrightarrow> snd (bs ! i) \<le> fst (xs ! i) \<and> fst (xs ! i) - snd (bs ! i) < 45 * 60"
    using bearers_hold(1) [OF assms(1,2) fresh] by (simp add: assms(3) token_ttl_def)
  show "Suc i < length xs \<Longrightarrow> snd (bs ! Suc i) \<noteq> snd (bs ! i) \<Longrightarrow>
      auth_rejected (snd (xs ! i)) \<or> 45 * 60 \<le> fst (xs ! Suc i) - snd (bs ! i)"
    using bearers_hold(2) [OF assms(1,2) fresh] by (simp add: assms(3) token_ttl_def)
qed

text \<open>
  Over every sequence of sends with a clock that does not run backwards, the token a send bears
  was minted less than 45 minutes before it, and a new one is minted only after Apple refused the last
  or 45 minutes after it was minted.
\<close>

theorem provider_tokens_stay_fresh:
  assumes "sorted (map fst xs)" and "\<forall>t. sign t \<noteq> []" and "bs = bearers isof sign p xs new_apns"
  shows "((i < length xs) \<longrightarrow>
      snd (bs ! i) \<le> fst (xs ! i) \<and> fst (xs ! i) - snd (bs ! i) < 45 * 60) \<and>
    ((Suc i < length xs) \<longrightarrow> (snd (bs ! Suc i) \<noteq> snd (bs ! i)) \<longrightarrow>
      auth_rejected (snd (xs ! i)) \<or> 45 * 60 \<le> fst (xs ! Suc i) - snd (bs ! i))"
  by (intro conjI impI; ((rule provider_tokens_stay_fresh_facts [OF assms]; assumption)+ | use provider_tokens_stay_fresh_facts [OF assms] in blast))

section \<open>One night\<close>

definition refusal :: http_reply where
  "refusal = \<lparr>hr_status = 400, hr_text = [], hr_json = Some (PDict [(''error'', PDict [(''code'', PInt 400),
     (''status'', PStr ''INVALID_ARGUMENT''), (''message'', PStr ''The message is too big'')])]), hr_id = None\<rparr>"

definition granted :: http_reply where
  "granted = \<lparr>hr_status = 200, hr_text = [], hr_json = Some (PDict [(''access_token'', PStr ''t'')]), hr_id = None\<rparr>"

definition forbidden_reply :: http_reply where
  "forbidden_reply = \<lparr>hr_status = 403, hr_text = [], hr_json = Some (PDict [(''reason'', PStr ''Forbidden'')]), hr_id = None\<rparr>"

text \<open>
  After two refusals within a second two tokens are minted a second apart, though Apple throttles
  a provider that mints them faster than every twenty minutes.
\<close>

lemma refusals_mint_at_once:
  "payload_dict isof p = Inr fs \<Longrightarrow>
    map snd (bearers isof (\<lambda>_. ''t'') p [(0, Posted forbidden_reply), (1, Posted forbidden_reply)] new_apns) = [0, 1]"
  by (simp add: provider_token_def new_apns_def apns_send_def apns_message_def Let_def apns_outcome_def apns_reason_def
      forbidden_reply_def dead_token_reasons_def py_str_def token_ttl_def)

lemma night_payload: "\<exists>fs. payload_dict (\<lambda>_. ''2025-01-01'') (sample_push ''Depo'') = Inr fs"
  by (simp add: payload_dict_def assert_safe_def scan_samples del: py_text.simps)

lemma fcm_data_is_text_witness:
  "\<exists>m d. fcm_message py_text (\<lambda>_. ''2025-01-01'') ''phone'' (sample_push ''Depo'') = Inr m \<and>
    json_get m ''data'' = Some (PDict d) \<and> (\<forall>x \<in> set d. \<exists>s. snd x = PStr s)"
proof -
  obtain fs where "payload_dict (\<lambda>_. ''2025-01-01'') (sample_push ''Depo'') = Inr fs" using night_payload by blast
  then obtain m where m: "fcm_message py_text (\<lambda>_. ''2025-01-01'') ''phone'' (sample_push ''Depo'') = Inr m"
    by (simp add: fcm_message_def Let_def)
  from m fcm_data_is_text [OF m] show ?thesis by blast
qed

lemma refused_message_unregisters_everyone_witness:
  "\<exists>rep db'. dispatch {ANDROID} (\<lambda>rc n. fst (fcm_send py_text (\<lambda>_. ''2025-01-01'') (\<lambda>_. Some 3600) (sample_push ''Depo'')
        (rc_token rc) 0 (Posted granted) (Posted refusal) new_fcm))
      (\<lambda>_. 0) id 0 9 1 [sample_phone 2 ANDROID] 0 \<lparr>push_devices = [sample_device 2, sample_device 3], deliveries = []\<rparr> = Inr (rep, db') \<and>
    push_devices db' = [sample_device 3]"
proof -
  obtain fs where fs: "payload_dict (\<lambda>_. ''2025-01-01'') (sample_push ''Depo'') = Inr fs" using night_payload by blast
  let ?send = "\<lambda>rc n. fst (fcm_send py_text (\<lambda>_. ''2025-01-01'') (\<lambda>_. Some 3600) (sample_push ''Depo'')
        (rc_token rc) 0 (Posted granted) (Posted refusal) new_fcm)"
  have mint: "\<exists>t st'. access_token (\<lambda>_. Some 3600) 0 (Posted granted) new_fcm = (Inr t, st')"
    by (simp add: access_token_def usable_def new_fcm_def granted_def)
  have code: "fcm_error_code refusal = Some ''INVALID_ARGUMENT''"
    by (simp add: fcm_error_code_def refusal_def json_get_def Let_def py_str_def)
  have status: "hr_status refusal = 400" by (simp add: refusal_def)
  have "?send rc 1 = Token_unregistered ''fcm: INVALID_ARGUMENT''" for rc
    using mint fs invalid_argument_unregisters [OF status code] by (auto simp: fcm_send_reaches)
  then have "fst (send_with_retry (?send (sample_phone 2 ANDROID)) (\<lambda>_. 0) max_attempts) =
      finished UNREGISTERED (Some ''fcm: INVALID_ARGUMENT'') 1 None" by (rule first_attempt_ends)
  then have gone: "send_one {ANDROID} ?send (\<lambda>_. 0) (sample_phone 2 ANDROID) = finished UNREGISTERED (Some ''fcm: INVALID_ARGUMENT'') 1 None"
    unfolding send_one_def by (simp add: sample_phone_def)
  obtain rep db' where run: "dispatch {ANDROID} ?send (\<lambda>_. 0) id 0 9 1 [sample_phone 2 ANDROID] 0
      \<lparr>push_devices = [sample_device 2, sample_device 3], deliveries = []\<rparr> = Inr (rep, db')"
    using gone by (simp add: dispatch_def Let_def record_result_def dr_sent_def upt_rec lookup_row_def
        finished_def sample_device_def) (simp add: sample_phone_def)
  have "push_devices db' = filter (\<lambda>d. \<forall>rc \<in> set [sample_phone 2 ANDROID]. pd_id d \<noteq> rc_device rc) [sample_device 2, sample_device 3]"
    by (subst refused_message_unregisters_everyone [OF run _ _ _ _ fs status code, where clock = "\<lambda>_. 0"
        and mint = "\<lambda>_. Posted granted" and st = "\<lambda>_. new_fcm" and float_of = "\<lambda>_. Some 3600" and dumps = py_text, THEN conjunct2])
      (simp_all only: mint push_db.simps, simp_all add: sample_phone_def)
  with run show ?thesis by (simp add: sample_phone_def sample_device_def)
qed

lemma provider_tokens_stay_fresh_witness:
  "snd (bearers (\<lambda>_. ''2025-01-01'') (\<lambda>_. ''t'') (sample_push ''Depo'') [(0, Post_failed []), (9, Post_failed [])] new_apns ! 1) \<le> 9"
  using provider_tokens_stay_fresh [of "[(0, Post_failed []), (9, Post_failed [])]" "\<lambda>_. ''t''", OF _ _ refl, THEN conjunct1, of 1] by simp

end
