(* ===== verification/Realtime.thy ===== *)
theory Realtime
  imports Hub AuthRouter
begin

text \<open>
  The live alarm socket, \<^verbatim>\<open>backend/app/modules/realtime/router.py\<close>: its handshake, the frames it
  sends while the client stays, and the answers to the client's own messages.
\<close>

section \<open>The handshake\<close>

definition bearer_from_header :: "string \<Rightarrow> string option" where
  "bearer_from_header header =
    (let scheme = takeWhile (\<lambda>c. c \<noteq> CHR '' '') header; v = py_strip (drop (Suc (length scheme)) header)
     in if lower scheme = ''bearer'' \<and> v \<noteq> [] then Some v else None)"

text \<open>An exception during the handshake ends the connection without a close frame of the program's.\<close>

datatype handshake = Closed string | Failed | Joined uuid uuid

definition presented :: "string option \<Rightarrow> string \<Rightarrow> string option" where
  "presented query header = (case query of None \<Rightarrow> bearer_from_header header
     | Some t \<Rightarrow> if t = [] then bearer_from_header header else Some t)"

definition shake_hands :: "jwt_decoder \<Rightarrow> string \<Rightarrow> string option \<Rightarrow> string \<Rightarrow> instant \<Rightarrow> handshake" where
  "shake_hands dec secret query header now =
    (case presented query header of
       None \<Rightarrow> Closed ''authentication required''
     | Some token \<Rightarrow> (case decode_access_token dec token secret now of
         Inl _ \<Rightarrow> Closed ''invalid token''
       | Inr c \<Rightarrow>
           if ALARMS_VIEW \<notin> role_permissions (claim_role c) then Closed ''not permitted''
           else (case claim_uuid ''tid'' c of
               Inl _ \<Rightarrow> Failed
             | Inr tenant \<Rightarrow> (case claim_uuid ''sub'' c of Inl _ \<Rightarrow> Failed | Inr user \<Rightarrow> Joined tenant user))))"

section \<open>The session\<close>

definition hello_frame :: "uuid \<Rightarrow> frame" where
  "hello_frame subscriber = PDict [(''type'', PStr ''hello''), (''data'', PDict [(''resume'', PStr ''refetch''),
     (''heartbeat_seconds'', PInt 25), (''subscriber_id'', PStr (uuid_text subscriber))])]"

text \<open>
  One turn per frame: the frames published meanwhile, whether the reader has seen the client leave,
  and whether the send went through.
\<close>

record turn =
  tu_now :: instant
  tu_published :: "frame list"
  tu_gone :: bool
  tu_sent :: bool

definition publish_all :: "frame list \<Rightarrow> subscriber \<Rightarrow> subscriber" where
  "publish_all fs s = fold (\<lambda>f. snd \<circ> offer f) fs s"

fun stream_frames :: "(instant \<Rightarrow> string) \<Rightarrow> turn list \<Rightarrow> subscriber \<Rightarrow> frame list \<times> subscriber" where
  "stream_frames isof [] s = ([], s)"
| "stream_frames isof (t # ts) s = (case next_frame isof (tu_now t) (publish_all (tu_published t) s) of (f, s') \<Rightarrow>
     if tu_gone t \<or> \<not> tu_sent t then ([], s')
     else (case stream_frames isof ts s' of (fs, s'') \<Rightarrow> (f # fs, s'')))"

definition serve :: "(instant \<Rightarrow> string) \<Rightarrow> uuid \<Rightarrow> uuid \<Rightarrow> uuid \<Rightarrow> turn list \<Rightarrow> frame list" where
  "serve isof i tenant user ts = hello_frame i # fst (stream_frames isof ts (new_subscriber i tenant user))"

definition drain_answers :: "string list \<Rightarrow> frame list" where
  "drain_answers messages = map (\<lambda>_. PDict [(''type'', PStr ''pong'')])
     (filter (\<lambda>m. lower (py_strip m) = ''{\"type\":\"ping\"}'' \<or> lower (py_strip m) = ''ping'') messages)"

section \<open>The socket and the endpoints\<close>

text \<open>
  C33. The socket lets in exactly the tokens the alarm endpoints let in, as the same user of the same
  tenant, whether the token came in the query or in the header.
\<close>

theorem socket_agrees_with_endpoints:
  assumes "presented query header = Some token" and "token \<noteq> []"
  shows "shake_hands dec secret query header now = Joined tenant user \<longleftrightarrow>
    (\<exists>u. bind_err (get_current_user dec secret (Some token) now) (require ALARMS_VIEW) = Inr u \<and>
      cu_tenant u = tenant \<and> cu_user u = user)"
proof (cases "decode_access_token dec token secret now")
  case (Inl e)
  then show ?thesis using assms by (cases e) (simp_all add: shake_hands_def get_current_user_def)
next
  case (Inr c)
  then show ?thesis using assms
    by (cases "claim_uuid ''tid'' c"; cases "claim_uuid ''sub'' c")
      (auto simp: shake_hands_def get_current_user_def require_def can_def)
qed

definition is_beat :: "frame \<Rightarrow> bool" where
  "is_beat f \<longleftrightarrow> (\<exists>d. f = PDict d \<and> map_of d ''type'' = Some (PStr ''heartbeat''))"

lemma heartbeat_is_beat: "is_beat (make_frame isof now ''heartbeat'' d)"
  by (simp add: is_beat_def make_frame_def)

lemma publish_all_room:
  "length (sub_queue s) + length fs \<le> queue_limit \<Longrightarrow> publish_all fs s = s\<lparr>sub_queue := sub_queue s @ fs\<rparr>"
proof (induction fs arbitrary: s)
  case (Cons f fs)
  have "snd (offer f s) = s\<lparr>sub_queue := sub_queue s @ [f]\<rparr>" using Cons.prems by (simp add: offer_def)
  with Cons.IH [of "snd (offer f s)"] Cons.prems show ?case by (simp add: publish_all_def)
qed (simp add: publish_all_def)

lemma stream_in_order:
  assumes "\<forall>t \<in> set ts. \<not> tu_gone t \<and> tu_sent t \<and> (\<forall>f \<in> set (tu_published t). \<not> is_beat f)"
    and "length (sub_queue s) + length (concat (map tu_published ts)) \<le> queue_limit" and "\<forall>f \<in> set (sub_queue s). \<not> is_beat f"
    and "stream_frames isof ts s = (fs, s')"
  shows "filter (\<lambda>f. \<not> is_beat f) fs @ sub_queue s' = sub_queue s @ concat (map tu_published ts) \<and> sub_dropped s' = sub_dropped s"
  using assms
proof (induction ts arbitrary: s fs)
  case (Cons t ts)
  let ?q = "sub_queue s @ tu_published t"
  have room: "publish_all (tu_published t) s = s\<lparr>sub_queue := ?q\<rparr>" by (rule publish_all_room) (use Cons.prems(2) in simp)
  obtain f u gs where f: "next_frame isof (tu_now t) (s\<lparr>sub_queue := ?q\<rparr>) = (f, u)" and gs: "stream_frames isof ts u = (gs, s')"
    and fs: "fs = f # gs" using Cons.prems(1,4) by (auto simp: room split: prod.splits)
  show ?case
  proof (cases ?q)
    case Nil
    then have u: "u = s\<lparr>sub_queue := []\<rparr>" "is_beat f" "sub_queue s = []" "tu_published t = []"
      using f by (auto simp: next_frame_def heartbeat_is_beat)
    with Cons.IH [OF _ _ _ gs] Cons.prems show ?thesis by (simp add: fs)
  next
    case (Cons g qs)
    then have u: "f = g" "u = s\<lparr>sub_queue := qs\<rparr>" using f by (auto simp: next_frame_def)
    have plain: "\<forall>f \<in> set (g # qs). \<not> is_beat f" using Cons Cons.prems(1,3) by (metis Un_iff list.set_intros(1) set_append)
    have "length (g # qs) + length (concat (map tu_published ts)) \<le> queue_limit"
      using Cons.prems(2) by (simp flip: Cons)
    then have "filter (\<lambda>f. \<not> is_beat f) gs @ sub_queue s' = qs @ concat (map tu_published ts) \<and> sub_dropped s' = sub_dropped s"
      using Cons.IH [OF _ _ _ gs] Cons.prems(1) plain by (simp add: u)
    with plain Cons show ?thesis by (simp add: fs u)
  qed
qed simp

lemma socket_keeps_order_facts:
  assumes "\<forall>t \<in> set ts. \<not> tu_gone t \<and> tu_sent t \<and> (\<forall>f \<in> set (tu_published t). \<not> is_beat f)"
    and "length (concat (map tu_published ts)) \<le> queue_limit"
    and "stream_frames isof ts (new_subscriber i tenant user) = (fs, s)"
  shows "filter (\<lambda>f. \<not> is_beat f) fs @ sub_queue s = concat (map tu_published ts)" and "sub_dropped s = 0"
    and "serve isof i tenant user ts = hello_frame i # fs"
  using stream_in_order [OF assms(1) _ _ assms(3)] assms(2,3) by (simp_all add: new_subscriber_def serve_def)

text \<open>
  While a client stays and no more than fifty frames are published to it, it is sent the published
  frames in their order, with heartbeats between them, what is not yet sent waits in its queue, and no
  frame is dropped.
\<close>

theorem socket_keeps_order:
  assumes "\<forall>t \<in> set ts. \<not> tu_gone t \<and> tu_sent t \<and> (\<forall>f \<in> set (tu_published t). \<not> is_beat f)"
    and "length (concat (map tu_published ts)) \<le> queue_limit"
    and "stream_frames isof ts (new_subscriber i tenant user) = (fs, s)"
  shows "(filter (\<lambda>f. \<not> is_beat f) fs @ sub_queue s = concat (map tu_published ts)) \<and>
    (sub_dropped s = 0) \<and>
    (serve isof i tenant user ts = hello_frame i # fs)"
  by (intro conjI impI; ((rule socket_keeps_order_facts [OF assms]; assumption)+ | use socket_keeps_order_facts [OF assms] in blast))

section \<open>A quiet connection\<close>

definition quiet_turns :: "turn list" where
  "quiet_turns = [\<lparr>tu_now = 0, tu_published = [], tu_gone = False, tu_sent = True\<rparr>,
     \<lparr>tu_now = 1, tu_published = [PDict [(''type'', PStr ''alarm.raised'')]], tu_gone = False, tu_sent = True\<rparr>]"

lemma socket_keeps_order_witness:
  "\<exists>fs s. stream_frames (\<lambda>_. []) quiet_turns (new_subscriber 1 2 3) = (fs, s) \<and>
    filter (\<lambda>f. \<not> is_beat f) fs @ sub_queue s = [PDict [(''type'', PStr ''alarm.raised'')]]"
proof -
  obtain fs s where run: "stream_frames (\<lambda>_. []) quiet_turns (new_subscriber 1 2 3) = (fs, s)"
    by (cases "stream_frames (\<lambda>_. []) quiet_turns (new_subscriber 1 2 3)")
  have "filter (\<lambda>f. \<not> is_beat f) fs @ sub_queue s = concat (map tu_published quiet_turns)"
    by (rule socket_keeps_order [OF _ _ run, THEN conjunct1]) (simp_all add: quiet_turns_def is_beat_def queue_limit_def)
  with run show ?thesis by (simp add: quiet_turns_def)
qed

lemma socket_agrees_with_endpoints_witness:
  "\<exists>u. bind_err (get_current_user (\<lambda>_ _ _ _. Inr (access_claims 2 1 ''OWNER'' 5 0 9)) ''k'' (Some ''t'') 0) (require ALARMS_VIEW) = Inr u \<and>
    cu_tenant u = 1 \<and> cu_user u = 2"
proof -
  let ?dec = "\<lambda>_ _ _ _. Inr (access_claims 2 1 ''OWNER'' 5 0 9)"
  have "claim_uuid ''tid'' (access_claims 2 1 ''OWNER'' 5 0 9) = Inr 1" "claim_uuid ''sub'' (access_claims 2 1 ''OWNER'' 5 0 9) = Inr 2"
    by (simp_all add: claim_uuid_def access_claims_def parse_uuid_text)
  moreover have "claim_role (access_claims 2 1 ''OWNER'' 5 0 9) = OWNER"
    by (simp add: claim_role_def access_claims_def role_of_def all_roles_def)
  ultimately have "shake_hands ?dec ''k'' (Some ''t'') [] 0 = Joined 1 2"
    by (simp add: shake_hands_def presented_def decode_access_token_def perms_defs) (simp add: access_claims_def)
  then show ?thesis by (subst (asm) socket_agrees_with_endpoints [where token = "''t''"]) (simp_all add: presented_def)
qed

end
