(* ===== verification/WatchdogWorker.thy ===== *)
theory WatchdogWorker
  imports Watchdog Payload Hub Persistence
begin

text \<open>
  The sweep that notices silence, \<^verbatim>\<open>backend/app/workers/watchdog.py\<close>: the query that
  loads the fleet, the rows one sweep writes and the frames it publishes.  The whole fleet, of every
  tenant, is one transaction; frames go out as alarms are built, before it commits.
\<close>

section \<open>Tables\<close>

record recorder_row =
  rec_id :: uuid
  rec_tenant :: uuid
  rec_site :: uuid
  rec_name :: string

record watch_db =
  wt_recorders :: "recorder_row list"
  wt_sites :: "site_row list"
  wt_silence :: "silence_row list"
  wt_events :: "event_row list"
  wt_alarms :: "alarm_row list"

text \<open>The identifiers drawn for the alarms of a sweep, and its two renderings of an instant.\<close>

record watch_draw =
  wd_event :: "nat \<Rightarrow> uuid"
  wd_alarm :: "nat \<Rightarrow> uuid"
  wd_isof :: "instant \<Rightarrow> string"
  wd_minute :: "instant \<Rightarrow> string"

definition severity_by_event :: "(string \<times> severity) list" where
  "severity_by_event = [(''site_offline'', HIGH), (''device_silent'', CRITICAL)]"

definition snapshot_of :: "silence_row list \<Rightarrow> recorder_row \<Rightarrow> site_row \<Rightarrow> device_snapshot" where
  "snapshot_of silences d st =
    (let state = lookup_row si_device (rec_id d) silences
     in \<lparr>dev_id = rec_id d, dev_site = site_id st, dev_tenant = rec_tenant d, dev_name = rec_name d,
         dev_last_message = (case state of None \<Rightarrow> None | Some r \<Rightarrow> si_last_message r),
         stored_state = (case state of None \<Rightarrow> ''NEVER_SEEN'' | Some r \<Rightarrow> si_state r),
         dev_interval = (case state of None \<Rightarrow> 1800 | Some r \<Rightarrow> si_interval r),
         dev_timezone = site_tz st, dev_armed = site_armed st\<rparr>)"

definition load_snapshots :: "watch_db \<Rightarrow> device_snapshot list" where
  "load_snapshots db =
    [snapshot_of (wt_silence db) d st. d \<leftarrow> wt_recorders db, st \<leftarrow> wt_sites db, site_id st = rec_site d]"

section \<open>Writing the conclusions\<close>

datatype watch_error = Bad_schedule invalid_schedule | Unsafe unsafe_payload | Unknown_recorder uuid

text \<open>One turn of the loop over \<^verbatim>\<open>result.state_changes\<close>.\<close>

definition write_state :: "device_snapshot list \<Rightarrow> instant \<Rightarrow> uuid \<times> string \<Rightarrow> silence_row list
    \<Rightarrow> watch_error + silence_row list" where
  "write_state snaps now c rows =
    (case lookup_row dev_id (fst c) (rev snaps) of
       None \<Rightarrow> Inl (Unknown_recorder (fst c))
     | Some snap \<Rightarrow> Inr (
         if lookup_row si_device (fst c) rows = None
         then rows @ [\<lparr>si_device = fst c, si_tenant = dev_tenant snap, si_last_message = dev_last_message snap,
                si_interval = 1800, si_state = snd c, si_changed_at = Some now\<rparr>]
         else update_row si_device (fst c) (\<lambda>r. r\<lparr>si_state := snd c, si_changed_at := Some now\<rparr>) rows))"

fun write_states :: "device_snapshot list \<Rightarrow> instant \<Rightarrow> (uuid \<times> string) list \<Rightarrow> silence_row list
    \<Rightarrow> watch_error + silence_row list" where
  "write_states snaps now [] rows = Inr rows"
| "write_states snaps now (c # cs) rows = bind_err (write_state snaps now c rows) (write_states snaps now cs)"

definition alarm_severity :: "silence_alarm \<Rightarrow> severity" where
  "alarm_severity al = (case map_of severity_by_event (alarm_event_type al) of Some s \<Rightarrow> s | None \<Rightarrow> HIGH)"

definition subject_id :: "silence_alarm \<Rightarrow> uuid" where
  "subject_id al = (case alarm_device al of Some d \<Rightarrow> d | None \<Rightarrow> alarm_site al)"

definition alarm_risk :: "silence_alarm \<Rightarrow> int" where
  "alarm_risk al = (if alarm_security al then 90 else 60)"

definition silence_event :: "watch_draw \<Rightarrow> nat \<Rightarrow> silence_alarm \<Rightarrow> instant \<Rightarrow> event_row" where
  "silence_event dr k al now =
    \<lparr>ev_id = wd_event dr k, ev_tenant = alarm_tenant al, ev_site = alarm_site al,
     ev_device = (case alarm_device al of Some d \<Rightarrow> d | None \<Rightarrow> hd (alarm_devices al)), ev_camera = None,
     ev_type = alarm_event_type al, ev_vendor_label = None, ev_channel = None, ev_occurred = now,
     ev_occurred_local = None, ev_source = ''watchdog'',
     ev_message = Some (''watchdog:'' @ alarm_event_type al @ '':'' @ uuid_text (subject_id al) @ '':'' @ wd_minute dr now),
     ev_dedup_key = alarm_event_type al @ '':'' @ uuid_text (subject_id al), ev_count = 1, ev_status = ''ALERTED'',
     ev_risk = alarm_risk al, ev_severity = severity_value (alarm_severity al), ev_reasons = [alarm_reason al],
     ev_parse_status = ''PARSED'', ev_warnings = [], ev_profile = None\<rparr>"

definition silence_alarm_row :: "watch_draw \<Rightarrow> nat \<Rightarrow> silence_alarm \<Rightarrow> instant \<Rightarrow> alarm_row" where
  "silence_alarm_row dr k al now =
    \<lparr>al_id = wd_alarm dr k, al_tenant = alarm_tenant al, al_site = alarm_site al, al_event = wd_event dr k,
     al_severity = severity_value (alarm_severity al), al_status = ''ALERTED'', al_opened = now, al_acked_at = None,
     al_acked_by = None, al_resolved_at = None, al_resolved_by = None, al_resolution = None, al_note = None, al_step = 0\<rparr>"

definition site_label :: "site_row list \<Rightarrow> uuid \<Rightarrow> string" where
  "site_label rows i = (case lookup_row site_id i rows of Some st \<Rightarrow> site_name st | None \<Rightarrow> u_S @ ''antiye'')"

definition watch_push :: "watch_draw \<Rightarrow> watch_db \<Rightarrow> nat \<Rightarrow> silence_alarm \<Rightarrow> instant \<Rightarrow> push_payload" where
  "watch_push dr db k al now =
    build_push (wd_event dr k) (wd_alarm dr k) (alarm_severity al) (site_label (wt_sites db) (alarm_site al))
      (or_text (alarm_device_name al) (site_label (wt_sites db) (alarm_site al)))
      (alarm_event_type al) now (alarm_risk al) [alarm_reason al] False False"

text \<open>
  The \<open>k\<close>th alarm of the sweep.  What raises leaves the rows to the rollback, but the hub
  keeps what was published before.
\<close>

definition raise_alarm :: "watch_draw \<Rightarrow> instant \<Rightarrow> nat \<Rightarrow> silence_alarm \<Rightarrow> watch_db \<times> hub
    \<Rightarrow> watch_error + watch_db \<times> hub" where
  "raise_alarm dr now k al s =
    (case s of (db, h) \<Rightarrow>
     let db1 = db\<lparr>wt_events := wt_events db @ [silence_event dr k al now],
                  wt_alarms := wt_alarms db @ [silence_alarm_row dr k al now]\<rparr>
     in case payload_dict (wd_isof dr) (watch_push dr db k al now) of
          Inl e \<Rightarrow> Inl (Unsafe e)
        | Inr kvs \<Rightarrow> Inr (db1, snd (publish (alarm_tenant al)
            (alarm_frame (wd_isof dr) now kvs (Some (wd_event dr k))) h)))"

fun raise_alarms :: "watch_draw \<Rightarrow> instant \<Rightarrow> nat \<Rightarrow> silence_alarm list \<Rightarrow> watch_db \<times> hub
    \<Rightarrow> (watch_error + watch_db) \<times> hub" where
  "raise_alarms dr now k [] s = (Inr (fst s), snd s)"
| "raise_alarms dr now k (al # als) s =
    (case raise_alarm dr now k al s of
       Inl e \<Rightarrow> (Inl e, snd s)
     | Inr s' \<Rightarrow> raise_alarms dr now (Suc k) als s')"

definition apply_sweep :: "watch_draw \<Rightarrow> instant \<Rightarrow> device_snapshot list \<Rightarrow> sweep_result \<Rightarrow> watch_db \<times> hub
    \<Rightarrow> (watch_error + watch_db) \<times> hub" where
  "apply_sweep dr now snaps r s =
    (case write_states snaps now (state_changes r) (wt_silence (fst s)) of
       Inl e \<Rightarrow> (Inl e, snd s)
     | Inr rows \<Rightarrow> raise_alarms dr now 0 (alarms r) ((fst s)\<lparr>wt_silence := rows\<rparr>, snd s))"

text \<open>The sweep judges the fleet at \<open>moment\<close> and stamps its rows with the later \<open>now\<close>.\<close>

definition fleet_sweep_once :: "zone_db \<Rightarrow> watch_draw \<Rightarrow> instant \<Rightarrow> instant \<Rightarrow> watch_db \<times> hub
    \<Rightarrow> (watch_error + sweep_result) \<times> watch_db \<times> hub" where
  "fleet_sweep_once zones dr moment now s =
    (let snaps = load_snapshots (fst s)
     in case plan_sweep zones snaps moment of
          Inl e \<Rightarrow> (Inl (Bad_schedule e), s)
        | Inr r \<Rightarrow>
            if sweep_quiet r then (Inr r, s)
            else case apply_sweep dr now snaps r s of
                   (Inl e, h) \<Rightarrow> (Inl e, fst s, h)
                 | (Inr db, h) \<Rightarrow> (Inr r, db, h))"

section \<open>What a committed sweep leaves\<close>

definition fleet_keys :: "watch_db \<Rightarrow> bool" where
  "fleet_keys db \<longleftrightarrow> distinct (map rec_id (wt_recorders db)) \<and> distinct (map site_id (wt_sites db))"

lemma write_state_Inr:
  assumes "write_state snaps now (k, v) rows = Inr rows'"
  shows "\<exists>snap \<in> set snaps. dev_id snap = k \<and>
    lookup_row si_device k rows' = Some (case lookup_row si_device k rows of
        None \<Rightarrow> \<lparr>si_device = k, si_tenant = dev_tenant snap, si_last_message = dev_last_message snap,
                si_interval = 1800, si_state = v, si_changed_at = Some now\<rparr>
      | Some r \<Rightarrow> r\<lparr>si_state := v, si_changed_at := Some now\<rparr>) \<and>
    (\<forall>i. i \<noteq> k \<longrightarrow> lookup_row si_device i rows' = lookup_row si_device i rows)"
proof -
  obtain snap where snap: "lookup_row dev_id k (rev snaps) = Some snap"
    using assms by (cases "lookup_row dev_id k (rev snaps)") (auto simp: write_state_def)
  show ?thesis
  proof (cases "lookup_row si_device k rows")
    case None
    with assms snap have "rows' = rows @ [\<lparr>si_device = k, si_tenant = dev_tenant snap, si_last_message = dev_last_message snap,
        si_interval = 1800, si_state = v, si_changed_at = Some now\<rparr>]"
      by (simp add: write_state_def)
    with None lookup_row_Some [OF snap] show ?thesis
      by (intro bexI [of _ snap]) (auto simp: lookup_row_append lookup_row_single split: option.splits)
  next
    case (Some r)
    with assms snap have "rows' = update_row si_device k (\<lambda>r. r\<lparr>si_state := v, si_changed_at := Some now\<rparr>) rows"
      by (simp add: write_state_def)
    with Some lookup_row_Some [OF snap] show ?thesis
      by (intro bexI [of _ snap]) (simp_all add: lookup_update)
  qed
qed

definition unseen :: "device_snapshot list \<Rightarrow> silence_row list \<Rightarrow> bool" where
  "unseen snaps rows \<longleftrightarrow>
    (\<forall>d \<in> set snaps. lookup_row si_device (dev_id d) rows = None \<longrightarrow> dev_last_message d = None)"

lemma write_state_snapshot:
  assumes "write_state snaps now (k, v) rows = Inr rows'" and "unseen snaps rows"
  shows "unseen snaps rows'"
    "snapshot_of rows' d st = (if rec_id d = k then (snapshot_of rows d st)\<lparr>stored_state := v\<rparr> else snapshot_of rows d st)"
proof -
  obtain snap where snap: "snap \<in> set snaps" "dev_id snap = k"
    and look: "lookup_row si_device k rows' = Some (case lookup_row si_device k rows of
        None \<Rightarrow> \<lparr>si_device = k, si_tenant = dev_tenant snap, si_last_message = dev_last_message snap,
                si_interval = 1800, si_state = v, si_changed_at = Some now\<rparr>
      | Some r \<Rightarrow> r\<lparr>si_state := v, si_changed_at := Some now\<rparr>)"
    and others: "\<And>i. i \<noteq> k \<Longrightarrow> lookup_row si_device i rows' = lookup_row si_device i rows"
    using write_state_Inr [OF assms(1)] by blast
  show "unseen snaps rows'"
    using assms(2) look others unfolding unseen_def by (metis option.distinct(1))
  have "lookup_row si_device k rows = None \<Longrightarrow> dev_last_message snap = None"
    using assms(2) snap unfolding unseen_def by blast
  then show "snapshot_of rows' d st =
      (if rec_id d = k then (snapshot_of rows d st)\<lparr>stored_state := v\<rparr> else snapshot_of rows d st)"
    using look others by (cases "lookup_row si_device k rows") (auto simp: snapshot_of_def Let_def)
qed

lemma write_states_snapshot:
  assumes "write_states snaps now cs rows = Inr rows'" and "unseen snaps rows" and "distinct (map fst cs)"
  shows "snapshot_of rows' d st = (case map_of cs (rec_id d) of
    None \<Rightarrow> snapshot_of rows d st | Some v \<Rightarrow> (snapshot_of rows d st)\<lparr>stored_state := v\<rparr>)"
  using assms
proof (induction cs arbitrary: rows)
  case (Cons c cs)
  obtain k v where c: "c = (k, v)" by (cases c)
  from Cons.prems(1) obtain rows1 where
    one: "write_state snaps now (k, v) rows = Inr rows1" and rest: "write_states snaps now cs rows1 = Inr rows'"
    by (auto simp: c bind_err_Inr_iff)
  note S = write_state_snapshot [OF one Cons.prems(2)]
  have "k \<notin> fst ` set cs" using Cons.prems(3) by (simp add: c)
  then have "map_of cs k = None" by (simp add: map_of_eq_None_iff)
  with Cons.IH [OF rest S(1)] Cons.prems(3) show ?case
    by (auto simp: c S(2) split: option.splits)
qed simp

lemma write_states_returns:
  assumes "\<forall>c \<in> set cs. fst c \<in> dev_id ` set snaps"
  shows "\<exists>rows'. write_states snaps now cs rows = Inr rows'"
  using assms
proof (induction cs arbitrary: rows)
  case (Cons c cs)
  then have "lookup_row dev_id (fst c) (rev snaps) \<noteq> None" by (auto simp: lookup_row_None)
  then obtain rows1 where "write_state snaps now c rows = Inr rows1"
    by (cases "lookup_row dev_id (fst c) (rev snaps)") (auto simp: write_state_def)
  with Cons show ?case by simp
qed simp

lemma raise_alarms_rows:
  assumes "raise_alarms dr now k als s = (Inr db', h')"
  shows "db' = (fst s)\<lparr>wt_events := wt_events (fst s) @
       map (\<lambda>(i, al). silence_event dr i al now) (List.enumerate k als),
     wt_alarms := wt_alarms (fst s) @ map (\<lambda>(i, al). silence_alarm_row dr i al now) (List.enumerate k als)\<rparr>"
  using assms
proof (induction als arbitrary: k s)
  case (Cons al als)
  then obtain s1 where s1: "raise_alarm dr now k al s = Inr s1" "raise_alarms dr now (Suc k) als s1 = (Inr db', h')"
    by (auto split: sum.splits)
  then have "fst s1 = (fst s)\<lparr>wt_events := wt_events (fst s) @ [silence_event dr k al now],
      wt_alarms := wt_alarms (fst s) @ [silence_alarm_row dr k al now]\<rparr>"
    by (auto simp: raise_alarm_def Let_def split: prod.splits sum.splits)
  with Cons.IH [OF s1(2)] show ?case by simp
qed simp

lemma distinct_changes: "distinct (map fst (state_changes (plan_judged ps)))"
proof -
  have "distinct (map fst (state_changes (fold note_device qs r)))" if "distinct (map fst (state_changes r))" for qs r
    using that by (induction qs arbitrary: r) (simp_all add: note_device_changes distinct_dict_set)
  then show ?thesis by (simp add: plan_judged_def plan_changes empty_sweep_def)
qed

lemma snapshot_dev_id [simp]: "dev_id (snapshot_of rows d st) = rec_id d"
  by (simp add: snapshot_of_def Let_def)

lemma concat_guard: "concat (map (\<lambda>x. if P x then [f x] else []) xs) = map f (filter P xs)"
  by (induction xs) auto

lemma load_snapshots_rows: "load_snapshots db = concat (map (\<lambda>d.
    map (snapshot_of (wt_silence db) d) (filter (\<lambda>st. site_id st = rec_site d) (wt_sites db))) (wt_recorders db))"
  by (simp add: load_snapshots_def concat_guard)

lemma unseen_loaded: "unseen (load_snapshots db) (wt_silence db)"
  by (auto simp: unseen_def load_snapshots_rows snapshot_of_def Let_def split: option.splits)

lemma distinct_loaded:
  assumes "fleet_keys db"
  shows "distinct (map dev_id (load_snapshots db))"
proof -
  have "distinct (map dev_id (concat (map (\<lambda>d. map (snapshot_of rows d)
      (filter (\<lambda>st. site_id st = rec_site d) (wt_sites db))) ds)))" if "distinct (map rec_id ds)" for ds rows
    using that
  proof (induction ds)
    case (Cons d ds)
    let ?new = "map (snapshot_of rows d) (filter (\<lambda>st. site_id st = rec_site d) (wt_sites db))"
    have "length ?new \<le> 1"
      using filter_distinct_key [of site_id "wt_sites db" "rec_site d" "\<lambda>_. True"] assms by (simp add: fleet_keys_def)
    then have "distinct (map dev_id ?new)" by (cases ?new) auto
    moreover have "dev_id ` set ?new \<subseteq> {rec_id d}" by (auto simp: snapshot_of_def Let_def)
    moreover have "dev_id ` set (concat (map (\<lambda>d. map (snapshot_of rows d)
        (filter (\<lambda>st. site_id st = rec_site d) (wt_sites db))) ds)) \<subseteq> rec_id ` set ds"
      by (auto simp: snapshot_of_def Let_def)
    ultimately show ?case using Cons by auto
  qed simp
  with assms show ?thesis by (simp add: load_snapshots_rows fleet_keys_def)
qed

lemma changes_are_loaded:
  assumes "map_err (judge zones moment) ds = Inr ps" and "c \<in> set (state_changes (plan_judged ps))"
  shows "fst c \<in> dev_id ` set ds"
proof -
  have "map_of (state_changes (plan_judged ps)) (fst c) \<noteq> None" using assms(2) by (simp add: map_of_eq_None_iff)
  then obtain st where "map_of (state_changes (plan_judged ps)) (fst c) = Some st" by blast
  from state_changes_Some [OF this] obtain p where "p \<in> set ps" "dev_id (fst p) = fst c" by blast
  with judged_sweep(1) [OF assms(1)] show ?thesis by (metis image_eqI list.set_map)
qed

lemma reload_after:
  assumes "plan_sweep zones (load_snapshots db) moment = Inr r"
    and "write_states (load_snapshots db) now (state_changes r) (wt_silence db) = Inr rows"
  shows "load_snapshots (db\<lparr>wt_silence := rows, wt_events := es, wt_alarms := as\<rparr>) =
    map (store_changes r) (load_snapshots db)"
proof -
  obtain ps where "r = plan_judged ps" using assms(1) by (auto simp: plan_sweep_def bind_err_Inr_iff)
  then have "distinct (map fst (state_changes r))" by (simp add: distinct_changes)
  from write_states_snapshot [OF assms(2) unseen_loaded this]
  have "snapshot_of rows d st = store_changes r (snapshot_of (wt_silence db) d st)" for d st
    by (simp add: store_changes_def)
  then have "snapshot_of rows d = (\<lambda>st. store_changes r (snapshot_of (wt_silence db) d st))" for d by (rule ext)
  then show ?thesis by (simp add: load_snapshots_rows map_concat comp_def)
qed

text \<open>
  C12. A sweep that commits wrote, for each alarm it planned and in that order, one event and one alarm
  that refers to it, in the tenant and the site of the alarm; and it wrote the new states so that the
  next sweep of the same moment finds nothing and writes nothing.
\<close>

theorem committed_sweep_is_complete:
  assumes "fleet_sweep_once zones dr moment now (db, h) = (Inr r, db', h')" and "fleet_keys db"
  shows "(\<exists>es as. wt_events db' = wt_events db @ es \<and> wt_alarms db' = wt_alarms db @ as \<and>
      length es = length (alarms r) \<and> length as = length (alarms r) \<and>
      (\<forall>k < length (alarms r). al_event (as ! k) = ev_id (es ! k) \<and>
        al_tenant (as ! k) = alarm_tenant (alarms r ! k) \<and> ev_tenant (es ! k) = alarm_tenant (alarms r ! k) \<and>
        al_site (as ! k) = alarm_site (alarms r ! k) \<and> ev_type (es ! k) = alarm_event_type (alarms r ! k) \<and>
        al_status (as ! k) = ''ALERTED'' \<and> al_acked_at (as ! k) = None \<and> al_opened (as ! k) = now)) \<and>
    (\<exists>r'. sweep_quiet r' \<and> fleet_sweep_once zones dr' moment now' (db', h') = (Inr r', db', h'))"
proof -
  let ?ds = "load_snapshots db"
  have plan: "plan_sweep zones ?ds moment = Inr r"
    using assms(1) by (auto simp: fleet_sweep_once_def Let_def split: sum.splits if_splits prod.splits)
  show ?thesis
  proof (cases "sweep_quiet r")
    case True
    then have "db' = db" "h' = h" using assms(1) plan by (simp_all add: fleet_sweep_once_def Let_def)
    with True plan show ?thesis
      by (auto simp: sweep_quiet_def fleet_sweep_once_def Let_def)
  next
    case False
    with assms(1) plan have "apply_sweep dr now ?ds r (db, h) = (Inr db', h')"
      by (auto simp: fleet_sweep_once_def Let_def split: sum.splits prod.splits)
    then obtain rows where rows: "write_states ?ds now (state_changes r) (wt_silence db) = Inr rows"
      "raise_alarms dr now 0 (alarms r) (db\<lparr>wt_silence := rows\<rparr>, h) = (Inr db', h')"
      by (auto simp: apply_sweep_def split: sum.splits)
    note db' = raise_alarms_rows [OF rows(2), simplified]
    have "plan_sweep zones (load_snapshots db') moment = plan_sweep zones (map (store_changes r) ?ds) moment"
      unfolding db' using reload_after [OF plan rows(1)] by simp
    with settled_after_store [OF plan distinct_loaded [OF assms(2)]] obtain r' where
      "plan_sweep zones (load_snapshots db') moment = Inr r'" "sweep_quiet r'" by auto
    then have quiet: "\<exists>r'. sweep_quiet r' \<and> fleet_sweep_once zones dr' moment now' (db', h') = (Inr r', db', h')"
      by (simp add: fleet_sweep_once_def)
    let ?es = "map (\<lambda>(i, al). silence_event dr i al now) (List.enumerate 0 (alarms r))"
    let ?as = "map (\<lambda>(i, al). silence_alarm_row dr i al now) (List.enumerate 0 (alarms r))"
    have "wt_events db' = wt_events db @ ?es" "wt_alarms db' = wt_alarms db @ ?as"
      unfolding db' by simp_all
    moreover have "length ?es = length (alarms r)" "length ?as = length (alarms r)" by simp_all
    moreover have "?es ! k = silence_event dr k (alarms r ! k) now \<and> ?as ! k = silence_alarm_row dr k (alarms r ! k) now"
      if "k < length (alarms r)" for k using that by (simp add: nth_enumerate_eq)
    moreover have "al_event (silence_alarm_row dr k al now) = ev_id (silence_event dr k al now) \<and>
        al_tenant (silence_alarm_row dr k al now) = alarm_tenant al \<and> ev_tenant (silence_event dr k al now) = alarm_tenant al \<and>
        al_site (silence_alarm_row dr k al now) = alarm_site al \<and> ev_type (silence_event dr k al now) = alarm_event_type al \<and>
        al_status (silence_alarm_row dr k al now) = ''ALERTED'' \<and> al_acked_at (silence_alarm_row dr k al now) = None \<and>
        al_opened (silence_alarm_row dr k al now) = now" for k al
      by (simp add: silence_event_def silence_alarm_row_def)
    ultimately show ?thesis using quiet by (intro conjI exI [of _ ?es] exI [of _ ?as]) simp_all
  qed
qed

section \<open>One name that stops the fleet\<close>

lemma raise_alarms_unsafe:
  assumes "al \<in> set als" and "alarm_device_name al = Some name" and "leaks name"
  shows "\<exists>e h'. raise_alarms dr now k als s = (Inl e, h')"
  using assms(1)
proof (induction als arbitrary: k s)
  case (Cons b als)
  show ?case
  proof (cases "raise_alarm dr now k b s")
    case (Inl e)
    then show ?thesis by simp
  next
    case (Inr s1)
    then obtain kvs where kvs: "payload_dict (wd_isof dr) (watch_push dr (fst s) k b now) = Inr kvs"
      by (auto simp: raise_alarm_def Let_def split: prod.splits sum.splits)
    then have fields: "kvs = payload_fields (wd_isof dr) (watch_push dr (fst s) k b now)"
      by (auto simp: payload_dict_def bind_err_Inr_iff)
    have "b \<noteq> al"
    proof
      assume "b = al"
      have "lower [] \<noteq> ''rtsp://''" by (simp add: lower_def)
      then have "name \<noteq> []" using assms(3) by (auto simp: leaks_def)
      then have "push_camera (watch_push dr (fst s) k b now) = name"
        by (simp add: \<open>b = al\<close> watch_push_def build_push_def assms(2) or_text_def falsy_text_def)
      then have "name \<in> set (texts_in (PDict kvs))" by (simp add: fields payload_fields_def)
      with clean_payload [OF kvs] assms(3) show False by blast
    qed
    with Cons Inr show ?thesis by simp
  qed
qed simp

text \<open>
  C40. One recorder whose name reads like a URL with credentials blinds the watchdog: as long as an
  alarm for it is due, the sweep of the whole fleet fails, so no state, event or alarm of any
  recorder, site or tenant is recorded, whatever else went dark.
\<close>

theorem one_name_blinds_the_fleet:
  assumes "plan_sweep zones (load_snapshots db) moment = Inr r"
    and "al \<in> set (alarms r)" and "alarm_device_name al = Some name" and "leaks name"
  shows "\<exists>e h'. fleet_sweep_once zones dr moment now (db, h) = (Inl e, db, h')"
proof -
  have loud: "\<not> sweep_quiet r" using assms(2) by (auto simp: sweep_quiet_def)
  have "\<exists>e h'. apply_sweep dr now (load_snapshots db) r (db, h) = (Inl e, h')"
  proof (cases "write_states (load_snapshots db) now (state_changes r) (wt_silence db)")
    case (Inl e)
    then show ?thesis by (simp add: apply_sweep_def)
  next
    case (Inr rows)
    then show ?thesis
      using raise_alarms_unsafe [OF assms(2-4), of dr now 0 "(db\<lparr>wt_silence := rows\<rparr>, h)"]
      by (simp add: apply_sweep_def)
  qed
  with loud assms(1) show ?thesis by (auto simp: fleet_sweep_once_def Let_def)
qed

section \<open>Two customers\<close>

definition dark_site :: "uuid \<Rightarrow> site_row" where
  "dark_site i = \<lparr>site_id = i, site_tenant = i, site_name = ''Depo'', site_tz = istanbul, site_armed = True\<rparr>"

definition dark_state :: "uuid \<Rightarrow> silence_row" where
  "dark_state i = \<lparr>si_device = i, si_tenant = i, si_last_message = Some 0, si_interval = 1800, si_state = ''OK'',
     si_changed_at = None\<rparr>"

definition two_customers :: "string \<Rightarrow> watch_db" where
  "two_customers name = \<lparr>
     wt_recorders = [\<lparr>rec_id = 1, rec_tenant = 1, rec_site = 1, rec_name = ''NVR''\<rparr>,
                     \<lparr>rec_id = 2, rec_tenant = 2, rec_site = 2, rec_name = name\<rparr>],
     wt_sites = [dark_site 1, dark_site 2], wt_silence = [dark_state 1, dark_state 2], wt_events = [], wt_alarms = []\<rparr>"

definition dark_recorder :: "uuid \<Rightarrow> string \<Rightarrow> device_snapshot" where
  "dark_recorder i name = \<lparr>dev_id = i, dev_site = i, dev_tenant = i, dev_name = name, dev_last_message = Some 0,
     stored_state = ''OK'', dev_interval = 1800, dev_timezone = istanbul, dev_armed = True\<rparr>"

lemma two_loaded: "load_snapshots (two_customers name) = [dark_recorder 1 ''NVR'', dark_recorder 2 name]"
  by (simp add: load_snapshots_def two_customers_def dark_site_def dark_state_def dark_recorder_def snapshot_of_def
      lookup_row_def Let_def)

lemma dark_verdict: "evaluate_device utc3 (dark_recorder i name) (45 * minute) = Inr (silent_verdict (45 * minute) True)"
  by (simp add: evaluate_device_def evaluate_silence_def dark_recorder_def late_after_def
      silent_after_def timedelta_seconds_def default_config_def seconds_def is_night_def
      make_schedule_def resolve_timezone_def utc3_def local_time_def night_clock_def clock_def
      all_days_def time_of_day_def Let_def)

lemma dark_fields: "dev_id (dark_recorder i name) = i" "dev_site (dark_recorder i name) = i"
  "stored_state (dark_recorder i name) = ''OK''"
  by (simp_all add: dark_recorder_def)

lemma two_planned: "plan_sweep utc3 (load_snapshots (two_customers name)) (45 * minute) = Inr
  \<lparr>alarms = [device_alarm 1 [(dark_recorder 1 ''NVR'', silent_verdict (45 * minute) True)]
      (dark_recorder 1 ''NVR'', silent_verdict (45 * minute) True),
     device_alarm 2 [(dark_recorder 2 name, silent_verdict (45 * minute) True)]
      (dark_recorder 2 name, silent_verdict (45 * minute) True)],
   state_changes = [(1, ''SILENT''), (2, ''SILENT'')], recovered = []\<rparr>"
proof -
  let ?v = "silent_verdict (45 * minute) True"
  have "map_err (judge utc3 (45 * minute)) (load_snapshots (two_customers name)) =
      Inr [(dark_recorder 1 ''NVR'', ?v), (dark_recorder 2 name, ?v)]"
    unfolding two_loaded map_err.simps judge_def dark_verdict by simp
  moreover have "verdict_state ?v = SILENT" by (simp add: silent_verdict_def)
  ultimately show ?thesis
    by (simp add: plan_sweep_def plan_judged_def add_to_site_def plan_site_def site_alarms_def dark_fields
      newly_silent_def is_silent_def site_wide_def note_device_def empty_sweep_def Let_def)
qed

theorem one_name_blinds_the_fleet_witness:
  "\<forall>dr. \<exists>e h'. fleet_sweep_once utc3 dr (45 * minute) (46 * minute) (two_customers ''rtsp://10.0.0.9'', [])
     = (Inl e, two_customers ''rtsp://10.0.0.9'', h')"
proof -
  let ?v = "(dark_recorder 2 ''rtsp://10.0.0.9'', silent_verdict (45 * minute) True)"
  have name: "alarm_device_name (device_alarm 2 [?v] ?v) = Some ''rtsp://10.0.0.9''"
    by (simp add: device_alarm_def dark_recorder_def Let_def)
  have "''rtsp://10.0.0.9'' = [] @ ''rtsp://'' @ ''10.0.0.9''" "lower ''rtsp://'' = ''rtsp://''"
    by (simp_all add: lower_def lower_char_def)
  then have "leaks ''rtsp://10.0.0.9''" unfolding leaks_def by blast
  from one_name_blinds_the_fleet [OF two_planned _ name this] show ?thesis by simp
qed

section \<open>A silent afternoon\<close>

definition one_customer :: watch_db where
  "one_customer = \<lparr>wt_recorders = [\<lparr>rec_id = 1, rec_tenant = 1, rec_site = 1, rec_name = ''NVR''\<rparr>],
     wt_sites = [dark_site 1], wt_silence = [dark_state 1], wt_events = [], wt_alarms = []\<rparr>"

definition noon_draw :: watch_draw where
  "noon_draw = \<lparr>wd_event = (\<lambda>_. 5), wd_alarm = (\<lambda>_. 2), wd_isof = (\<lambda>_. ''2025-01-01''), wd_minute = (\<lambda>_. ''202501011200'')\<rparr>"

abbreviation noon_alarm :: silence_alarm where
  "noon_alarm \<equiv> (let p = (dark_recorder 1 ''NVR'', silent_verdict (9 * hour) False) in device_alarm 1 [p] p)"

abbreviation noon_push :: push_payload where
  "noon_push \<equiv> build_push 5 2 CRITICAL ''Depo'' ''NVR'' ''device_silent'' (9 * hour) 60
     [''recorder is not reporting; raise as a device fault''] False False"

lemma noon_scan: "forbidden None (py_text (PDict (payload_fields (\<lambda>_. ''2025-01-01'') noon_push))) = None"
  by (simp add: render_eval del: forbidden.simps(2),
      simp add: repr_eval del: forbidden.simps(2),
      simp add: scan_eval del: forbidden.simps(2))

lemma noon_verdict: "evaluate_device utc3 (dark_recorder 1 ''NVR'') (9 * hour) = Inr (silent_verdict (9 * hour) False)"
  by (simp add: evaluate_device_def evaluate_silence_def dark_recorder_def late_after_def
      silent_after_def timedelta_seconds_def default_config_def seconds_def is_night_def
      make_schedule_def resolve_timezone_def utc3_def local_time_def night_clock_def clock_def
      all_days_def time_of_day_def Let_def)

lemma noon_planned: "plan_sweep utc3 (load_snapshots one_customer) (9 * hour) =
    Inr \<lparr>alarms = [noon_alarm], state_changes = [(1, ''SILENT'')], recovered = []\<rparr>"
proof -
  let ?v = "silent_verdict (9 * hour) False"
  have "load_snapshots one_customer = [dark_recorder 1 ''NVR'']"
    by (simp add: load_snapshots_def one_customer_def dark_site_def dark_state_def dark_recorder_def snapshot_of_def
        lookup_row_def Let_def)
  then have "map_err (judge utc3 (9 * hour)) (load_snapshots one_customer) = Inr [(dark_recorder 1 ''NVR'', ?v)]"
    by (simp only: map_err.simps judge_def noon_verdict bind_err.simps)
  moreover have "verdict_state ?v = SILENT" by (simp add: silent_verdict_def)
  ultimately show ?thesis
    by (simp add: plan_sweep_def plan_judged_def add_to_site_def plan_site_def site_alarms_def dark_fields
      newly_silent_def is_silent_def site_wide_def note_device_def empty_sweep_def Let_def)
qed

lemma noon_payload: "watch_push noon_draw (one_customer\<lparr>wt_silence := rows\<rparr>) 0 noon_alarm (9 * hour) = noon_push"
  by (simp add: watch_push_def noon_draw_def one_customer_def device_alarm_def dark_recorder_def silent_verdict_def
      alarm_severity_def severity_by_event_def alarm_risk_def site_label_def dark_site_def lookup_row_def
      or_text_def falsy_text_def Let_def)

lemma noon_runs: "\<exists>db' h'. fleet_sweep_once utc3 noon_draw (9 * hour) (9 * hour) (one_customer, []) =
    (Inr \<lparr>alarms = [noon_alarm], state_changes = [(1, ''SILENT'')], recovered = []\<rparr>, db', h')"
proof -
  obtain rows where rows: "write_states (load_snapshots one_customer) (9 * hour) [(1, ''SILENT'')] (wt_silence one_customer) = Inr rows"
    using write_states_returns [of "[(1, ''SILENT'')]" "load_snapshots one_customer"]
    by (force simp: load_snapshots_def one_customer_def dark_site_def snapshot_of_def Let_def)
  have isof: "wd_isof noon_draw = (\<lambda>_. ''2025-01-01'')" by (simp add: noon_draw_def)
  have "payload_dict (wd_isof noon_draw) (watch_push noon_draw (one_customer\<lparr>wt_silence := rows\<rparr>) 0 noon_alarm (9 * hour)) =
      Inr (payload_fields (\<lambda>_. ''2025-01-01'') noon_push)"
    unfolding noon_payload isof payload_dict_def assert_safe_def noon_scan by simp
  then have "\<exists>s1. raise_alarm noon_draw (9 * hour) 0 noon_alarm (one_customer\<lparr>wt_silence := rows\<rparr>, []) = Inr s1"
    by (simp only: raise_alarm_def prod.case Let_def sum.case) blast
  then obtain s1 where "raise_alarm noon_draw (9 * hour) 0 noon_alarm (one_customer\<lparr>wt_silence := rows\<rparr>, []) = Inr s1" ..
  then have "apply_sweep noon_draw (9 * hour) (load_snapshots one_customer)
      \<lparr>alarms = [noon_alarm], state_changes = [(1, ''SILENT'')], recovered = []\<rparr> (one_customer, []) = (Inr (fst s1), snd s1)"
    by (simp only: apply_sweep_def sweep_result.select_convs fst_conv snd_conv rows sum.case raise_alarms.simps)
  then show ?thesis
    by (simp only: fleet_sweep_once_def Let_def fst_conv noon_planned sum.case sweep_quiet_def sweep_result.select_convs
        list.distinct simp_thms if_False prod.case) blast
qed

theorem committed_sweep_is_complete_witness:
  "\<exists>r db' h'. fleet_sweep_once utc3 noon_draw (9 * hour) (9 * hour) (one_customer, []) = (Inr r, db', h') \<and>
     length (wt_alarms db') = 1 \<and>
     (\<exists>r'. sweep_quiet r' \<and> fleet_sweep_once utc3 noon_draw (9 * hour) (10 * hour) (db', h') = (Inr r', db', h'))"
proof -
  obtain db' h' where run: "fleet_sweep_once utc3 noon_draw (9 * hour) (9 * hour) (one_customer, []) =
    (Inr \<lparr>alarms = [noon_alarm], state_changes = [(1, ''SILENT'')], recovered = []\<rparr>, db', h')" using noon_runs by blast
  have keys: "fleet_keys one_customer" by (simp add: fleet_keys_def one_customer_def)
  note C = committed_sweep_is_complete [OF run keys, where dr' = noon_draw and now' = "10 * hour"]
  have "wt_alarms one_customer = []" by (simp add: one_customer_def)
  with C [THEN conjunct1] have "length (wt_alarms db') = 1" by auto
  with run C [THEN conjunct2] show ?thesis by blast
qed

end
