(* ===== verification/Spec2Isabelle.thy ===== *)
theory Spec2Isabelle
  imports AlarmFlow AlarmsApi Analytics AuthRouter ConfigSafety Escalation EscalationWorker EventStream Hub Intake Lifecycle
    Outbox Persistence Probe PushProviders Realtime Smtp Suppression Transport Watchdog WatchdogWorker
begin

text \<open>
  Nightshift Security watches sites through recorders that mail an alarm when they see something.
  This library models its backend (\<^verbatim>\<open>src/backend/app\<close>) and the parts of its edge
  agent (\<^verbatim>\<open>src/edge-agent/nightshift_edge\<close>) that decide something, and proves what the
  model keeps.  Paths below are relative to these two directories.

  \<^bold>\<open>How the program works.\<close>  A recorder delivers a mail to the SMTP handler,
  which authenticates it against a snapshot of the issued accounts and limits its rate.  The
  pipeline reads the mail into an event.  The alarm flow decides: a face event is refused, a known
  outage or an open dedup window folds it, otherwise the site's rules are evaluated (schedule,
  zones, confidence, risk) and may raise an alarm with an escalation chain and a push payload.  The
  intake stores pictures and rows in one transaction, then publishes to the open sockets and
  pushes to phones.  Two workers run beside it: one pages the next person of an unanswered
  alarm, one raises alarms for recorders that fell silent.  People sign in, watch the socket,
  acknowledge and resolve alarms and configure sites over HTTP.  The edge agent reads the event stream
  of a recorder on the local network, probes what the recorder can do, and keeps what it could not
  upload in an outbox.

  \<^bold>\<open>Conventions.\<close>  A class is a record, an enum a datatype whose
  \<^verbatim>\<open>_value\<close> function gives its stored text, a raised exception the left side of a sum, a
  dictionary an association list with \<^verbatim>\<open>update\<close> (insertion order matters to the
  program) or a map.  A table is the list of its rows in insertion order, and a query without
  \<^verbatim>\<open>ORDER BY\<close> returns them in that order.  Text is spelled by its UTF-8 bytes; lengths and
  slices count characters and \<^verbatim>\<open>splitlines\<close> knows every line end, but the blanks and digits
  outside ASCII that \<^verbatim>\<open>strip\<close>, \<^verbatim>\<open>\s\<close> and \<^verbatim>\<open>int\<close> also know are not
  recognised, and letters outside ASCII have no case.  Instants and durations
  are integers in microseconds; floats that carry scores, confidences and coordinates are exact
  rationals, so binary rounding is not modelled.  Python's integers are unbounded and so are these.
  What the program draws (identifiers, jitter, tokens), the clock and what a library or a service
  answers (JWT, Argon2, SHA-256, S3, the push providers, the zone database, codecs, JSON, the commit
  of a transaction) are arguments.  A request that raises leaves the tables as they were.

  \<^bold>\<open>Foundations.\<close>
    \<^item> \<^verbatim>\<open>Prelude\<close>: instants, identifiers, dictionaries, lists, the collections
      \<^verbatim>\<open>flow_simps\<close> and \<^verbatim>\<open>inv_intros\<close>.
    \<^item> \<^verbatim>\<open>Identifiers\<close>: \<^verbatim>\<open>str\<close> and parsing of UUIDs,
      \<^verbatim>\<open>repr\<close>, \<^verbatim>\<open>int\<close>, Python values, character classes.
    \<^item> \<^verbatim>\<open>Tables\<close>: the rows of \<^verbatim>\<open>db/models.py\<close> several components share;
      lookup, update and counting.

  \<^bold>\<open>Deciding\<close> (pure modules).
    \<^item> \<^verbatim>\<open>Risk\<close>, \<^verbatim>\<open>Schedule\<close>, \<^verbatim>\<open>Zones\<close>,
      \<^verbatim>\<open>RuleEngine\<close>: \<^verbatim>\<open>modules/rules/*.py\<close>.  The clamped score and its bands; a
      schedule is active exactly inside a window opened on a listed day, but never when its ends are
      equal and a day is missing, which the code documents as 24 hours; ray casting over normalised
      polygons; a rule matches exactly when each gate passes, and the loudest match wins.
    \<^item> \<^verbatim>\<open>Windows\<close>: \<^verbatim>\<open>modules/events/dedup.py\<close> and the rate limiter of
      \<^verbatim>\<open>modules/ingest/smtp_server.py\<close> under one contract, the locale
      \<^verbatim>\<open>fixed_window\<close>, interpreted for both.
    \<^item> \<^verbatim>\<open>Suppression\<close>: \<^verbatim>\<open>modules/alarms/suppression.py\<close>.
    \<^item> \<^verbatim>\<open>Lifecycle\<close>: \<^verbatim>\<open>modules/events/lifecycle.py\<close> as a step relation with
      reachability; histories are legal paths of the table.
    \<^item> \<^verbatim>\<open>Escalation\<close>: \<^verbatim>\<open>modules/alarms/escalation.py\<close>; the locale
      \<^verbatim>\<open>drainable_chain\<close> says that delivering due steps ends, and is interpreted for the code's chain.
    \<^item> \<^verbatim>\<open>AlarmFlow\<close>: \<^verbatim>\<open>services/alarm_flow.py\<close>, the composition; when it
      alarms and what the alarm carries.

  \<^bold>\<open>Taking mail in.\<close>
    \<^item> \<^verbatim>\<open>Mime\<close>, \<^verbatim>\<open>Ingest\<close>: \<^verbatim>\<open>modules/ingest/mime.py\<close>,
      \<^verbatim>\<open>profiles.py\<close>, \<^verbatim>\<open>pipeline.py\<close>; a face mail leaves nothing, each other
      mail yields an event of the device it was authenticated as.
    \<^item> \<^verbatim>\<open>MediaStore\<close>: \<^verbatim>\<open>integrations/object_storage/media_store.py\<close>.
    \<^item> \<^verbatim>\<open>Persistence\<close>, \<^verbatim>\<open>Intake\<close>: \<^verbatim>\<open>services/persistence.py\<close>,
      \<^verbatim>\<open>intake.py\<close>, \<^verbatim>\<open>notifier.py\<close>; rows stay consistent, nothing goes out before
      the rows are committed.
    \<^item> \<^verbatim>\<open>Smtp\<close>: \<^verbatim>\<open>modules/ingest/smtp_server.py\<close> and the snapshot of
      \<^verbatim>\<open>workers/mail_ingest.py\<close>; the snapshot agrees with the database; accepted mail is
      recorded under the tenant and recorder that sent it, unless its Message-ID is already taken.

  \<^bold>\<open>Telling people.\<close>
    \<^item> \<^verbatim>\<open>Payload\<close>, \<^verbatim>\<open>Transport\<close>, \<^verbatim>\<open>PushProviders\<close>:
      \<^verbatim>\<open>modules/notifications/*.py\<close>, \<^verbatim>\<open>integrations/fcm\<close>, \<^verbatim>\<open>integrations/apns\<close>; no
      sent payload shows a credential, each recipient is accounted for once, a send ends within
      its attempts (at most four), provider tokens stay fresh.
    \<^item> \<^verbatim>\<open>Hub\<close>, \<^verbatim>\<open>Realtime\<close>: \<^verbatim>\<open>modules/realtime/*.py\<close>; queues of at
      most fifty frames, publishing reaches exactly the tenant, the socket admits whom the
      endpoints admit.
    \<^item> \<^verbatim>\<open>EscalationWorker\<close>: \<^verbatim>\<open>workers/escalation.py\<close>; a step is paged once and
      a sweep leaves no debt.
    \<^item> \<^verbatim>\<open>Watchdog\<close>, \<^verbatim>\<open>WatchdogWorker\<close>:
      \<^verbatim>\<open>modules/devices/watchdog.py\<close>, \<^verbatim>\<open>services/silence_sweep.py\<close>,
      \<^verbatim>\<open>workers/watchdog.py\<close>; each newly silent recorder is spoken for by exactly one alarm.

  \<^bold>\<open>People and configuration.\<close>
    \<^item> \<^verbatim>\<open>Rbac\<close>: \<^verbatim>\<open>core/rbac.py\<close>, \<^verbatim>\<open>core/tenancy.py\<close>.
    \<^item> \<^verbatim>\<open>Tokens\<close>, \<^verbatim>\<open>AuthRouter\<close>: \<^verbatim>\<open>modules/auth/*.py\<close>,
      \<^verbatim>\<open>core/deps.py\<close>.  The in-memory store and the endpoint over the database satisfy one
      contract, the locale \<^verbatim>\<open>refresh_store\<close>; the endpoint refines the store, and a replayed
      token ends its session family.
    \<^item> \<^verbatim>\<open>AlarmsApi\<close>: \<^verbatim>\<open>modules/alarms/router.py\<close>; over all request sequences
      alarms move forward only, and answers depend on the caller's tenant alone.
    \<^item> \<^verbatim>\<open>Commissioning\<close>, \<^verbatim>\<open>ConfigSafety\<close>:
      \<^verbatim>\<open>modules/sites/router.py\<close>, its endpoints, and what they keep over every sequence of
      requests: unique keys, rows in the tenant of the row they hang on, the rows of other tenants.
      A phone moves with its token, and the site of a rule is kept only where updates name own sites.
    \<^item> \<^verbatim>\<open>Analytics\<close>: \<^verbatim>\<open>modules/analytics/router.py\<close>.

  \<^bold>\<open>The edge agent.\<close>
    \<^item> \<^verbatim>\<open>EventParser\<close>, \<^verbatim>\<open>EventStream\<close>: the event classes of
      \<^verbatim>\<open>devices/dahua/models.py\<close>, \<^verbatim>\<open>event_parser.py\<close>, \<^verbatim>\<open>event_stream.py\<close>; the
      incremental multipart parser does not depend on how the stream is cut, and its loops end
      because each turn shortens the buffer.
    \<^item> \<^verbatim>\<open>Redaction\<close>: \<^verbatim>\<open>security/redaction.py\<close> and the filter of
      \<^verbatim>\<open>telemetry/logging_setup.py\<close>; the three patterns are matchers at one position, and values that
      differ only in secrets are redacted alike.
    \<^item> \<^verbatim>\<open>Streams\<close>: \<^verbatim>\<open>devices/dahua/rtsp.py\<close>, \<^verbatim>\<open>playback.py\<close>,
      \<^verbatim>\<open>media/ffprobe.py\<close>; logged addresses do not depend on the credentials in them.
    \<^item> \<^verbatim>\<open>Recorder\<close>: \<^verbatim>\<open>devices/dahua/cgi_client.py\<close>, \<^verbatim>\<open>capabilities.py\<close>,
      \<^verbatim>\<open>health.py\<close>, \<^verbatim>\<open>snapshot.py\<close>; the recorder is what it answers to each call.
    \<^item> \<^verbatim>\<open>Probe\<close>: \<^verbatim>\<open>devices/dahua/probe.py\<close>, the report of
      \<^verbatim>\<open>models.py\<close>, \<^verbatim>\<open>adapter.py\<close>; nothing is reported as supported that was not observed.
    \<^item> \<^verbatim>\<open>Outbox\<close>: \<^verbatim>\<open>queue/sqlite_store.py\<close>; no accepted event is lost or
      changed, a claim takes the earliest due events up to its limit and nobody else gets them,
      eviction meets its quota.

  \<^bold>\<open>Bounds.\<close>  No definition uses fuel: each loop of the modelled code runs over a
  finite list, a fixed number of attempts or a buffer that shrinks, and is a structural recursion or a
  \<^theory_text>\<open>function\<close> with a measure.  The listener's endless loop is a function of the list of
  connections it has seen.

  \<^bold>\<open>Not modelled.\<close>  Log lines, descriptions and other renderings that nothing reads
  back; start-up, signal handling and the loops that call a sweep every minute;
  \<^verbatim>\<open>_strip_html\<close> and the patterns of the provisional mail profile (regular expressions, which appear as
  functions from a text to the group they capture); settings, logging and application wiring
  (\<^verbatim>\<open>core/config.py\<close>, \<^verbatim>\<open>core/logging.py\<close>, \<^verbatim>\<open>main.py\<close>); generated schema
  migrations; password hashing, which is one call of a library; the AI service, whose pipelines are
  placeholders; the edge agent's command line and its NetSDK placeholder.  Concurrency inside one process is modelled by order: a
  sequence of operations for the tables, the parser and the outbox, explicit points at which a
  transaction commits for the intake and the workers.
\<close>

end
